(* ===== verification/Prelude.thy ===== *)
theory Prelude
  imports Main "HOL-Library.Sublist"
begin

text \<open>
  Shared vocabulary of the development. It holds the errors the Python code raises, the
  transaction type in which database code is written (a function of the state that either
  raises, and then leaves nothing behind because the transaction is rolled back, or returns a
  value and the new state), the interface of a relation that a transaction keeps between its
  first and its last state, and generic lemmas on lists and maps.
\<close>

section \<open>Names and errors\<close>

text \<open>
  A UUID is a natural number: the code compares, orders and stores identifiers and never looks
  inside one. Times are integers (microseconds since the epoch). Texts are \<open>string\<close>.
\<close>

type_synonym uuid = nat
type_synonym time = int

text \<open>
  The exceptions of the modelled code. \<open>ServiceError\<close> carries the HTTP status and the machine
  code of \<open>service/errors.py\<close> (the human message is prose and is left out), \<open>JournalError\<close>
  and \<open>SetupError\<close> carry their fixed diagnostic codes; \<open>DatabaseError\<close> names the violated constraint.
\<close>

datatype error =
    ServiceError nat string
  | JournalError string
  | SetupError string
  | ManifestError
  | ValueError
  | DatabaseError string
  | RuntimeError
  | OSError
  | AttributeError
  | Cancelled

section \<open>Results and transactions\<close>

type_synonym 'a res = "error + 'a"
type_synonym ('s, 'a) tx = "'s \<Rightarrow> error + ('a \<times> 's)"

definition tx_return :: "'a \<Rightarrow> ('s, 'a) tx" where
  "tx_return a = (\<lambda>s. Inr (a, s))"

definition tx_raise :: "error \<Rightarrow> ('s, 'a) tx" where
  "tx_raise e = (\<lambda>s. Inl e)"

definition tx_bind :: "('s, 'a) tx \<Rightarrow> ('a \<Rightarrow> ('s, 'b) tx) \<Rightarrow> ('s, 'b) tx" where
  "tx_bind m f = (\<lambda>s. case m s of Inl e \<Rightarrow> Inl e | Inr (a, s') \<Rightarrow> f a s')"

definition tx_then :: "('s, 'a) tx \<Rightarrow> ('s, 'b) tx \<Rightarrow> ('s, 'b) tx" where
  "tx_then m n = tx_bind m (\<lambda>_. n)"

definition tx_read :: "('s \<Rightarrow> 'a) \<Rightarrow> ('s, 'a) tx" where
  "tx_read f = (\<lambda>s. Inr (f s, s))"

definition tx_modify :: "('s \<Rightarrow> 's) \<Rightarrow> ('s, unit) tx" where
  "tx_modify f = (\<lambda>s. Inr ((), f s))"

definition tx_guard :: "('s \<Rightarrow> bool) \<Rightarrow> error \<Rightarrow> ('s, unit) tx" where
  "tx_guard p e = (\<lambda>s. if p s then Inr ((), s) else Inl e)"

fun tx_each :: "('a \<Rightarrow> ('s, unit) tx) \<Rightarrow> 'a list \<Rightarrow> ('s, unit) tx" where
  "tx_each f [] = tx_return ()"
| "tx_each f (x # xs) = tx_then (f x) (tx_each f xs)"

named_theorems tx_simps \<open>evaluation of transactions at a state\<close>
named_theorems tx_within \<open>structural rules for what a transaction keeps\<close>

lemma tx_return_at [tx_simps, simp]: "tx_return a s = Inr (a, s)"
  by (simp add: tx_return_def)

lemma tx_raise_at [tx_simps, simp]: "tx_raise e s = Inl e"
  by (simp add: tx_raise_def)

lemma tx_read_at [tx_simps, simp]: "tx_read f s = Inr (f s, s)"
  by (simp add: tx_read_def)

lemma tx_modify_at [tx_simps, simp]: "tx_modify f s = Inr ((), f s)"
  by (simp add: tx_modify_def)

lemma tx_guard_at [tx_simps]: "tx_guard p e s = (if p s then Inr ((), s) else Inl e)"
  by (simp add: tx_guard_def)

lemma tx_guard_True [simp]: "p s \<Longrightarrow> tx_guard p e s = Inr ((), s)"
  by (simp add: tx_guard_def)

lemma tx_guard_False [simp]: "\<not> p s \<Longrightarrow> tx_guard p e s = Inl e"
  by (simp add: tx_guard_def)

lemma tx_guard_Inr [simp]: "tx_guard p e s = Inr (u, s') \<longleftrightarrow> p s \<and> s' = s"
  by (auto simp: tx_guard_def)

lemma tx_bind_at [tx_simps]:
  "tx_bind m f s = (case m s of Inl e \<Rightarrow> Inl e | Inr (a, s') \<Rightarrow> f a s')"
  by (simp add: tx_bind_def)

lemma tx_bind_Inl [simp]: "m s = Inl e \<Longrightarrow> tx_bind m f s = Inl e"
  by (simp add: tx_bind_def)

lemma tx_bind_Inr [simp]: "m s = Inr (a, s') \<Longrightarrow> tx_bind m f s = f a s'"
  by (simp add: tx_bind_def)

lemma tx_bind_InrE [elim]:
  assumes "tx_bind m f s = Inr (b, t)"
  obtains a s' where "m s = Inr (a, s')" and "f a s' = Inr (b, t)"
  using assms by (auto simp: tx_bind_def split: sum.splits)

lemma tx_then_at [tx_simps]:
  "tx_then m n s = (case m s of Inl e \<Rightarrow> Inl e | Inr (a, s') \<Rightarrow> n s')"
  by (simp add: tx_then_def tx_bind_def)

lemma tx_then_Inl [simp]: "m s = Inl e \<Longrightarrow> tx_then m n s = Inl e"
  by (simp add: tx_then_def)

lemma tx_then_Inr [simp]: "m s = Inr (a, s') \<Longrightarrow> tx_then m n s = n s'"
  by (simp add: tx_then_def)

lemma tx_then_InrE [elim]:
  assumes "tx_then m n s = Inr (b, t)"
  obtains a s' where "m s = Inr (a, s')" and "n s' = Inr (b, t)"
  using assms by (auto simp: tx_then_def)

text \<open>How a committed run decomposes: rewriting a run of a composed transaction into its steps.\<close>

named_theorems tx_runs \<open>decomposition of committed runs\<close>

lemma tx_bind_runs [tx_runs]:
  "tx_bind m f s = Inr (b, t) \<longleftrightarrow> (\<exists>a s'. m s = Inr (a, s') \<and> f a s' = Inr (b, t))"
  by (auto simp: tx_bind_def split: sum.splits)

lemma tx_then_runs [tx_runs]:
  "tx_then m n s = Inr (b, t) \<longleftrightarrow> (\<exists>a s'. m s = Inr (a, s') \<and> n s' = Inr (b, t))"
  by (auto simp: tx_then_def tx_bind_runs)

lemma tx_if_runs [tx_runs]:
  "(if b then m else n) s = Inr (a, t) \<longleftrightarrow> (if b then m s = Inr (a, t) else n s = Inr (a, t))"
  by simp

section \<open>What a transaction keeps\<close>

text \<open>
  \<open>stays R m\<close>: whenever \<open>m\<close> commits, its first and last states are related by \<open>R\<close>. Frame
  conditions (a table is untouched), monotonicity (rows are only added) and invariants
  (\<open>R s t = (I s \<longrightarrow> I t)\<close>) all have this form, and all compose when \<open>R\<close> is a preorder.
\<close>

definition stays :: "('s \<Rightarrow> 's \<Rightarrow> bool) \<Rightarrow> ('s, 'a) tx \<Rightarrow> bool" where
  "stays R m \<longleftrightarrow> (\<forall>s a t. m s = Inr (a, t) \<longrightarrow> R s t)"

lemma staysI [intro?]: "(\<And>s a t. m s = Inr (a, t) \<Longrightarrow> R s t) \<Longrightarrow> stays R m"
  by (simp add: stays_def)

lemma staysD: "stays R m \<Longrightarrow> m s = Inr (a, t) \<Longrightarrow> R s t"
  by (simp add: stays_def)

lemma stays_raise [tx_within]: "stays R (tx_raise e)"
  by (simp add: stays_def)

lemma stays_modify: "(\<And>s. R s (f s)) \<Longrightarrow> stays R (tx_modify f)"
  by (auto simp: stays_def)

lemma stays_if [tx_within]: "(b \<Longrightarrow> stays R m) \<Longrightarrow> (\<not> b \<Longrightarrow> stays R n) \<Longrightarrow> stays R (if b then m else n)"
  by simp

lemma stays_option [tx_within]:
  "(x = None \<Longrightarrow> stays R m) \<Longrightarrow> (\<And>y. x = Some y \<Longrightarrow> stays R (f y)) \<Longrightarrow>
   stays R (case x of None \<Rightarrow> m | Some y \<Rightarrow> f y)"
  by (cases x) simp_all

lemma stays_prod [tx_within]:
  "(\<And>a b. p = (a, b) \<Longrightarrow> stays R (f a b)) \<Longrightarrow> stays R (case p of (a, b) \<Rightarrow> f a b)"
  by (cases p) simp

locale kept_relation =
  fixes R :: "'s \<Rightarrow> 's \<Rightarrow> bool"
  assumes kept_refl: "R s s"
    and kept_trans: "R s t \<Longrightarrow> R t u \<Longrightarrow> R s u"
begin

lemma kept_return [tx_within]: "stays R (tx_return a)"
  by (simp add: stays_def kept_refl)

lemma kept_read [tx_within]: "stays R (tx_read f)"
  by (simp add: stays_def kept_refl)

lemma kept_guard [tx_within]: "stays R (tx_guard p e)"
  by (auto simp: stays_def kept_refl)

lemma kept_bind [tx_within]: "stays R m \<Longrightarrow> (\<And>a. stays R (f a)) \<Longrightarrow> stays R (tx_bind m f)"
  unfolding stays_def by (blast elim: tx_bind_InrE intro: kept_trans)

lemma kept_then [tx_within]: "stays R m \<Longrightarrow> stays R n \<Longrightarrow> stays R (tx_then m n)"
  unfolding stays_def by (blast elim: tx_then_InrE intro: kept_trans)

lemma kept_each [tx_within]: "(\<And>x. stays R (f x)) \<Longrightarrow> stays R (tx_each f xs)"
  by (induction xs) (simp_all add: kept_return kept_then)

end

text \<open>An invariant is the relation "if it held before, it holds after".\<close>

abbreviation (input) keeps :: "('s \<Rightarrow> bool) \<Rightarrow> 's \<Rightarrow> 's \<Rightarrow> bool" where
  "keeps I \<equiv> \<lambda>s t. I s \<longrightarrow> I t"

interpretation kept_invariant: kept_relation "keeps I" for I
  by unfold_locales auto

text \<open>A part of the state that the transaction does not touch.\<close>

abbreviation (input) same :: "('s \<Rightarrow> 'p) \<Rightarrow> 's \<Rightarrow> 's \<Rightarrow> bool" where
  "same f \<equiv> \<lambda>s t. f t = f s"

interpretation kept_part: kept_relation "same f" for f
  by unfold_locales auto

text \<open>A table to which the transaction only adds rows.\<close>

interpretation kept_rows: kept_relation "\<lambda>s t. f s \<subseteq>\<^sub>m f t" for f
  by unfold_locales (auto intro: map_le_trans)

section \<open>Runs of a machine\<close>

text \<open>
  A sequence of events driven through a step function that may raise, and the interface of an
  invariant over it. Components whose operations follow one another interpret it.
\<close>

fun run_events :: "('s \<Rightarrow> 'e \<Rightarrow> 's res) \<Rightarrow> 's \<Rightarrow> 'e list \<Rightarrow> 's res" where
  "run_events step s [] = Inr s"
| "run_events step s (e # es) =
     (case step s e of Inl x \<Rightarrow> Inl x | Inr s' \<Rightarrow> run_events step s' es)"

lemma run_events_append:
  "run_events step s (xs @ ys) =
     (case run_events step s xs of Inl e \<Rightarrow> Inl e | Inr t \<Rightarrow> run_events step t ys)"
  by (induction xs arbitrary: s) (auto split: sum.splits)

lemma run_events_history:
  assumes step: "\<And>done s e t. I done s \<Longrightarrow> step s e = Inr t \<Longrightarrow> I (done @ [e]) t"
    and start: "I done0 s" and run: "run_events step s es = Inr t"
  shows "I (done0 @ es) t"
  using start run
proof (induction es arbitrary: done0 s)
  case Nil
  then show ?case by simp
next
  case (Cons e es)
  then obtain u where u: "step s e = Inr u" and "run_events step u es = Inr t"
    by (auto split: sum.splits)
  with Cons.IH [OF step [OF Cons.prems(1) u]] show ?case by simp
qed

locale event_machine =
  fixes step :: "'s \<Rightarrow> 'e \<Rightarrow> 's res"
    and ok :: "'s \<Rightarrow> bool"
  assumes step_ok: "ok s \<Longrightarrow> step s e = Inr t \<Longrightarrow> ok t"
begin

lemma run_ok: "ok s \<Longrightarrow> run_events step s es = Inr t \<Longrightarrow> ok t"
proof (induction es arbitrary: s)
  case Nil
  then show ?case by simp
next
  case (Cons e es)
  then show ?case by (auto split: sum.splits dest: step_ok)
qed

end

section \<open>Lists\<close>

lemma filter_drop_distinct_keys:
  "distinct (map f xs) \<Longrightarrow> distinct (map f (filter p xs))"
  by (induction xs) auto

end
