(* ===== verification/Journal_Format.thy ===== *)
theory Journal_Format
  imports Prelude "HOL-Library.Product_Lexorder"
begin

text \<open>
  The record format of the memory journal (\<open>journal/format.py\<close>): canonical daily paths and
  their parser, the journal entry with its payload rule, the encoded line with its size limit,
  and the reader of a whole file. JSON text and the field types checked by the validation
  library are a parameter: a \<open>codec\<close> gives the encoding of an entry, the decoding of a line
  and the digest of a line.
\<close>

section \<open>Limits\<close>

definition MAX_LINE_BYTES :: nat where
  "MAX_LINE_BYTES = 384 * 1024"

definition MAX_FILE_BYTES :: nat where
  "MAX_FILE_BYTES = 20000000"

definition MAX_SERIES_FILES :: nat where
  "MAX_SERIES_FILES = 4096"

section \<open>Canonical text of identifiers, dates and part numbers\<close>

definition digit_chars :: string where
  "digit_chars = ''0123456789abcdef''"

definition digit_char :: "nat \<Rightarrow> char" where
  "digit_char d = digit_chars ! d"

text \<open>The value of a lower-case digit, \<open>None\<close> for any other character.\<close>

fun index_of :: "'a \<Rightarrow> 'a list \<Rightarrow> nat option" where
  "index_of x [] = None"
| "index_of x (y # ys) = (if x = y then Some 0 else map_option Suc (index_of x ys))"

definition digit_value :: "nat \<Rightarrow> char \<Rightarrow> nat option" where
  "digit_value base c = index_of c (take base digit_chars)"

text \<open>A number in exactly \<open>k\<close> digits, and back. Reading fails on a foreign character.\<close>

fun digits_of :: "nat \<Rightarrow> nat \<Rightarrow> nat \<Rightarrow> string" where
  "digits_of base 0 n = []"
| "digits_of base (Suc k) n = digits_of base k (n div base) @ [digit_char (n mod base)]"

fun read_digits :: "nat \<Rightarrow> nat \<Rightarrow> string \<Rightarrow> nat option" where
  "read_digits base acc [] = Some acc"
| "read_digits base acc (c # cs) =
     (case digit_value base c of None \<Rightarrow> None | Some d \<Rightarrow> read_digits base (acc * base + d) cs)"

text \<open>\<open>str(UUID)\<close>: 32 hexadecimal digits in groups of 8, 4, 4, 4 and 12.\<close>

definition uuid_text :: "uuid \<Rightarrow> string" where
  "uuid_text u = (let h = digits_of 16 32 u in
     take 8 h @ ''-'' @ take 4 (drop 8 h) @ ''-'' @ take 4 (drop 12 h) @ ''-''
     @ take 4 (drop 16 h) @ ''-'' @ drop 20 h)"

text \<open>
  \<open>UUID(text)\<close> on the characters the file-name pattern lets through: the dashes are dropped
  and exactly 32 hexadecimal digits must remain.
\<close>

definition uuid_of_text :: "string \<Rightarrow> uuid option" where
  "uuid_of_text t = (let h = filter (\<lambda>c. c \<noteq> CHR ''-'') t in
     if length h = 32 then read_digits 16 0 h else None)"

type_synonym day = "nat \<times> nat \<times> nat"

definition leap_year :: "nat \<Rightarrow> bool" where
  "leap_year y \<longleftrightarrow> 4 dvd y \<and> (\<not> 100 dvd y \<or> 400 dvd y)"

definition days_in_month :: "nat \<Rightarrow> nat \<Rightarrow> nat" where
  "days_in_month y m =
     (if m = 2 then (if leap_year y then 29 else 28)
      else if m \<in> {4, 6, 9, 11} then 30 else 31)"

fun valid_day :: "day \<Rightarrow> bool" where
  "valid_day (y, m, d) \<longleftrightarrow>
     1 \<le> y \<and> y \<le> 9999 \<and> 1 \<le> m \<and> m \<le> 12 \<and> 1 \<le> d \<and> d \<le> days_in_month y m"

text \<open>\<open>date.isoformat()\<close>.\<close>

fun day_text :: "day \<Rightarrow> string" where
  "day_text (y, m, d) = digits_of 10 4 y @ ''-'' @ digits_of 10 2 m @ ''-'' @ digits_of 10 2 d"

text \<open>
  \<open>date.fromisoformat(text)\<close> followed by the check that the text is the date's own
  \<open>isoformat()\<close>: the other ISO forms that the library reads are refused by that check.
\<close>

definition day_of_text :: "string \<Rightarrow> day option" where
  "day_of_text t =
     (if length t = 10 \<and> t ! 4 = CHR ''-'' \<and> t ! 7 = CHR ''-'' then
        (case (read_digits 10 0 (take 4 t), read_digits 10 0 (take 2 (drop 5 t)),
               read_digits 10 0 (drop 8 t)) of
           (Some y, Some m, Some d) \<Rightarrow> if valid_day (y, m, d) then Some (y, m, d) else None
         | _ \<Rightarrow> None)
      else None)"

section \<open>Journal paths\<close>

text \<open>Python's \<open>str.split\<close> on one character.\<close>

fun split_on :: "char \<Rightarrow> string \<Rightarrow> string list" where
  "split_on c [] = [[]]"
| "split_on c (x # xs) =
     (if x = c then [] # split_on c xs
      else (case split_on c xs of [] \<Rightarrow> [[x]] | p # ps \<Rightarrow> (x # p) # ps))"

text \<open>
  The pattern \<open>([0-9a-f-]{36})(?:\.part-([0-9]{6}))?\.jsonl\<close> matched against the whole
  name: the writer's text, and the six digits of the part if they are there.
\<close>

definition match_name :: "string \<Rightarrow> (string \<times> string option) option" where
  "match_name name =
     (let w = take 36 name; rest = drop 36 name in
      if length w = 36 \<and> list_all (\<lambda>c. c \<in> set (CHR ''-'' # digit_chars)) w then
        (if rest = ''.jsonl'' then Some (w, None)
         else if length rest = 18 \<and> take 6 rest = ''.part-'' \<and> drop 12 rest = ''.jsonl''
               \<and> list_all (\<lambda>c. c \<in> set (take 10 digit_chars)) (take 6 (drop 6 rest))
              then Some (w, Some (take 6 (drop 6 rest)))
              else None)
      else None)"

definition journal_path :: "string \<Rightarrow> (day \<times> uuid \<times> nat) res" where
  "journal_path value =
     (case split_on (CHR ''/'') value of
        [day, name] \<Rightarrow>
          (case (day_of_text day, match_name name) of
             (Some parsed, Some (w, p)) \<Rightarrow>
               (case uuid_of_text w of
                  None \<Rightarrow> Inl (JournalError ''journal_record_path_mismatch'')
                | Some writer \<Rightarrow>
                    (let part = (case p of None \<Rightarrow> Some 0 | Some ds \<Rightarrow> read_digits 10 0 ds) in
                     case part of
                       None \<Rightarrow> Inl (JournalError ''journal_record_path_mismatch'')
                     | Some n \<Rightarrow>
                         if uuid_text writer \<noteq> w
                            \<or> (p \<noteq> None \<and> \<not> (1 \<le> n \<and> n < MAX_SERIES_FILES))
                         then Inl (JournalError ''journal_record_path_mismatch'')
                         else Inr (parsed, writer, n)))
           | _ \<Rightarrow> Inl (JournalError ''journal_record_path_mismatch''))
      | _ \<Rightarrow> Inl (JournalError ''journal_record_path_mismatch''))"

text \<open>
  The names that the journal writes: the daily file of a writer (\<open>JournalEntry.relative_path\<close>)
  and its numbered continuations (\<open>rollover.append\<close>).
\<close>

definition part_name :: "day \<Rightarrow> uuid \<Rightarrow> nat \<Rightarrow> string" where
  "part_name d w n =
     day_text d @ ''/'' @ uuid_text w
     @ (if n = 0 then [] else ''.part-'' @ digits_of 10 6 n) @ ''.jsonl''"

subsection \<open>Digits read back\<close>

lemma index_of_nth: "distinct xs \<Longrightarrow> i < length xs \<Longrightarrow> index_of (xs ! i) xs = Some i"
proof (induction xs arbitrary: i)
  case Nil
  then show ?case by simp
next
  case (Cons x xs)
  then show ?case by (cases i) auto
qed

lemma index_of_Some: "index_of x xs = Some i \<Longrightarrow> i < length xs \<and> xs ! i = x"
  by (induction xs arbitrary: i) (auto split: if_splits)

lemma digit_chars_distinct [simp]: "distinct digit_chars" "length digit_chars = 16"
  by (simp_all add: digit_chars_def)

lemma digit_value_char: "base \<le> 16 \<Longrightarrow> d < base \<Longrightarrow> digit_value base (digit_char d) = Some d"
  using index_of_nth [of "take base digit_chars" d]
  by (simp add: digit_value_def digit_char_def)

lemma digit_value_Some: "base \<le> 16 \<Longrightarrow> digit_value base c = Some d \<Longrightarrow> d < base \<and> digit_char d = c"
  by (auto simp: digit_value_def digit_char_def dest: index_of_Some)

lemma read_digits_append:
  "read_digits base acc (xs @ ys) =
     (case read_digits base acc xs of None \<Rightarrow> None | Some a \<Rightarrow> read_digits base a ys)"
  by (induction base acc xs rule: read_digits.induct) (auto split: option.splits)

lemma length_digits_of [simp]: "length (digits_of base k n) = k"
  by (induction k arbitrary: n) auto

lemma read_digits_of:
  "0 < base \<Longrightarrow> base \<le> 16 \<Longrightarrow> n < base ^ k \<Longrightarrow> read_digits base 0 (digits_of base k n) = Some n"
proof (induction k arbitrary: n)
  case 0
  then show ?case by simp
next
  case (Suc k)
  then have "n div base < base ^ k"
    by (simp add: less_mult_imp_div_less mult.commute)
  with Suc have "read_digits base 0 (digits_of base k (n div base)) = Some (n div base)"
    by simp
  with Suc.prems show ?case
    by (simp add: read_digits_append digit_value_char)
qed

lemma digits_of_read:
  "0 < base \<Longrightarrow> base \<le> 16 \<Longrightarrow> read_digits base 0 t = Some n \<Longrightarrow>
   digits_of base (length t) n = t \<and> n < base ^ length t"
proof (induction t arbitrary: n rule: rev_induct)
  case Nil
  then show ?case by simp
next
  case (snoc c t)
  then obtain m d where m: "read_digits base 0 t = Some m" and d: "digit_value base c = Some d"
    and n: "n = m * base + d"
    by (auto simp: read_digits_append split: option.splits)
  from snoc.prems d have c: "d < base" "digit_char d = c" by (auto dest: digit_value_Some)
  from snoc.IH [OF snoc.prems(1,2) m] have IH: "digits_of base (length t) m = t" "m < base ^ length t"
    by auto
  from IH(2) have "Suc m \<le> base ^ length t" by simp
  then have "Suc m * base \<le> base ^ length t * base" by (rule mult_le_mono1)
  with c have "n < base ^ length t * base" by (simp add: n)
  with IH c snoc.prems show ?case by (simp add: n mult.commute)
qed

lemma digits_of_chars: "0 < base \<Longrightarrow> base \<le> 16 \<Longrightarrow> set (digits_of base k n) \<subseteq> set (take base digit_chars)"
proof (induction k arbitrary: n)
  case 0
  then show ?case by simp
next
  case (Suc k)
  have "digit_char (n mod base) \<in> set (take base digit_chars)"
    using Suc.prems nth_mem [of "n mod base" "take base digit_chars"]
    by (simp add: digit_char_def)
  with Suc show ?case by auto
qed

lemma digits_of_hex: "base = 10 \<or> base = 16 \<Longrightarrow> c \<in> set (digits_of base k n) \<Longrightarrow> c \<in> set digit_chars"
  using digits_of_chars [of base k n] set_take_subset [of base digit_chars] by fastforce

lemma hex_not_special: "c \<in> set digit_chars \<Longrightarrow> c \<noteq> CHR ''-'' \<and> c \<noteq> CHR ''/'' \<and> c \<noteq> CHR ''.''"
  by (auto simp: digit_chars_def)

subsection \<open>Identifiers and dates read back\<close>

lemma length_uuid_text [simp]: "length (uuid_text u) = 36"
  by (simp add: uuid_text_def Let_def)

lemma filter_no_dash: "set h \<subseteq> set digit_chars \<Longrightarrow> filter (\<lambda>c. c \<noteq> CHR ''-'') h = h"
  by (rule filter_True) (auto dest: hex_not_special)

lemma uuid_text_chars: "c \<in> set (uuid_text u) \<Longrightarrow> c = CHR ''-'' \<or> c \<in> set digit_chars"
  using digits_of_hex [of 16 c 32 u]
  by (auto simp: uuid_text_def Let_def dest!: in_set_takeD in_set_dropD)

lemma hex_groups:
  "take 8 h @ take 4 (drop 8 h) @ take 4 (drop 12 h) @ take 4 (drop 16 h) @ drop 20 h = h"
proof -
  have "take 4 (drop 16 h) @ drop 20 h = drop 16 h"
    using append_take_drop_id [of 4 "drop 16 h"] by simp
  moreover have "take 4 (drop 12 h) @ drop 16 h = drop 12 h"
    using append_take_drop_id [of 4 "drop 12 h"] by simp
  moreover have "take 4 (drop 8 h) @ drop 12 h = drop 8 h"
    using append_take_drop_id [of 4 "drop 8 h"] by simp
  ultimately show ?thesis by simp
qed

lemma uuid_text_no_dashes: "filter (\<lambda>c. c \<noteq> CHR ''-'') (uuid_text u) = digits_of 16 32 u"
proof -
  define h where "h = digits_of 16 32 u"
  have h: "set h \<subseteq> set digit_chars" using digits_of_chars [of 16 32 u] by (simp add: h_def)
  have sub: "filter (\<lambda>c. c \<noteq> CHR ''-'') (take n (drop m h)) = take n (drop m h)"
    "filter (\<lambda>c. c \<noteq> CHR ''-'') (drop m h) = drop m h"
    "filter (\<lambda>c. c \<noteq> CHR ''-'') (take n h) = take n h" for n m
    using h by (auto intro!: filter_no_dash dest!: in_set_takeD in_set_dropD)
  show ?thesis
    using hex_groups [of h]
    by (simp add: uuid_text_def Let_def h_def [symmetric] sub)
qed

lemma uuid_of_uuid_text: "u < 16 ^ 32 \<Longrightarrow> uuid_of_text (uuid_text u) = Some u"
  using read_digits_of [of 16 u 32] by (simp add: uuid_of_text_def Let_def uuid_text_no_dashes)

lemma uuid_of_text_bound: "uuid_of_text t = Some u \<Longrightarrow> u < 16 ^ 32"
  using digits_of_read [of 16 "filter (\<lambda>c. c \<noteq> CHR ''-'') t" u]
  by (auto simp: uuid_of_text_def Let_def split: if_splits)

lemma days_in_month_le: "days_in_month y m \<le> 31"
  by (simp add: days_in_month_def)

lemma length_day_text [simp]: "length (day_text d) = 10"
  by (cases d) simp

lemma day_of_day_text:
  assumes "valid_day d" shows "day_of_text (day_text d) = Some d"
proof -
  obtain y m k where d: "d = (y, m, k)" by (cases d)
  from assms have b: "y < 10 ^ 4" "m < 10 ^ 2" "k < 10 ^ 2"
    using days_in_month_le [of y m] by (auto simp: d)
  from b have "read_digits 10 0 (digits_of 10 4 y) = Some y"
    "read_digits 10 0 (digits_of 10 2 m) = Some m" "read_digits 10 0 (digits_of 10 2 k) = Some k"
    using read_digits_of [of 10 y 4] read_digits_of [of 10 m 2] read_digits_of [of 10 k 2] by simp_all
  then show ?thesis
    using assms by (simp add: d day_of_text_def nth_append del: digits_of.simps)
qed

lemma day_text_of_text:
  assumes "day_of_text t = Some d" shows "valid_day d \<and> day_text d = t"
proof -
  from assms have l: "length t = 10" and dash: "t ! 4 = CHR ''-''" "t ! 7 = CHR ''-''"
    by (auto simp: day_of_text_def split: if_splits)
  from assms l dash obtain y m k where
    r: "read_digits 10 0 (take 4 t) = Some y" "read_digits 10 0 (take 2 (drop 5 t)) = Some m"
       "read_digits 10 0 (drop 8 t) = Some k" and v: "valid_day (y, m, k)" and d: "d = (y, m, k)"
    by (auto simp: day_of_text_def split: option.splits if_splits)
  have eq: "digits_of 10 4 y = take 4 t" "digits_of 10 2 m = take 2 (drop 5 t)" "digits_of 10 2 k = drop 8 t"
    using digits_of_read [OF _ _ r(1)] digits_of_read [OF _ _ r(2)] digits_of_read [OF _ _ r(3)] l
    by auto
  have "drop 4 t = CHR ''-'' # drop 5 t" "drop 7 t = CHR ''-'' # drop 8 t"
    using Cons_nth_drop_Suc [of 4 t] Cons_nth_drop_Suc [of 7 t] l dash by auto
  moreover have "take 2 (drop 5 t) @ drop 7 t = drop 5 t"
    using append_take_drop_id [of 2 "drop 5 t"] by simp
  ultimately have "take 4 t @ CHR ''-'' # take 2 (drop 5 t) @ CHR ''-'' # drop 8 t = t"
    by (metis append_take_drop_id)
  with eq v show ?thesis by (simp add: d del: digits_of.simps)
qed

subsection \<open>Paths read back\<close>

lemma split_on_free: "c \<notin> set xs \<Longrightarrow> split_on c xs = [xs]"
  by (induction xs) auto

lemma split_on_two: "c \<notin> set xs \<Longrightarrow> c \<notin> set ys \<Longrightarrow> split_on c (xs @ c # ys) = [xs, ys]"
  by (induction xs) (auto simp: split_on_free)

lemma split_on_join: "split_on c xs = ps \<Longrightarrow> xs = concat (hd ps # map (\<lambda>p. c # p) (tl ps)) \<and> ps \<noteq> []"
  by (induction xs arbitrary: ps) (auto split: list.splits if_splits)

lemma day_text_chars: "c \<in> set (day_text d) \<Longrightarrow> c = CHR ''-'' \<or> c \<in> set digit_chars"
  by (cases d) (auto simp del: digits_of.simps dest: digits_of_hex [rotated])

lemma match_name_daily: "match_name (uuid_text w @ ''.jsonl'') = Some (uuid_text w, None)"
proof -
  have "list_all (\<lambda>c. c \<in> set (CHR ''-'' # digit_chars)) (uuid_text w)"
    by (auto simp: list_all_iff dest: uuid_text_chars)
  then show ?thesis by (simp add: match_name_def Let_def)
qed

lemma match_name_part:
  "match_name (uuid_text w @ ''.part-'' @ digits_of 10 6 n @ ''.jsonl'') =
     Some (uuid_text w, Some (digits_of 10 6 n))"
proof -
  have w: "list_all (\<lambda>c. c \<in> set (CHR ''-'' # digit_chars)) (uuid_text w)"
    by (auto simp: list_all_iff dest: uuid_text_chars)
  have d: "list_all (\<lambda>c. c \<in> set (take 10 digit_chars)) (digits_of 10 6 n)"
    using digits_of_chars [of 10 6 n] by (auto simp: list_all_iff simp del: digits_of.simps)
  have split: "take 6 (drop 6 (''.part-'' @ digits_of 10 6 n @ ''.jsonl'')) = digits_of 10 6 n"
    "drop 12 (''.part-'' @ digits_of 10 6 n @ ''.jsonl'') = ''.jsonl''"
    by (simp_all del: digits_of.simps)
  show ?thesis
    unfolding match_name_def Let_def
    using w d split by (simp del: digits_of.simps add: numeral_eq_Suc)
qed

lemma match_name_shape:
  assumes "match_name name = Some (w, p)"
  shows "name = w @ (case p of None \<Rightarrow> [] | Some ds \<Rightarrow> ''.part-'' @ ds) @ ''.jsonl''
         \<and> (\<forall>ds. p = Some ds \<longrightarrow> length ds = 6)"
proof -
  define rest where "rest = drop 36 name"
  have w: "w = take 36 name"
    using assms by (auto simp: match_name_def Let_def split: if_splits)
  have name: "name = w @ rest" by (simp add: w rest_def)
  show ?thesis
  proof (cases p)
    case None
    with assms have "rest = ''.jsonl''"
      by (auto simp: match_name_def Let_def rest_def split: if_splits)
    with None name show ?thesis by simp
  next
    case (Some ds)
    with assms have r: "length rest = 18" "take 6 rest = ''.part-''" "drop 12 rest = ''.jsonl''"
        "ds = take 6 (drop 6 rest)"
      by (auto simp: match_name_def Let_def rest_def split: if_splits)
    have "rest = take 6 rest @ take 6 (drop 6 rest) @ drop 12 rest"
      using append_take_drop_id [of 6 "drop 6 rest"] by (simp add: append_assoc [symmetric])
    with r name Some show ?thesis by simp
  qed
qed

lemma journal_path_of_part_name:
  assumes d: "valid_day d" and w: "w < 16 ^ 32" and n: "n < MAX_SERIES_FILES"
  shows "journal_path (part_name d w n) = Inr (d, w, n)"
proof -
  let ?name = "uuid_text w @ (if n = 0 then [] else ''.part-'' @ digits_of 10 6 n) @ ''.jsonl''"
  have slash: "CHR ''/'' \<notin> set (day_text d)" "CHR ''/'' \<notin> set ?name"
    using hex_not_special digits_of_hex [of 10 "CHR ''/''" 6 n]
    by (auto dest!: day_text_chars uuid_text_chars simp del: digits_of.simps)
  have split: "split_on (CHR ''/'') (part_name d w n) = [day_text d, ?name]"
    using split_on_two [OF slash] by (simp add: part_name_def)
  have part: "read_digits 10 0 (digits_of 10 6 n) = Some n"
    using n by (intro read_digits_of) (auto simp: MAX_SERIES_FILES_def)
  have name: "match_name ?name = Some (uuid_text w, if n = 0 then None else Some (digits_of 10 6 n))"
    using match_name_daily [of w] match_name_part [of w n] by simp
  show ?thesis
    unfolding journal_path_def split
    using n part
    by (simp add: name day_of_day_text [OF d] uuid_of_uuid_text [OF w] del: digits_of.simps)
qed

lemma journal_path_canonical:
  assumes "journal_path v = Inr (d, w, n)"
  shows "v = part_name d w n \<and> valid_day d \<and> w < 16 ^ 32 \<and> n < MAX_SERIES_FILES"
proof -
  from assms obtain day name p t where split: "split_on (CHR ''/'') v = [day, name]"
    and day: "day_of_text day = Some d" and name: "match_name name = Some (t, p)"
    and u: "uuid_of_text t = Some w" "uuid_text w = t"
    and part: "(case p of None \<Rightarrow> Some 0 | Some ds \<Rightarrow> read_digits 10 0 ds) = Some n"
    and range: "p \<noteq> None \<longrightarrow> 1 \<le> n \<and> n < MAX_SERIES_FILES"
    unfolding journal_path_def Let_def
    by (auto split: list.splits option.splits prod.splits if_splits)
  have v: "v = day @ CHR ''/'' # name" using split_on_join [OF split] by simp
  have "n < MAX_SERIES_FILES \<and> name = uuid_text w @ (if n = 0 then [] else ''.part-'' @ digits_of 10 6 n) @ ''.jsonl''"
  proof (cases p)
    case None
    with part match_name_shape [OF name] u show ?thesis by (simp add: MAX_SERIES_FILES_def)
  next
    case (Some ds)
    with part have ds: "read_digits 10 0 ds = Some n" by simp
    have "length ds = 6" using match_name_shape [OF name] Some by simp
    with digits_of_read [OF _ _ ds] have "digits_of 10 6 n = ds" by simp
    with Some range match_name_shape [OF name] u show ?thesis by auto
  qed
  with v day_text_of_text [OF day] uuid_of_text_bound [OF u(1)] show ?thesis
    by (simp add: part_name_def)
qed

text \<open>A journal path is accepted exactly when it is the canonical name of a real calendar day,
  a 128-bit writer and a part below the series limit, and then it reads back as these three:
  no second spelling of a path is let in, and every name the publisher writes is.
\<close>

theorem journal_path_iff:
  "journal_path v = Inr (d, w, n) \<longleftrightarrow>
     v = part_name d w n \<and> valid_day d \<and> w < 16 ^ 32 \<and> n < MAX_SERIES_FILES"
  using journal_path_canonical journal_path_of_part_name by blast

end
