(* ===== verification/Journal_Entry.thy ===== *)
theory Journal_Entry
  imports Journal_Format
begin

text \<open>
  The journal record itself (\<open>JournalEntry\<close> of \<open>journal/format.py\<close>): its fields, the payload
  rule, the encoded line and its size limit, and the readers of one line and of a file.
\<close>

section \<open>Entries\<close>

datatype action = Upsert | Forget | Quarantine

text \<open>
  The timestamp is a UTC datetime: its date and the microsecond of the day. Metadata is the
  JSON object as a list of fields, each with its encoded value.
\<close>

record entry =
  e_id :: uuid
  e_ts :: "day \<times> nat"
  e_tenant :: uuid
  e_space :: uuid
  e_memory :: uuid
  e_version :: nat
  e_writer :: uuid
  e_action :: action
  e_subject :: "string option"
  e_important :: bool
  e_text :: "string option"
  e_kind :: string
  e_metadata :: "(string \<times> string) list"

type_synonym origin = "uuid \<times> uuid \<times> uuid"
type_synonym digest = string

definition entry_origin :: "entry \<Rightarrow> origin" where
  "entry_origin e = (e_tenant e, e_space e, e_memory e)"

definition relative_path :: "entry \<Rightarrow> string" where
  "relative_path e = day_text (fst (e_ts e)) @ ''/'' @ uuid_text (e_writer e) @ ''.jsonl''"

definition matches_path :: "entry \<Rightarrow> string \<Rightarrow> bool res" where
  "matches_path e relative =
     (case journal_path relative of
        Inl x \<Rightarrow> Inl x
      | Inr (day, writer, part) \<Rightarrow> Inr (day = fst (e_ts e) \<and> writer = e_writer e))"

text \<open>Python's \<open>str.strip()\<close> leaves nothing: every character is white space.\<close>

definition py_space :: "char \<Rightarrow> bool" where
  "py_space c \<longleftrightarrow> (let n = (of_char c :: nat) in
     (9 \<le> n \<and> n \<le> 13) \<or> (28 \<le> n \<and> n \<le> 32) \<or> n = 133 \<or> n = 160)"

definition blank :: "string \<Rightarrow> bool" where
  "blank t \<longleftrightarrow> list_all py_space t"

definition payload_ok :: "entry \<Rightarrow> bool" where
  "payload_ok e =
     (if e_action e = Upsert
      then (case e_text e of None \<Rightarrow> False | Some t \<Rightarrow> \<not> blank t)
      else \<not> (e_text e \<noteq> None \<or> e_subject e \<noteq> None \<or> e_metadata e \<noteq> []))"

section \<open>Lines\<close>

text \<open>
  What the JSON library and the validation library supply: the encoding of an entry as one
  line of bytes, the decoding of a line into typed fields (duplicate keys and unknown fields
  refused), the SHA-256 digest and the encoded size of the metadata.
\<close>

record codec =
  kc_encode :: "entry \<Rightarrow> string"
  kc_decode :: "string \<Rightarrow> entry option"
  kc_sha :: "string \<Rightarrow> digest"
  kc_metadata_size :: "(string \<times> string) list \<Rightarrow> nat"

definition newline :: char where
  "newline = CHR 0x0A"

definition no_nul :: "string \<Rightarrow> bool" where
  "no_nul t \<longleftrightarrow> CHR 0x00 \<notin> set t"

definition MEMORY_KINDS :: "string list" where
  "MEMORY_KINDS = [''fact'', ''event'', ''preference'', ''procedure'', ''note'']"

text \<open>The declared field limits of \<open>JournalEntry\<close>, its metadata limit and its payload rule.\<close>

definition entry_valid :: "codec \<Rightarrow> entry \<Rightarrow> bool" where
  "entry_valid k e \<longleftrightarrow>
     1 \<le> e_version e \<and> e_version e \<le> 9007199254740991
   \<and> (case e_subject e of None \<Rightarrow> True | Some t \<Rightarrow> length t \<le> 500 \<and> no_nul t)
   \<and> (case e_text e of None \<Rightarrow> True
        | Some t \<Rightarrow> 1 \<le> length t \<and> length t \<le> 65536 \<and> no_nul t)
   \<and> e_kind e \<in> set MEMORY_KINDS
   \<and> kc_metadata_size k (e_metadata e) \<le> 16384
   \<and> payload_ok e"

definition entry_line :: "codec \<Rightarrow> entry \<Rightarrow> string res" where
  "entry_line k e = (let v = kc_encode k e in
     if length v > MAX_LINE_BYTES then Inl (JournalError ''journal_record_too_large'') else Inr v)"

definition entry_digest :: "codec \<Rightarrow> entry \<Rightarrow> digest res" where
  "entry_digest k e = map_sum id (kc_sha k) (entry_line k e)"

text \<open>\<open>_unique\<close>: the fields of a JSON object become a dictionary, a repeated key is an error.\<close>

fun unique_fields :: "(string \<times> 'v) list \<Rightarrow> (string \<times> 'v) list \<Rightarrow> (string \<times> 'v) list res" where
  "unique_fields result [] = Inr result"
| "unique_fields result ((key, value) # pairs) =
     (if key \<in> fst ` set result then Inl (JournalError ''journal_duplicate_field'')
      else unique_fields (result @ [(key, value)]) pairs)"

definition parse_line :: "codec \<Rightarrow> string \<Rightarrow> entry res" where
  "parse_line k v =
     (if v = [] \<or> length v > MAX_LINE_BYTES \<or> last v \<noteq> newline
      then Inl (JournalError ''journal_incomplete_or_oversized_record'')
      else case kc_decode k v of
             None \<Rightarrow> Inl (JournalError ''invalid_journal_record'')
           | Some e \<Rightarrow>
               if \<not> entry_valid k e then Inl (JournalError ''invalid_journal_record'')
               else (case entry_line k e of
                       Inl x \<Rightarrow> Inl (JournalError ''invalid_journal_record'')
                     | Inr line \<Rightarrow> Inr e))"

section \<open>Files\<close>

text \<open>\<open>stream.readline(n)\<close>: up to \<open>n\<close> bytes, stopping after a newline.\<close>

fun readline :: "nat \<Rightarrow> string \<Rightarrow> string \<times> string" where
  "readline 0 bs = ([], bs)"
| "readline (Suc n) [] = ([], [])"
| "readline (Suc n) (c # cs) =
     (if c = newline then ([c], cs)
      else (case readline n cs of (l, r) \<Rightarrow> (c # l, r)))"

lemma readline_split: "readline n bs = (l, r) \<Longrightarrow> bs = l @ r"
  by (induction n bs arbitrary: l r rule: readline.induct) (auto split: if_splits prod.splits)

function parse_stream :: "codec \<Rightarrow> nat \<Rightarrow> nat \<Rightarrow> string \<Rightarrow> entry list res" where
  "parse_stream k maximum tot bs =
     (case readline (MAX_LINE_BYTES + 1) bs of (v, rest) \<Rightarrow>
        if v = [] then Inr []
        else if tot + length v > maximum then Inl (JournalError ''journal_file_too_large'')
        else (case parse_line k v of
                Inl x \<Rightarrow> Inl x
              | Inr e \<Rightarrow>
                  (case parse_stream k maximum (tot + length v) rest of
                     Inl x \<Rightarrow> Inl x
                   | Inr es \<Rightarrow> Inr (e # es))))"
  by pat_completeness auto
termination
  by (relation "measure (\<lambda>(k, maximum, tot, bs). length bs)")
     (auto dest!: readline_split [OF sym])

declare parse_stream.simps [simp del]

definition parse_file :: "codec \<Rightarrow> nat \<Rightarrow> string \<Rightarrow> entry list res" where
  "parse_file k maximum bs = parse_stream k maximum 0 bs"

text \<open>\<open>journal_candidate\<close>: a purported journal is recognised by its first line.\<close>

definition JOURNAL_FORMAT :: string where
  "JOURNAL_FORMAT = ''mnemion-memory-journal''"

definition lower_char :: "char \<Rightarrow> char" where
  "lower_char c = (let n = (of_char c :: nat) in
     if 65 \<le> n \<and> n \<le> 90 then char_of (n + 32) else c)"

definition ends_with :: "string \<Rightarrow> string \<Rightarrow> bool" where
  "ends_with s t \<longleftrightarrow> length t \<le> length s \<and> drop (length s - length t) s = t"

definition journal_candidate :: "string \<Rightarrow> string \<Rightarrow> bool" where
  "journal_candidate path t \<longleftrightarrow>
     ends_with (map lower_char path) ''.jsonl''
   \<and> sublist JOURNAL_FORMAT (takeWhile (\<lambda>c. c \<noteq> newline) (take MAX_LINE_BYTES t))"

section \<open>Facts about lines and files\<close>

lemma payload_denial: "payload_ok e \<Longrightarrow> e_action e \<noteq> Upsert \<Longrightarrow> e_text e = None \<and> e_subject e = None"
  by (simp add: payload_ok_def)

lemma parse_line_valid: "parse_line k v = Inr e \<Longrightarrow> entry_valid k e \<and> v \<noteq> [] \<and> last v = newline"
  by (auto simp: parse_line_def split: if_splits option.splits sum.splits)

lemma unique_fields_result:
  "distinct (map fst acc) \<Longrightarrow>
   unique_fields acc ps =
     (if distinct (map fst (acc @ ps)) then Inr (acc @ ps)
      else Inl (JournalError ''journal_duplicate_field''))"
  by (induction acc ps rule: unique_fields.induct) auto

lemma readline_line:
  "newline \<notin> set body \<Longrightarrow> length body < n \<Longrightarrow> readline n (body @ newline # rest) = (body @ [newline], rest)"
proof (induction body arbitrary: n)
  case Nil
  then show ?case by (cases n) auto
next
  case (Cons c cs)
  then show ?case by (cases n) auto
qed

lemma readline_empty: "readline (Suc n) bs = ([], rest) \<Longrightarrow> bs = []"
  by (cases bs) (auto split: if_splits prod.splits)

text \<open>What the JSON library documents: an encoded entry is one line, and decodes to itself.\<close>

definition codec_ok :: "codec \<Rightarrow> entry \<Rightarrow> bool" where
  "codec_ok k e \<longleftrightarrow> kc_decode k (kc_encode k e) = Some e
     \<and> (\<exists>body. kc_encode k e = body @ [newline] \<and> newline \<notin> set body)"

lemma parse_line_encode:
  assumes "codec_ok k e" and "entry_valid k e" and "entry_line k e = Inr l"
  shows "parse_line k l = Inr e"
proof -
  from assms(1) obtain body where enc: "kc_encode k e = body @ [newline]"
    and dec: "kc_decode k (kc_encode k e) = Some e"
    by (auto simp: codec_ok_def)
  from assms(3) have l: "l = kc_encode k e" "length l \<le> MAX_LINE_BYTES"
    by (auto simp: entry_line_def Let_def split: if_splits)
  moreover have "l \<noteq> []" "last l = newline" by (simp_all add: l(1) enc)
  ultimately show ?thesis using dec assms by (simp add: parse_line_def)
qed

lemma parse_stream_round_trip:
  "\<forall>e\<in>set es. codec_ok k e \<and> entry_valid k e \<and> entry_line k e = Inr (kc_encode k e) \<Longrightarrow>
   tot + length (concat (map (kc_encode k) es)) \<le> maximum \<Longrightarrow>
   parse_stream k maximum tot (concat (map (kc_encode k) es)) = Inr es"
proof (induction es arbitrary: tot)
  case Nil
  then show ?case by (subst parse_stream.simps) simp
next
  case (Cons e es)
  let ?rest = "concat (map (kc_encode k) es)"
  from Cons.prems(1) obtain body where enc: "kc_encode k e = body @ [newline]" and nl: "newline \<notin> set body"
    by (auto simp: codec_ok_def)
  from Cons.prems(1) have len: "length body < MAX_LINE_BYTES + 1"
    by (auto simp: entry_line_def Let_def enc split: if_splits)
  have read: "readline (MAX_LINE_BYTES + 1) (kc_encode k e @ ?rest) = (kc_encode k e, ?rest)"
    using readline_line [OF nl len, of ?rest] by (simp add: enc)
  have "parse_line k (kc_encode k e) = Inr e"
    using Cons.prems(1) by (intro parse_line_encode) auto
  moreover have "parse_stream k maximum (tot + length (kc_encode k e)) ?rest = Inr es"
    using Cons.prems by (intro Cons.IH) auto
  moreover have "kc_encode k e \<noteq> []" by (simp add: enc)
  ultimately show ?case
    using Cons.prems(2) read by (subst parse_stream.simps) simp
qed

lemma parse_stream_complete:
  "parse_stream k maximum tot bs = Inr es \<Longrightarrow> bs = [] \<or> last bs = newline"
proof (induction k maximum tot bs arbitrary: es rule: parse_stream.induct)
  case (1 k maximum tot bs)
  obtain v rest where read: "readline (MAX_LINE_BYTES + 1) bs = (v, rest)" by fastforce
  have bs: "bs = v @ rest" using readline_split [OF read] .
  show ?case
  proof (cases "v = []")
    case True
    then show ?thesis using read by (auto dest: readline_empty [of MAX_LINE_BYTES])
  next
    case False
    with 1(2) read obtain e es' where size: "\<not> tot + length v > maximum"
      and line: "parse_line k v = Inr e"
      and more: "parse_stream k maximum (tot + length v) rest = Inr es'"
      by (subst (asm) parse_stream.simps) (auto split: if_splits sum.splits)
    from parse_line_valid [OF line] have "last v = newline" by simp
    moreover have "rest = [] \<or> last rest = newline"
      using 1(1) [OF read [symmetric] False size line more] .
    ultimately show ?thesis using False by (auto simp: bs last_append)
  qed
qed

text \<open>
  C26. A journal file is read back as exactly the entries written to it: encoding valid entries
  line after line and reading the file gives the same entries in the same order, as long as
  the file stays below its size limit and the JSON library decodes what it encoded.
\<close>

theorem parse_file_round_trip:
  assumes "\<forall>e\<in>set es. codec_ok k e \<and> entry_valid k e"
    and "\<forall>e\<in>set es. entry_line k e = Inr (kc_encode k e)"
    and "length (concat (map (kc_encode k) es)) \<le> maximum"
  shows "parse_file k maximum (concat (map (kc_encode k) es)) = Inr es"
  unfolding parse_file_def using assms by (intro parse_stream_round_trip) auto

text \<open>
  A partial final write is an error: whatever the bytes are, a file that is read without
  error is empty or ends with a complete line.
\<close>

theorem parse_file_no_partial_line:
  assumes "parse_file k maximum bs = Inr es"
  shows "bs = [] \<or> last bs = newline"
  using assms unfolding parse_file_def by (rule parse_stream_complete)

section \<open>Two records of one memory\<close>

text \<open>
  Concrete records for the closed instances below: an upsert of version 1 and a denial of
  version 2 of the same memory, with a codec that writes the record's number in four digits.
\<close>

definition demo_save :: entry where
  "demo_save = \<lparr>e_id = 1, e_ts = ((2026, 10, 9), 0), e_tenant = 7, e_space = 8, e_memory = 9,
     e_version = 1, e_writer = 5, e_action = Upsert, e_subject = None, e_important = False,
     e_text = Some ''tea'', e_kind = ''note'', e_metadata = []\<rparr>"

definition demo_forget :: entry where
  "demo_forget = demo_save\<lparr>e_id := 2, e_version := 2, e_action := Forget, e_text := None\<rparr>"

definition demo_codec :: codec where
  "demo_codec = \<lparr>kc_encode = (\<lambda>e. digits_of 10 4 (e_id e) @ [newline]),
     kc_decode = (\<lambda>l. if l = ''0001'' @ [newline] then Some demo_save
                      else if l = ''0002'' @ [newline] then Some demo_forget else None),
     kc_sha = (\<lambda>l. l), kc_metadata_size = (\<lambda>m. 2 + length m)\<rparr>"

lemma demo_encode: "kc_encode demo_codec demo_save = ''0001'' @ [newline]"
  "kc_encode demo_codec demo_forget = ''0002'' @ [newline]"
  by code_simp+

lemma demo_codec_ok: "codec_ok demo_codec demo_save" "codec_ok demo_codec demo_forget"
proof -
  have dec: "kc_decode demo_codec (''0001'' @ [newline]) = Some demo_save"
    "kc_decode demo_codec (''0002'' @ [newline]) = Some demo_forget"
    by (simp_all add: demo_codec_def)
  have nl: "newline \<notin> set ''0001''" "newline \<notin> set ''0002''"
    by (simp_all add: newline_def)
  show "codec_ok demo_codec demo_save" "codec_ok demo_codec demo_forget"
    unfolding codec_ok_def demo_encode using dec nl by blast+
qed

lemma demo_valid: "entry_valid demo_codec demo_save" "entry_valid demo_codec demo_forget"
  by (simp_all add: entry_valid_def demo_save_def demo_forget_def demo_codec_def payload_ok_def
      blank_def py_space_def no_nul_def MEMORY_KINDS_def)

lemma demo_line: "entry_line demo_codec demo_save = Inr (kc_encode demo_codec demo_save)"
  "entry_line demo_codec demo_forget = Inr (kc_encode demo_codec demo_forget)"
  by (simp_all add: entry_line_def demo_encode MAX_LINE_BYTES_def)

theorem parse_file_round_trip_witness:
  "parse_file demo_codec MAX_FILE_BYTES (''0001'' @ newline # ''0002'' @ [newline])
     = Inr [demo_save, demo_forget]"
  using parse_file_round_trip [of "[demo_save, demo_forget]" demo_codec MAX_FILE_BYTES]
    demo_codec_ok demo_valid demo_line
  by (simp add: demo_encode MAX_FILE_BYTES_def)

theorem parse_file_no_partial_line_witness:
  "last (''0001'' @ newline # ''0002'' @ [newline]) = newline
   \<and> (\<nexists>es. parse_file demo_codec MAX_FILE_BYTES (''0001'' @ newline # ''000'') = Inr es)"
proof -
  have "parse_file demo_codec MAX_FILE_BYTES (concat (map (kc_encode demo_codec) [demo_save, demo_forget]))
      = Inr [demo_save, demo_forget]"
    unfolding parse_file_def using demo_codec_ok demo_valid demo_line
    by (intro parse_stream_round_trip) (auto simp: demo_encode MAX_FILE_BYTES_def)
  from parse_file_no_partial_line [OF this]
  show ?thesis
    using parse_file_no_partial_line [of demo_codec MAX_FILE_BYTES "''0001'' @ newline # ''000''"]
    by (auto simp: demo_encode newline_def)
qed

end
