(* ===== verification/Journal_Index.thy ===== *)
theory Journal_Index
  imports Journal_Entry "HOL-Library.AList"
begin

text \<open>
  The bounded projection of a journal (\<open>journal/index.py\<close>): the four tables of the private
  index as association lists, \<open>JournalIndex.add\<close> with its limits and conflict checks, and the
  queries for current memories and denials. The lemmas characterise what the tables hold after
  any run of records, and show that neither the order nor the repetition of records matters.
\<close>

section \<open>The index\<close>

record latest_row =
  l_version :: nat
  l_denied :: bool
  l_action :: action
  l_line :: string

record jindex =
  ji_max_records :: nat
  ji_max_bytes :: nat
  ji_records :: nat
  ji_bytes :: nat
  ji_duplicates :: nat
  ji_observed_records :: nat
  ji_observed_bytes :: nat
  ji_seen :: "(uuid \<times> (digest \<times> (uuid \<times> uuid))) list"
  ji_locations :: "(uuid \<times> string option) list"
  ji_versions :: "((origin \<times> nat) \<times> digest) list"
  ji_latest :: "(origin \<times> latest_row) list"

definition ji_init :: "nat \<Rightarrow> nat \<Rightarrow> jindex" where
  "ji_init max_records max_bytes =
     \<lparr>ji_max_records = max_records, ji_max_bytes = max_bytes, ji_records = 0, ji_bytes = 0,
      ji_duplicates = 0, ji_observed_records = 0, ji_observed_bytes = 0,
      ji_seen = [], ji_locations = [], ji_versions = [], ji_latest = []\<rparr>"

text \<open>\<open>INSERT OR IGNORE\<close>, and the upsert of the newest row of an origin.\<close>

definition insert_or_ignore :: "'k \<Rightarrow> 'v \<Rightarrow> ('k \<times> 'v) list \<Rightarrow> ('k \<times> 'v) list" where
  "insert_or_ignore key value table =
     (case map_of table key of None \<Rightarrow> table @ [(key, value)] | Some old \<Rightarrow> table)"

definition merge_latest :: "latest_row \<Rightarrow> latest_row \<Rightarrow> latest_row" where
  "merge_latest old new =
     \<lparr>l_version = max (l_version old) (l_version new),
      l_denied = (l_denied old \<or> l_denied new),
      l_action = (if l_version new > l_version old then l_action new else l_action old),
      l_line = (if l_version new > l_version old then l_line new else l_line old)\<rparr>"

definition upsert_latest :: "origin \<Rightarrow> latest_row \<Rightarrow> (origin \<times> latest_row) list \<Rightarrow> (origin \<times> latest_row) list" where
  "upsert_latest key new table =
     AList.update key
       (case map_of table key of None \<Rightarrow> new | Some old \<Rightarrow> merge_latest old new) table"

definition ji_add :: "codec \<Rightarrow> jindex \<Rightarrow> entry \<times> string option \<Rightarrow> jindex res" where
  "ji_add k i arg = (case arg of (e, uri) \<Rightarrow>
     (case entry_line k e of
        Inl x \<Rightarrow> Inl x
      | Inr line \<Rightarrow>
         (let digest = kc_sha k line;
              i1 = i\<lparr>ji_observed_records := ji_observed_records i + 1,
                     ji_observed_bytes := ji_observed_bytes i + length line\<rparr>
          in if ji_observed_records i1 > ji_max_records i1 \<or> ji_observed_bytes i1 > ji_max_bytes i1
             then Inl (JournalError ''journal_inventory_limit'')
             else case map_of (ji_seen i1) (e_id e) of
               Some (old, ns) \<Rightarrow>
                 if old \<noteq> digest then Inl (JournalError ''journal_entry_conflict'')
                 else Inr (i1\<lparr>ji_duplicates := ji_duplicates i1 + 1\<rparr>)
             | None \<Rightarrow>
                 (let i2 = i1\<lparr>ji_records := ji_records i1 + 1, ji_bytes := ji_bytes i1 + length line\<rparr>;
                      key = (entry_origin e, e_version e);
                      conflict = (case map_of (ji_versions i2) key of
                                    None \<Rightarrow> False | Some old \<Rightarrow> old \<noteq> digest)
                  in if conflict then Inl (JournalError ''journal_version_conflict'')
                     else Inr (i2\<lparr>
                       ji_seen := ji_seen i2 @ [(e_id e, (digest, (e_tenant e, e_space e)))],
                       ji_locations := ji_locations i2 @ [(e_id e, uri)],
                       ji_versions := insert_or_ignore key digest (ji_versions i2),
                       ji_latest := upsert_latest (entry_origin e)
                         \<lparr>l_version = e_version e, l_denied = (e_action e = Forget),
                          l_action = e_action e, l_line = line\<rparr> (ji_latest i2)\<rparr>)))))"

section \<open>Queries\<close>

definition current_rows :: "jindex \<Rightarrow> (origin \<times> latest_row) list" where
  "current_rows i = sort_key fst
     (filter (\<lambda>(key, r). \<not> l_denied r \<and> l_action r = Upsert) (ji_latest i))"

definition ji_current :: "codec \<Rightarrow> jindex \<Rightarrow> entry res list" where
  "ji_current k i = map (\<lambda>(key, r). parse_line k (l_line r)) (current_rows i)"

definition ji_denials :: "jindex \<Rightarrow> origin list" where
  "ji_denials i = sort (map fst (filter (\<lambda>(key, r). l_denied r) (ji_latest i)))"

definition ji_location :: "jindex \<Rightarrow> entry \<Rightarrow> string option" where
  "ji_location i e = (case map_of (ji_locations i) (e_id e) of None \<Rightarrow> None | Some uri \<Rightarrow> uri)"

definition ji_inventory :: "jindex \<Rightarrow> uuid \<times> uuid \<Rightarrow> nat" where
  "ji_inventory i ns = length (filter (\<lambda>(u, d, n). n = ns) (ji_seen i))"

record index_report =
  ir_records :: nat
  ir_duplicates :: nat
  ir_bytes :: nat
  ir_active :: nat
  ir_forgotten :: nat

definition ji_describe :: "jindex \<Rightarrow> index_report" where
  "ji_describe i =
     \<lparr>ir_records = ji_records i, ir_duplicates = ji_duplicates i, ir_bytes = ji_bytes i,
      ir_active = length (filter (\<lambda>(key, r). \<not> l_denied r \<and> l_action r = Upsert) (ji_latest i)),
      ir_forgotten = length (filter (\<lambda>(key, r). l_denied r) (ji_latest i))\<rparr>"

definition ji_run :: "codec \<Rightarrow> jindex \<Rightarrow> (entry \<times> string option) list \<Rightarrow> jindex res" where
  "ji_run k = run_events (ji_add k)"

section \<open>The denial of an origin is permanent\<close>

fun_cases run_events_ConsE: "run_events step s (e # es) = Inr t"

lemma map_of_upsert_latest [simp]:
  "map_of (upsert_latest key new table) key' =
     (if key' = key then Some (case map_of table key of None \<Rightarrow> new | Some old \<Rightarrow> merge_latest old new)
      else map_of table key')"
  by (simp add: upsert_latest_def update_conv)

lemma map_of_insert_or_ignore [simp]:
  "map_of (insert_or_ignore key v table) key' =
     (case map_of table key' of Some w \<Rightarrow> Some w | None \<Rightarrow> if key' = key then Some v else None)"
  by (auto simp: insert_or_ignore_def map_add_def split: option.splits)

lemma map_of_append_one:
  "map_of (table @ [(key, v)]) key' =
     (case map_of table key' of Some w \<Rightarrow> Some w | None \<Rightarrow> if key' = key then Some v else None)"
  by (auto simp: map_add_def split: option.splits)

lemma merge_latest_simps [simp]:
  "l_denied (merge_latest a b) \<longleftrightarrow> l_denied a \<or> l_denied b"
  "l_version (merge_latest a b) = max (l_version a) (l_version b)"
  "l_action (merge_latest a b) = (if l_version b > l_version a then l_action b else l_action a)"
  "l_line (merge_latest a b) = (if l_version b > l_version a then l_line b else l_line a)"
  by (simp_all add: merge_latest_def)

definition denied_in :: "origin \<Rightarrow> jindex \<Rightarrow> bool" where
  "denied_in key i \<longleftrightarrow> (\<exists>r. map_of (ji_latest i) key = Some r \<and> l_denied r)"

definition distinct_latest :: "jindex \<Rightarrow> bool" where
  "distinct_latest i \<longleftrightarrow> distinct (map fst (ji_latest i))"

lemma ji_add_latest:
  assumes "ji_add k i (e, uri) = Inr j"
  shows "ji_latest j = ji_latest i \<or>
    (\<exists>line. ji_latest j = upsert_latest (entry_origin e)
       \<lparr>l_version = e_version e, l_denied = (e_action e = Forget), l_action = e_action e, l_line = line\<rparr>
       (ji_latest i))"
  using assms by (auto simp: ji_add_def Let_def split: sum.splits option.splits if_splits)

lemma ji_add_denied: "denied_in key i \<Longrightarrow> ji_add k i a = Inr j \<Longrightarrow> denied_in key j"
  by (cases a) (auto simp: denied_in_def dest!: ji_add_latest)

lemma ji_add_distinct: "distinct_latest i \<Longrightarrow> ji_add k i a = Inr j \<Longrightarrow> distinct_latest j"
  by (cases a) (auto simp: distinct_latest_def upsert_latest_def dest!: ji_add_latest intro: distinct_update)

interpretation denial: event_machine "ji_add k" "denied_in key" for k key
  by unfold_locales (rule ji_add_denied)

interpretation one_row: event_machine "ji_add k" distinct_latest for k
  by unfold_locales (rule ji_add_distinct)

lemma denied_not_current: "denied_in key i \<Longrightarrow> distinct_latest i \<Longrightarrow> key \<notin> fst ` set (current_rows i)"
  by (auto simp: denied_in_def distinct_latest_def current_rows_def dest: eq_key_imp_eq_value)

lemma denied_in_denials: "denied_in key i \<Longrightarrow> key \<in> set (ji_denials i)"
  by (force simp: denied_in_def ji_denials_def dest: map_of_SomeD)

lemma ji_add_forget: "ji_add k i (e, uri) = Inr j \<Longrightarrow> e_action e = Forget \<Longrightarrow>
    map_of (ji_seen i) (e_id e) = None \<Longrightarrow> denied_in (entry_origin e) j"
  by (auto simp: ji_add_def Let_def denied_in_def split: sum.splits option.splits if_splits)

section \<open>What the index holds\<close>

text \<open>
  The digest stands for the record: SHA-256 does not collide on the lines at hand, and the
  JSON library decodes what it encodes, so that equal digests mean equal records.
\<close>

definition faithful :: "codec \<Rightarrow> entry set \<Rightarrow> bool" where
  "faithful k E \<longleftrightarrow> (\<forall>e\<in>E. codec_ok k e) \<and> inj_on (kc_sha k) (kc_encode k ` E)"

definition line_digest :: "codec \<Rightarrow> entry \<Rightarrow> digest" where
  "line_digest k e = kc_sha k (kc_encode k e)"

lemma faithful_inj: "faithful k E \<Longrightarrow> e \<in> E \<Longrightarrow> f \<in> E \<Longrightarrow> line_digest k e = line_digest k f \<Longrightarrow> e = f"
  unfolding faithful_def line_digest_def codec_ok_def
  by (metis imageI inj_onD option.inject)

lemma faithful_subset: "faithful k E \<Longrightarrow> F \<subseteq> E \<Longrightarrow> faithful k F"
  unfolding faithful_def by (meson image_mono inj_on_subset subsetD)

text \<open>The records that can be indexed together, whatever their order.\<close>

definition line_size :: "codec \<Rightarrow> entry \<Rightarrow> nat" where
  "line_size k e = length (kc_encode k e)"

definition consistent :: "codec \<Rightarrow> nat \<Rightarrow> nat \<Rightarrow> entry list \<Rightarrow> bool" where
  "consistent k mr mb xs \<longleftrightarrow>
     (\<forall>e\<in>set xs. line_size k e \<le> MAX_LINE_BYTES)
   \<and> length xs \<le> mr \<and> sum_list (map (line_size k) xs) \<le> mb
   \<and> (\<forall>e\<in>set xs. \<forall>f\<in>set xs. e_id e = e_id f \<longrightarrow> e = f)
   \<and> (\<forall>e\<in>set xs. \<forall>f\<in>set xs. entry_origin e = entry_origin f \<and> e_version e = e_version f \<longrightarrow> e = f)"

text \<open>The newest row of an origin over a set of records: the specification of \<open>latest\<close>.\<close>

definition newest_row :: "codec \<Rightarrow> entry set \<Rightarrow> origin \<Rightarrow> latest_row \<Rightarrow> bool" where
  "newest_row k E key r \<longleftrightarrow>
     (\<exists>e\<in>E. entry_origin e = key \<and> l_version r = e_version e \<and> l_action r = e_action e
             \<and> l_line r = kc_encode k e)
   \<and> (\<forall>e\<in>E. entry_origin e = key \<longrightarrow> e_version e \<le> l_version r)
   \<and> (l_denied r \<longleftrightarrow> (\<exists>e\<in>E. entry_origin e = key \<and> e_action e = Forget))"

definition index_inv :: "codec \<Rightarrow> entry list \<Rightarrow> jindex \<Rightarrow> bool" where
  "index_inv k xs i \<longleftrightarrow>
     ji_observed_records i = length xs
   \<and> ji_observed_bytes i = sum_list (map (line_size k) xs)
   \<and> (\<forall>e\<in>set xs. \<exists>ns. map_of (ji_seen i) (e_id e) = Some (line_digest k e, ns))
   \<and> (\<forall>u p. map_of (ji_seen i) u = Some p \<longrightarrow> (\<exists>e\<in>set xs. e_id e = u))
   \<and> (\<forall>e\<in>set xs. map_of (ji_versions i) (entry_origin e, e_version e) = Some (line_digest k e))
   \<and> (\<forall>key v d. map_of (ji_versions i) (key, v) = Some d \<longrightarrow>
        (\<exists>e\<in>set xs. entry_origin e = key \<and> e_version e = v))
   \<and> (\<forall>key r. map_of (ji_latest i) key = Some r \<longrightarrow> newest_row k (set xs) key r)
   \<and> (\<forall>e\<in>set xs. map_of (ji_latest i) (entry_origin e) \<noteq> None)
   \<and> ji_records i = card (e_id ` set xs)
   \<and> ji_duplicates i + ji_records i = length xs
   \<and> distinct_latest i"

lemma index_inv_init: "index_inv k [] (ji_init mr mb)"
  by (simp add: index_inv_def ji_init_def distinct_latest_def)

lemma index_invD:
  assumes "index_inv k xs i"
  shows inv_count: "ji_observed_records i = length xs"
    and inv_bytes: "ji_observed_bytes i = sum_list (map (line_size k) xs)"
    and inv_seen: "e \<in> set xs \<Longrightarrow> \<exists>ns. map_of (ji_seen i) (e_id e) = Some (line_digest k e, ns)"
    and inv_seen_from: "map_of (ji_seen i) u = Some p \<Longrightarrow> \<exists>e\<in>set xs. e_id e = u"
    and inv_version: "e \<in> set xs \<Longrightarrow>
      map_of (ji_versions i) (entry_origin e, e_version e) = Some (line_digest k e)"
    and inv_version_from: "map_of (ji_versions i) (key, v) = Some d \<Longrightarrow>
      \<exists>e\<in>set xs. entry_origin e = key \<and> e_version e = v"
    and inv_row: "map_of (ji_latest i) key = Some r \<Longrightarrow> newest_row k (set xs) key r"
    and inv_row_some: "e \<in> set xs \<Longrightarrow> map_of (ji_latest i) (entry_origin e) \<noteq> None"
    and inv_records: "ji_records i = card (e_id ` set xs)"
    and inv_duplicates: "ji_duplicates i + ji_records i = length xs"
    and inv_distinct: "distinct_latest i"
  using assms unfolding index_inv_def by blast+

lemma entry_line_Inr: "entry_line k e = Inr l \<longleftrightarrow> l = kc_encode k e \<and> line_size k e \<le> MAX_LINE_BYTES"
  by (auto simp: entry_line_def line_size_def Let_def)

lemma newest_row_insert_other:
  "entry_origin e \<noteq> key \<Longrightarrow> newest_row k (insert e E) key r = newest_row k E key r"
  by (auto simp: newest_row_def)

lemma newest_row_single:
  "\<forall>f\<in>E. entry_origin f \<noteq> entry_origin e \<Longrightarrow>
   newest_row k (insert e E) (entry_origin e)
     \<lparr>l_version = e_version e, l_denied = (e_action e = Forget), l_action = e_action e,
      l_line = kc_encode k e\<rparr>"
  by (auto simp: newest_row_def)

lemma newest_row_merge:
  "newest_row k E (entry_origin e) r \<Longrightarrow>
   newest_row k (insert e E) (entry_origin e)
     (merge_latest r \<lparr>l_version = e_version e, l_denied = (e_action e = Forget),
        l_action = e_action e, l_line = kc_encode k e\<rparr>)"
  unfolding newest_row_def by (auto simp: max_def split: if_splits) (force+)?

lemma ji_add_cases:
  assumes "ji_add k i (e, uri) = Inr j"
  obtains
    (duplicate) ns where "line_size k e \<le> MAX_LINE_BYTES"
      "ji_observed_records i + 1 \<le> ji_max_records i"
      "ji_observed_bytes i + line_size k e \<le> ji_max_bytes i"
      "map_of (ji_seen i) (e_id e) = Some (line_digest k e, ns)"
      "j = i\<lparr>ji_observed_records := ji_observed_records i + 1,
             ji_observed_bytes := ji_observed_bytes i + line_size k e,
             ji_duplicates := ji_duplicates i + 1\<rparr>"
  | (fresh) "line_size k e \<le> MAX_LINE_BYTES"
      "ji_observed_records i + 1 \<le> ji_max_records i"
      "ji_observed_bytes i + line_size k e \<le> ji_max_bytes i"
      "map_of (ji_seen i) (e_id e) = None"
      "map_of (ji_versions i) (entry_origin e, e_version e) \<in> {None, Some (line_digest k e)}"
      "j = i\<lparr>ji_observed_records := ji_observed_records i + 1,
             ji_observed_bytes := ji_observed_bytes i + line_size k e,
             ji_records := ji_records i + 1, ji_bytes := ji_bytes i + line_size k e,
             ji_seen := ji_seen i @ [(e_id e, (line_digest k e, (e_tenant e, e_space e)))],
             ji_locations := ji_locations i @ [(e_id e, uri)],
             ji_versions := insert_or_ignore (entry_origin e, e_version e) (line_digest k e) (ji_versions i),
             ji_latest := upsert_latest (entry_origin e)
               \<lparr>l_version = e_version e, l_denied = (e_action e = Forget),
                l_action = e_action e, l_line = kc_encode k e\<rparr> (ji_latest i)\<rparr>"
  using assms
  by (auto simp: ji_add_def Let_def entry_line_Inr line_digest_def line_size_def
      split: sum.splits option.splits if_splits)

lemma ji_add_duplicate:
  assumes inv: "index_inv k xs i" and f: "faithful k (insert e (set xs))"
    and seen: "map_of (ji_seen i) (e_id e) = Some (line_digest k e, ns)"
  shows "e \<in> set xs"
proof -
  from inv_seen_from [OF inv seen] obtain g where g: "g \<in> set xs" "e_id g = e_id e" by blast
  from inv_seen [OF inv g(1)] seen g(2) have "line_digest k g = line_digest k e" by auto
  with g f have "g = e" by (auto intro: faithful_inj [OF f])
  with g show ?thesis by simp
qed

lemma fresh_id: "index_inv k xs i \<Longrightarrow> map_of (ji_seen i) u = None \<Longrightarrow> u \<notin> e_id ` set xs"
  by (metis imageE inv_seen option.distinct(1))

lemma index_inv_again:
  assumes inv: "index_inv k xs i" and e: "e \<in> set xs"
  shows "index_inv k (xs @ [e]) (i\<lparr>ji_observed_records := ji_observed_records i + 1,
           ji_observed_bytes := ji_observed_bytes i + line_size k e,
           ji_duplicates := ji_duplicates i + 1\<rparr>)"
proof -
  from e have "set (xs @ [e]) = set xs" by auto
  with inv show ?thesis
    unfolding index_inv_def distinct_latest_def by (simp del: split_paired_All split_paired_Ex not_None_eq)
qed

lemma ji_add_inv:
  assumes inv: "index_inv k xs i" and f: "faithful k (insert e (set xs))"
    and add: "ji_add k i (e, uri) = Inr j"
  shows "index_inv k (xs @ [e]) j"
  using add
proof (cases rule: ji_add_cases)
  case (duplicate ns)
  have "e \<in> set xs" by (rule ji_add_duplicate [OF inv f duplicate(4)])
  then show ?thesis unfolding duplicate(5) by (rule index_inv_again [OF inv])
next
  case fresh
  have new_id: "e_id e \<notin> e_id ` set xs" by (rule fresh_id [OF inv fresh(4)])
  have rows: "newest_row k (insert e (set xs)) key r"
    if "map_of (ji_latest j) key = Some r" for key r
  proof (cases "key = entry_origin e")
    case False
    with that have "map_of (ji_latest i) key = Some r" by (simp add: fresh)
    with False show ?thesis by (simp add: newest_row_insert_other inv_row [OF inv])
  next
    case True
    show ?thesis
    proof (cases "map_of (ji_latest i) key")
      case None
      with True have "\<forall>g\<in>set xs. entry_origin g \<noteq> entry_origin e" using inv_row_some [OF inv] by metis
      with that True None show ?thesis by (auto simp: fresh intro: newest_row_single)
    next
      case (Some old)
      with True have "newest_row k (set xs) (entry_origin e) old" using inv_row [OF inv] by simp
      with that True Some show ?thesis by (auto simp: fresh intro: newest_row_merge)
    qed
  qed
  have dist: "distinct_latest j" using inv_distinct [OF inv] add by (rule ji_add_distinct)
  show ?thesis
    unfolding index_inv_def
  proof (intro conjI)
    show "\<forall>g\<in>set (xs @ [e]). \<exists>ns. map_of (ji_seen j) (e_id g) = Some (line_digest k g, ns)"
    proof
      fix g assume "g \<in> set (xs @ [e])"
      then consider "g \<in> set xs" | "g = e" by auto
      then show "\<exists>ns. map_of (ji_seen j) (e_id g) = Some (line_digest k g, ns)"
      proof cases
        case 1
        then obtain ns where "map_of (ji_seen i) (e_id g) = Some (line_digest k g, ns)"
          using inv_seen [OF inv] by blast
        then show ?thesis by (simp add: fresh map_of_append_one)
      qed (simp add: fresh(4,6) map_add_def)
    qed
    show "\<forall>u p. map_of (ji_seen j) u = Some p \<longrightarrow> (\<exists>g\<in>set (xs @ [e]). e_id g = u)"
      using inv_seen_from [OF inv]
      by (fastforce simp: fresh(6) map_of_append_one split: option.splits if_splits)
    show "\<forall>g\<in>set (xs @ [e]). map_of (ji_versions j) (entry_origin g, e_version g) = Some (line_digest k g)"
      using inv_version [OF inv] fresh(5) by (auto simp: fresh(6) split: option.splits)
    show "\<forall>key v d. map_of (ji_versions j) (key, v) = Some d \<longrightarrow>
        (\<exists>g\<in>set (xs @ [e]). entry_origin g = key \<and> e_version g = v)"
    proof (intro allI impI)
      fix key v d assume "map_of (ji_versions j) (key, v) = Some d"
      then consider "map_of (ji_versions i) (key, v) = Some d" | "(key, v) = (entry_origin e, e_version e)"
        by (auto simp: fresh(6) simp del: split_paired_All split: option.splits if_splits)
      then show "\<exists>g\<in>set (xs @ [e]). entry_origin g = key \<and> e_version g = v"
        using inv_version_from [OF inv] by cases auto
    qed
    show "\<forall>key r. map_of (ji_latest j) key = Some r \<longrightarrow> newest_row k (set (xs @ [e])) key r"
      using rows by simp
    show "\<forall>g\<in>set (xs @ [e]). map_of (ji_latest j) (entry_origin g) \<noteq> None"
      using inv_row_some [OF inv] by (auto simp: fresh(6))
    show "ji_records j = card (e_id ` set (xs @ [e]))"
      using inv_records [OF inv] new_id by (simp add: fresh(6))
    show "distinct_latest j" by (rule dist)
  qed (use inv_count [OF inv] inv_bytes [OF inv] inv_duplicates [OF inv] in \<open>simp_all add: fresh(6)\<close>)
qed

lemma ji_add_limits: "ji_add k i a = Inr j \<Longrightarrow> ji_max_records j = ji_max_records i \<and> ji_max_bytes j = ji_max_bytes i"
  by (cases a) (auto elim: ji_add_cases)

lemma consistent_snoc:
  "consistent k mr mb (xs @ [e]) \<longleftrightarrow>
     consistent k mr mb xs \<and> line_size k e \<le> MAX_LINE_BYTES \<and> length xs + 1 \<le> mr
     \<and> sum_list (map (line_size k) xs) + line_size k e \<le> mb
     \<and> (\<forall>g\<in>set xs. e_id g = e_id e \<longrightarrow> g = e)
     \<and> (\<forall>g\<in>set xs. entry_origin g = entry_origin e \<and> e_version g = e_version e \<longrightarrow> g = e)"
  unfolding consistent_def by (rule iffI) auto

lemma ji_add_then_consistent:
  assumes inv: "index_inv k xs i" and f: "faithful k (insert e (set xs))"
    and c: "consistent k (ji_max_records i) (ji_max_bytes i) xs"
    and add: "ji_add k i (e, uri) = Inr j"
  shows "consistent k (ji_max_records i) (ji_max_bytes i) (xs @ [e])"
  using add
proof (cases rule: ji_add_cases)
  case (duplicate ns)
  have "e \<in> set xs" by (rule ji_add_duplicate [OF inv f duplicate(4)])
  with c duplicate(1-3) inv_count [OF inv] inv_bytes [OF inv] show ?thesis
    by (simp add: consistent_snoc) (simp add: consistent_def)
next
  case fresh
  have "\<forall>g\<in>set xs. e_id g \<noteq> e_id e" using fresh_id [OF inv fresh(4)] by (metis imageI)
  moreover have "g = e" if "g \<in> set xs" "entry_origin g = entry_origin e" "e_version g = e_version e" for g
  proof -
    have "map_of (ji_versions i) (entry_origin e, e_version e) = Some (line_digest k g)"
      using inv_version [OF inv that(1)] that by simp
    with fresh(5) have "line_digest k g = line_digest k e" by auto
    with that f show ?thesis by (auto intro: faithful_inj [OF f])
  qed
  ultimately show ?thesis
    using c fresh(1-3) inv_count [OF inv] inv_bytes [OF inv] by (simp add: consistent_snoc)
qed

lemma ji_add_if_consistent:
  assumes inv: "index_inv k xs i"
    and r: "consistent k (ji_max_records i) (ji_max_bytes i) (xs @ [e])"
  shows "\<exists>j. ji_add k i (e, uri) = Inr j"
proof -
  have line: "entry_line k e = Inr (kc_encode k e)"
    using r by (simp add: entry_line_Inr consistent_snoc)
  have limits: "\<not> (ji_observed_records i + 1 > ji_max_records i \<or>
      ji_observed_bytes i + length (kc_encode k e) > ji_max_bytes i)"
    using r inv_count [OF inv] inv_bytes [OF inv] by (simp add: consistent_snoc line_size_def)
  show ?thesis
  proof (cases "map_of (ji_seen i) (e_id e)")
    case (Some p)
    from inv_seen_from [OF inv Some] r have "e \<in> set xs" by (auto simp: consistent_snoc)
    with inv_seen [OF inv] Some have "fst p = line_digest k e" by fastforce
    with Some line limits show ?thesis
      by (cases p) (auto simp: ji_add_def Let_def line_digest_def)
  next
    case None
    have "map_of (ji_versions i) (entry_origin e, e_version e) = None"
    proof (rule ccontr)
      assume "map_of (ji_versions i) (entry_origin e, e_version e) \<noteq> None"
      then obtain g where "g \<in> set xs" "entry_origin g = entry_origin e" "e_version g = e_version e"
        using inv_version_from [OF inv] by blast
      with r have "e \<in> set xs" by (auto simp: consistent_snoc)
      with fresh_id [OF inv None] show False by blast
    qed
    with None line limits show ?thesis by (auto simp: ji_add_def Let_def)
  qed
qed

section \<open>Runs of records\<close>

lemma ji_run_snoc:
  "ji_run k i (ps @ [p]) = (case ji_run k i ps of Inl x \<Rightarrow> Inl x | Inr j \<Rightarrow> ji_add k j p)"
  by (auto simp: ji_run_def run_events_append split: sum.splits)

lemma ji_run_inv:
  "ji_run k (ji_init mr mb) ps = Inr i \<Longrightarrow> faithful k (fst ` set ps) \<Longrightarrow>
   index_inv k (map fst ps) i \<and> consistent k mr mb (map fst ps)
   \<and> ji_max_records i = mr \<and> ji_max_bytes i = mb"
proof (induction ps arbitrary: i rule: rev_induct)
  case Nil
  then have "i = ji_init mr mb" by (simp add: ji_run_def)
  then show ?case by (simp add: index_inv_init consistent_def) (simp add: ji_init_def)
next
  case (snoc p ps)
  obtain e uri where p: "p = (e, uri)" by (cases p)
  from snoc.prems(1) obtain j where j: "ji_run k (ji_init mr mb) ps = Inr j"
    and add: "ji_add k j (e, uri) = Inr i"
    by (auto simp: ji_run_snoc p split: sum.splits)
  have f: "faithful k (insert e (set (map fst ps)))" using snoc.prems(2) by (simp add: p)
  then have "faithful k (fst ` set ps)" by (rule faithful_subset) auto
  from snoc.IH [OF j this] have IH: "index_inv k (map fst ps) j" "consistent k mr mb (map fst ps)"
    "ji_max_records j = mr" "ji_max_bytes j = mb" by auto
  have "consistent k mr mb (map fst ps @ [e])"
    using ji_add_then_consistent [OF IH(1) f _ add] IH by simp
  with ji_add_inv [OF IH(1) f add] ji_add_limits [OF add] IH show ?case by (simp add: p)
qed

lemma consistent_front: "consistent k mr mb (xs @ ys) \<Longrightarrow> consistent k mr mb xs"
  by (auto simp: consistent_def)

lemma ji_run_defined:
  "consistent k mr mb (map fst ps) \<Longrightarrow> faithful k (fst ` set ps) \<Longrightarrow>
   \<exists>i. ji_run k (ji_init mr mb) ps = Inr i"
proof (induction ps rule: rev_induct)
  case Nil
  then show ?case by (simp add: ji_run_def)
next
  case (snoc p ps)
  obtain e uri where p: "p = (e, uri)" by (cases p)
  have f: "faithful k (fst ` set ps)" using snoc.prems(2) by (rule faithful_subset) auto
  have "consistent k mr mb (map fst ps)" using snoc.prems(1) by (auto intro: consistent_front)
  with snoc.IH f obtain j where j: "ji_run k (ji_init mr mb) ps = Inr j" by blast
  from ji_run_inv [OF j f] have inv: "index_inv k (map fst ps) j"
    "ji_max_records j = mr" "ji_max_bytes j = mb" by auto
  then have "\<exists>i. ji_add k j (e, uri) = Inr i"
    using snoc.prems(1) by (intro ji_add_if_consistent) (auto simp: p)
  with j show ?case by (simp add: ji_run_snoc p)
qed

lemma newest_row_unique:
  assumes c: "consistent k mr mb xs" and r: "newest_row k (set xs) key r" "newest_row k (set xs) key r'"
  shows "r = r'"
proof -
  from r obtain e e' where e: "e \<in> set xs" "entry_origin e = key" "l_version r = e_version e"
      "l_action r = e_action e" "l_line r = kc_encode k e"
    and e': "e' \<in> set xs" "entry_origin e' = key" "l_version r' = e_version e'"
      "l_action r' = e_action e'" "l_line r' = kc_encode k e'"
    unfolding newest_row_def by blast
  have "e_version e \<le> e_version e'" "e_version e' \<le> e_version e"
    using r e e' unfolding newest_row_def by metis+
  with c e e' have "e = e'" by (auto simp: consistent_def)
  moreover have "l_denied r = l_denied r'" using r unfolding newest_row_def by blast
  ultimately show ?thesis using e e' by (auto intro: latest_row.equality)
qed

lemma latest_is_newest:
  assumes inv: "index_inv k xs i" and c: "consistent k mr mb xs"
  shows "map_of (ji_latest i) key = Some r \<longleftrightarrow> newest_row k (set xs) key r"
proof
  assume "newest_row k (set xs) key r"
  then obtain e where "e \<in> set xs" "entry_origin e = key" by (auto simp: newest_row_def)
  with inv_row_some [OF inv] obtain r' where "map_of (ji_latest i) key = Some r'" by blast
  with inv_row [OF inv] newest_row_unique [OF c \<open>newest_row k (set xs) key r\<close>]
  show "map_of (ji_latest i) key = Some r" by blast
qed (rule inv_row [OF inv])

lemma in_current_rows:
  "distinct_latest i \<Longrightarrow> (key, r) \<in> set (current_rows i) \<longleftrightarrow>
     map_of (ji_latest i) key = Some r \<and> \<not> l_denied r \<and> l_action r = Upsert"
  by (auto simp: current_rows_def distinct_latest_def map_of_eq_Some_iff)

lemma in_denials:
  "distinct_latest i \<Longrightarrow> key \<in> set (ji_denials i) \<longleftrightarrow> denied_in key i"
  by (force simp: ji_denials_def denied_in_def distinct_latest_def map_of_eq_Some_iff)

lemma sort_key_fst_unique:
  assumes "distinct (map fst xs)" and "distinct (map fst ys)" and "set xs = set ys"
  shows "sort_key fst xs = sort_key fst ys"
  using assms
  by (intro map_sorted_distinct_set_unique [where f = fst])
     (auto simp: distinct_map sorted_sort_key inj_on_def)

lemma current_rows_cong:
  assumes "distinct_latest i" "distinct_latest j" "map_of (ji_latest i) = map_of (ji_latest j)"
  shows "current_rows i = current_rows j" and "ji_denials i = ji_denials j"
proof -
  have "set (ji_latest i) = set (ji_latest j)"
    using assms map_of_eq_Some_iff [of "ji_latest i"] map_of_eq_Some_iff [of "ji_latest j"]
    by (auto simp: distinct_latest_def)
  with assms show "current_rows i = current_rows j"
    unfolding current_rows_def distinct_latest_def
    by (intro sort_key_fst_unique) (auto intro: filter_drop_distinct_keys)
  have "sort (map fst (filter (\<lambda>(key, r). l_denied r) (ji_latest i))) =
        sort (map fst (filter (\<lambda>(key, r). l_denied r) (ji_latest j)))"
    using \<open>set (ji_latest i) = set (ji_latest j)\<close> assms
    by (intro sorted_distinct_set_unique)
       (auto simp: distinct_latest_def intro: filter_drop_distinct_keys)
  then show "ji_denials i = ji_denials j" by (simp add: ji_denials_def)
qed

text \<open>
  C21. The projection of a journal does not depend on the order in which its records are read,
  nor on how often a record is repeated: any other reading of the same records within the
  limits succeeds as well, and gives the same current memories, the same denials and the same
  number of records.
\<close>

theorem journal_order_independent:
  assumes run: "ji_run k (ji_init mr mb) ps = Inr i"
    and f: "faithful k (fst ` set ps)"
    and same: "fst ` set qs = fst ` set ps"
    and limits: "length qs \<le> mr" "sum_list (map (\<lambda>q. line_size k (fst q)) qs) \<le> mb"
  shows "\<exists>j. ji_run k (ji_init mr mb) qs = Inr j \<and> current_rows j = current_rows i
           \<and> ji_denials j = ji_denials i \<and> ji_records j = ji_records i"
proof -
  from ji_run_inv [OF run f] have inv: "index_inv k (map fst ps) i" and c: "consistent k mr mb (map fst ps)"
    by auto
  have c': "consistent k mr mb (map fst qs)"
    using c same limits by (simp add: consistent_def o_def)
  have f': "faithful k (fst ` set qs)" using f same by simp
  from ji_run_defined [OF c' f'] obtain j where j: "ji_run k (ji_init mr mb) qs = Inr j" ..
  from ji_run_inv [OF j f'] have inv': "index_inv k (map fst qs) j" by simp
  have "map_of (ji_latest j) key = map_of (ji_latest i) key" for key
    using latest_is_newest [OF inv c, of key] latest_is_newest [OF inv' c', of key] same
    by (metis list.set_map not_Some_eq)
  then have "map_of (ji_latest j) = map_of (ji_latest i)" by blast
  with current_rows_cong [OF inv_distinct [OF inv'] inv_distinct [OF inv]] j
    inv_records [OF inv] inv_records [OF inv'] same
  show ?thesis by (metis list.set_map)
qed

text \<open>
  C23. What a journal projects to: an origin is current with a row exactly when no record ever
  forgot it, its newest record is an upsert, and the row holds that newest record.
\<close>

theorem journal_current_rows:
  assumes run: "ji_run k (ji_init mr mb) ps = Inr i" and f: "faithful k (fst ` set ps)"
  shows "(key, r) \<in> set (current_rows i) \<longleftrightarrow>
           newest_row k (fst ` set ps) key r \<and> \<not> l_denied r \<and> l_action r = Upsert"
proof -
  from ji_run_inv [OF run f] have inv: "index_inv k (map fst ps) i" and c: "consistent k mr mb (map fst ps)"
    by auto
  show ?thesis
    using in_current_rows [OF inv_distinct [OF inv]] latest_is_newest [OF inv c] by simp
qed

text \<open>
  C22. A denial is permanent: once an origin is denied, no further records, whatever their
  versions and actions, take it out of the denials or make it current again.
\<close>

theorem journal_denial_permanent:
  assumes "distinct_latest i" and "key \<in> set (ji_denials i)" and "ji_run k i ps = Inr j"
  shows "key \<in> set (ji_denials j) \<and> key \<notin> fst ` set (current_rows j)"
proof -
  have d: "denied_in key i" using assms by (simp add: in_denials)
  have "denied_in key j" using denial.run_ok [OF d] assms(3) by (simp add: ji_run_def)
  moreover have "distinct_latest j" using one_row.run_ok [OF assms(1)] assms(3) by (simp add: ji_run_def)
  ultimately show ?thesis by (simp add: in_denials denied_not_current)
qed

section \<open>Closed instances\<close>

lemma demo_faithful: "faithful demo_codec {demo_save, demo_forget}"
  using demo_codec_ok by (simp add: faithful_def) (simp add: demo_codec_def)

lemma demo_consistent: "consistent demo_codec 10 100 [demo_save, demo_forget]"
  using demo_encode
  by (simp add: consistent_def line_size_def MAX_LINE_BYTES_def)
     (simp add: demo_save_def demo_forget_def)

lemma demo_run: "\<exists>i. ji_run demo_codec (ji_init 10 100) [(demo_save, None), (demo_forget, None)] = Inr i"
  using demo_consistent demo_faithful by (intro ji_run_defined) auto

theorem journal_order_independent_witness:
  "\<exists>i j. ji_run demo_codec (ji_init 10 100) [(demo_save, None), (demo_forget, None)] = Inr i
     \<and> ji_run demo_codec (ji_init 10 100) [(demo_forget, None), (demo_save, None), (demo_forget, None)] = Inr j
     \<and> current_rows j = current_rows i \<and> ji_denials j = ji_denials i"
proof -
  obtain i where i: "ji_run demo_codec (ji_init 10 100) [(demo_save, None), (demo_forget, None)] = Inr i"
    using demo_run by blast
  show ?thesis
    using journal_order_independent [OF i, of "[(demo_forget, None), (demo_save, None), (demo_forget, None)]"]
      i demo_faithful
    by (auto simp: line_size_def demo_encode insert_commute)
qed

theorem journal_current_rows_witness:
  "\<exists>i. ji_run demo_codec (ji_init 10 100) [(demo_save, None), (demo_forget, None)] = Inr i
     \<and> current_rows i = []"
proof -
  obtain i where i: "ji_run demo_codec (ji_init 10 100) [(demo_save, None), (demo_forget, None)] = Inr i"
    using demo_run by blast
  have none: "(key, r) \<notin> set (current_rows i)" for key r
    using journal_current_rows [OF i, of key r] demo_faithful
    by (auto simp: newest_row_def) (simp_all add: demo_save_def demo_forget_def entry_origin_def)
  then have "current_rows i = []" by (metis list.set_intros(1) neq_Nil_conv surj_pair)
  with i show ?thesis by blast
qed

theorem journal_denial_permanent_witness:
  "\<exists>i j. ji_run demo_codec (ji_init 10 100) [(demo_forget, None)] = Inr i
     \<and> ji_run demo_codec i [(demo_save, None)] = Inr j \<and> (7, 8, 9) \<in> set (ji_denials j)"
proof -
  obtain i where i: "ji_run demo_codec (ji_init 10 100) [(demo_forget, None)] = Inr i"
    and l: "\<exists>r. ji_latest i = [((7, 8, 9), r)] \<and> l_denied r"
    and more: "\<exists>j. ji_run demo_codec i [(demo_save, None)] = Inr j"
    by (simp add: ji_run_def ji_add_def Let_def ji_init_def entry_line_def demo_encode
        MAX_LINE_BYTES_def upsert_latest_def insert_or_ignore_def)
       (simp add: demo_save_def demo_forget_def entry_origin_def)
  from l have d: "distinct_latest i" "(7, 8, 9) \<in> set (ji_denials i)"
    by (auto simp: distinct_latest_def ji_denials_def)
  from more obtain j where j: "ji_run demo_codec i [(demo_save, None)] = Inr j" ..
  from journal_denial_permanent [OF d j] i j show ?thesis by blast
qed

end
