(* ===== verification/Journal_Rollover.thy ===== *)
theory Journal_Rollover
  imports Journal_Index "HOL-Library.Multiset"
begin

text \<open>
  Appending records to the daily files of a writer (\<open>journal/rollover.py\<close>): the inventory of
  the segments of one series, the content-free delivery index that recognises records already
  published, and \<open>append\<close> itself with its rollover to numbered continuations. Git is a
  parameter: the rows of \<open>ls-tree\<close> and the content of an object come in as arguments.
\<close>

definition MAX_SERIES_BYTES :: nat where
  "MAX_SERIES_BYTES = 2 * 1024 ^ 3"

definition MAX_SERIES_RECORDS :: nat where
  "MAX_SERIES_RECORDS = 1000000"

section \<open>Inventory\<close>

record segment =
  sg_path :: string
  sg_relative :: string
  sg_part :: nat
  sg_archived :: bool
  sg_oid :: string
  sg_size :: nat

text \<open>One row of \<open>git ls-tree -r -l -z\<close>, split at its tab and blanks.\<close>

record tree_row =
  tr_mode :: string
  tr_kind :: string
  tr_oid :: string
  tr_size :: string
  tr_path :: string

definition basename :: "string \<Rightarrow> string" where
  "basename path = last (split_on (CHR ''/'') path)"

definition oid_ok :: "string \<Rightarrow> bool" where
  "oid_ok v \<longleftrightarrow> (length v = 40 \<or> length v = 64) \<and> list_all (\<lambda>c. c \<in> set digit_chars) v"

definition read_size :: "string \<Rightarrow> nat option" where
  "read_size t = (if t = [] then None else read_digits 10 0 t)"

definition mismatch :: error where
  "mismatch = JournalError ''journal_record_path_mismatch''"

definition segment_of_row :: "string \<Rightarrow> day \<Rightarrow> uuid \<Rightarrow> tree_row \<Rightarrow> segment option res" where
  "segment_of_row pre d writer row =
     (let current = tr_path row; name = basename current in
      if name \<noteq> uuid_text writer @ ''.jsonl'' \<and> \<not> prefix (uuid_text writer @ ''.part-'') name
      then Inr None
      else
        (let archived = prefix (pre @ ''/_archive/'') current;
             candidate = drop (length pre + (if archived then 10 else 1)) current
         in case journal_path candidate of
              Inl x \<Rightarrow> Inl mismatch
            | Inr (day, w, part) \<Rightarrow>
                if day \<noteq> d \<or> w \<noteq> writer then Inl mismatch
                else (case read_size (tr_size row) of
                        None \<Rightarrow> Inl mismatch
                      | Some n \<Rightarrow>
                          if tr_mode row \<noteq> ''100644'' \<or> tr_kind row \<noteq> ''blob'' \<or> n > MAX_FILE_BYTES
                             \<or> \<not> oid_ok (tr_oid row)
                          then Inl mismatch
                          else Inr (Some \<lparr>sg_path = current, sg_relative = candidate,
                                 sg_part = part, sg_archived = archived,
                                 sg_oid = tr_oid row, sg_size = n\<rparr>))))"

fun collect_segments ::
  "string \<Rightarrow> day \<Rightarrow> uuid \<Rightarrow> tree_row list \<Rightarrow> segment list \<Rightarrow> nat \<Rightarrow> segment list res" where
  "collect_segments pre d writer [] result tot = Inr result"
| "collect_segments pre d writer (row # rows) result tot =
     (case segment_of_row pre d writer row of
        Inl x \<Rightarrow> Inl x
      | Inr None \<Rightarrow> collect_segments pre d writer rows result tot
      | Inr (Some sg) \<Rightarrow>
          (let result' = result @ [sg]; tot' = tot + sg_size sg in
           if length result' > MAX_SERIES_FILES * 2 \<or> tot' > MAX_SERIES_BYTES
           then Inl (JournalError ''journal_inventory_limit'')
           else collect_segments pre d writer rows result' tot'))"

text \<open>The parts present are exactly \<open>0..max\<close>: no continuation is missing.\<close>

definition complete_series :: "nat list \<Rightarrow> bool" where
  "complete_series parts \<longleftrightarrow> parts = [] \<or> set parts = {0..Max (set parts)}"

definition inventory :: "string \<Rightarrow> tree_row list option \<Rightarrow> string \<Rightarrow> nat \<Rightarrow> segment list res" where
  "inventory pre listing path catalog_version =
     (case listing of
        None \<Rightarrow> Inr []
      | Some rows \<Rightarrow>
         (case journal_path (drop (length pre + 1) path) of
            Inl x \<Rightarrow> Inl x
          | Inr (d, writer, part) \<Rightarrow>
             (case collect_segments pre d writer rows [] 0 of
                Inl x \<Rightarrow> Inl x
              | Inr result \<Rightarrow>
                 (let parts = map sg_part result in
                  if \<not> complete_series parts then Inl (JournalError ''journal_incomplete_series'')
                  else if list_ex (\<lambda>p. p \<noteq> 0) parts \<and> catalog_version < 2
                  then Inl (JournalError ''journal_catalog_layout_mismatch'')
                  else Inr (sort_key (\<lambda>sg. (sg_part sg, sg_archived sg)) result)))))"

section \<open>The delivery index\<close>

record event =
  ev_path :: string
  ev_id :: uuid
  ev_digest :: digest
  ev_origin :: origin
  ev_version :: nat

record dindex =
  di_files :: "(string \<times> (string \<times> nat)) list"
  di_events :: "event list"
  di_current :: "(string \<times> string) list"

definition di_select :: "dindex \<Rightarrow> segment list \<Rightarrow> dindex" where
  "di_select di segs = di\<lparr>di_current := map (\<lambda>sg. (sg_path sg, sg_oid sg)) segs\<rparr>"

definition di_known :: "dindex \<Rightarrow> segment \<Rightarrow> bool" where
  "di_known di sg \<longleftrightarrow> list_ex (\<lambda>(p, oid, n). p = sg_path sg \<and> oid = sg_oid sg) (di_files di)"

text \<open>A cached file counts only while the current tree holds it with the same object.\<close>

definition live_path :: "dindex \<Rightarrow> string \<Rightarrow> bool" where
  "live_path di path \<longleftrightarrow>
     (case map_of (di_files di) path of
        None \<Rightarrow> False
      | Some (oid, n) \<Rightarrow> map_of (di_current di) path = Some oid)"

definition di_rows :: "dindex \<Rightarrow> entry \<Rightarrow> event list" where
  "di_rows di e = filter (\<lambda>ev. live_path di (ev_path ev)
     \<and> (ev_id ev = e_id e \<or> (ev_origin ev = entry_origin e \<and> ev_version ev = e_version e)))
     (di_events di)"

definition di_check :: "dindex \<Rightarrow> entry \<Rightarrow> digest \<Rightarrow> bool res" where
  "di_check di e digest =
     (case find (\<lambda>ev. ev_digest ev \<noteq> digest) (di_rows di e) of
        Some ev \<Rightarrow> Inl (JournalError (if ev_id ev = e_id e then ''journal_entry_conflict''
                                      else ''journal_version_conflict''))
      | None \<Rightarrow> Inr (di_rows di e \<noteq> []))"

fun di_remember_entries ::
  "codec \<Rightarrow> uuid \<times> uuid \<Rightarrow> segment \<Rightarrow> entry list \<Rightarrow> nat \<Rightarrow> dindex \<Rightarrow> (dindex \<times> nat) res" where
  "di_remember_entries k scope sg [] n di = Inr (di, n)"
| "di_remember_entries k scope sg (e # es) n di =
     (if (e_tenant e, e_space e) \<noteq> scope then Inl (JournalError ''journal_scope_mismatch'')
      else case matches_path e (sg_relative sg) of
        Inl x \<Rightarrow> Inl x
      | Inr False \<Rightarrow> Inl mismatch
      | Inr True \<Rightarrow>
         (case entry_digest k e of
            Inl x \<Rightarrow> Inl x
          | Inr digest \<Rightarrow>
             (case di_check di e digest of
                Inl x \<Rightarrow> Inl x
              | Inr found \<Rightarrow>
                 (let ev = \<lparr>ev_path = sg_path sg, ev_id = e_id e, ev_digest = digest,
                            ev_origin = entry_origin e, ev_version = e_version e\<rparr>;
                      present = list_ex (\<lambda>o'. ev_path o' = sg_path sg \<and> ev_id o' = e_id e) (di_events di);
                      di' = (if present then di else di\<lparr>di_events := di_events di @ [ev]\<rparr>)
                  in di_remember_entries k scope sg es (n + 1) di'))))"

definition di_remember ::
  "codec \<Rightarrow> uuid \<times> uuid \<Rightarrow> segment \<Rightarrow> string \<Rightarrow> dindex \<Rightarrow> dindex res" where
  "di_remember k scope sg data di =
     (let di1 = di\<lparr>di_files := filter (\<lambda>(p, x). p \<noteq> sg_path sg) (di_files di) @ [(sg_path sg, (sg_oid sg, 0))],
                   di_events := filter (\<lambda>ev. ev_path ev \<noteq> sg_path sg) (di_events di)\<rparr>
      in case parse_file k MAX_FILE_BYTES data of
           Inl x \<Rightarrow> Inl x
         | Inr es \<Rightarrow>
             (case di_remember_entries k scope sg es 0 di1 of
                Inl x \<Rightarrow> Inl x
              | Inr (di2, n) \<Rightarrow>
                  Inr (di2\<lparr>di_files := AList.update (sg_path sg) (sg_oid sg, n) (di_files di2)\<rparr>)))"

definition di_bounded :: "dindex \<Rightarrow> nat \<Rightarrow> unit res" where
  "di_bounded di extra =
     (let held = sum_list (map (\<lambda>(p, oid, n). if map_of (di_current di) p = Some oid then n else 0)
                                (di_files di))
      in if held + extra > MAX_SERIES_RECORDS then Inl (JournalError ''journal_inventory_limit'')
         else Inr ())"

section \<open>Appending\<close>

text \<open>The unknown segments are read and remembered; the tail's content is kept.\<close>

fun load_segments ::
  "codec \<Rightarrow> uuid \<times> uuid \<Rightarrow> (string \<Rightarrow> string res) \<Rightarrow> segment option \<Rightarrow> segment list
   \<Rightarrow> nat \<Rightarrow> string option \<Rightarrow> dindex \<Rightarrow> (nat \<times> string option \<times> dindex) res" where
  "load_segments k scope blob tail [] read tail_data di = Inr (read, tail_data, di)"
| "load_segments k scope blob tail (sg # sgs) read tail_data di =
     (if di_known di sg then load_segments k scope blob tail sgs read tail_data di
      else case blob (sg_oid sg) of
        Inl x \<Rightarrow> Inl x
      | Inr data \<Rightarrow>
         (if length data \<noteq> sg_size sg then Inl (JournalError ''invalid_journal_git_object'')
          else case di_remember k scope sg data di of
                 Inl x \<Rightarrow> Inl x
               | Inr di' \<Rightarrow>
                   load_segments k scope blob tail sgs (read + length data)
                     (if Some sg = tail then Some data else tail_data) di'))"

text \<open>The additions that are new, in order of time and identifier.\<close>

fun select_new ::
  "codec \<Rightarrow> dindex \<Rightarrow> entry list \<Rightarrow> (uuid \<times> digest) list \<Rightarrow> ((origin \<times> nat) \<times> digest) list
   \<Rightarrow> entry list \<Rightarrow> entry list res" where
  "select_new k di [] seen versions new = Inr new"
| "select_new k di (e # es) seen versions new =
     (case entry_digest k e of
        Inl x \<Rightarrow> Inl x
      | Inr digest \<Rightarrow>
         (let key = (entry_origin e, e_version e) in
          case map_of seen (e_id e) of
            Some old \<Rightarrow>
              if old \<noteq> digest then Inl (JournalError ''journal_entry_conflict'')
              else select_new k di es seen versions new
          | None \<Rightarrow>
              if (case map_of versions key of None \<Rightarrow> False | Some old \<Rightarrow> old \<noteq> digest)
              then Inl (JournalError ''journal_version_conflict'')
              else (case di_check di e digest of
                      Inl x \<Rightarrow> Inl x
                    | Inr found \<Rightarrow>
                        select_new k di es ((e_id e, digest) # seen) ((key, digest) # versions)
                          (if found then new else new @ [e]))))"

record fill =
  f_target :: string
  f_part :: nat
  f_data :: string
  f_dirty :: bool
  f_updates :: "(string \<times> string) list"
  f_written :: nat
  f_rollovers :: nat

definition dirname :: "string \<Rightarrow> string" where
  "dirname path = rev (drop 1 (dropWhile (\<lambda>c. c \<noteq> CHR ''/'') (rev path)))"

definition fill_flush :: "fill \<Rightarrow> fill" where
  "fill_flush f = (if f_dirty f
     then f\<lparr>f_updates := f_updates f @ [(f_target f, f_data f)], f_written := f_written f + length (f_data f)\<rparr>
     else f)"

definition fill_roll :: "string \<Rightarrow> entry \<Rightarrow> fill \<Rightarrow> fill res" where
  "fill_roll base e f =
     (let f1 = fill_flush f; part = f_part f + 1 in
      if part \<ge> MAX_SERIES_FILES then Inl (JournalError ''journal_inventory_limit'')
      else Inr (f1\<lparr>f_part := part, f_data := [], f_dirty := False,
             f_target := dirname base @ ''/'' @ uuid_text (e_writer e) @ ''.part-'' @ digits_of 10 6 part @ ''.jsonl'',
             f_rollovers := f_rollovers f1 + 1\<rparr>))"

definition fill_step :: "codec \<Rightarrow> string \<Rightarrow> fill \<Rightarrow> entry \<Rightarrow> fill res" where
  "fill_step k base f e =
     (case entry_line k e of
        Inl x \<Rightarrow> Inl x
      | Inr line \<Rightarrow>
         (if length line > MAX_FILE_BYTES then Inl (JournalError ''journal_file_too_large'')
          else case (if length (f_data f) + length line > MAX_FILE_BYTES
                     then fill_roll base e f else Inr f) of
                 Inl x \<Rightarrow> Inl x
               | Inr f1 \<Rightarrow> Inr (f1\<lparr>f_data := f_data f1 @ line, f_dirty := True\<rparr>)))"

definition fill_all :: "codec \<Rightarrow> string \<Rightarrow> fill \<Rightarrow> entry list \<Rightarrow> fill res" where
  "fill_all k base f es =
     (case run_events (fill_step k base) f es of Inl x \<Rightarrow> Inl x | Inr g \<Rightarrow> Inr (fill_flush g))"

record append_report =
  ar_updates :: "(string \<times> string) list"
  ar_added :: nat
  ar_read :: nat
  ar_written :: nat
  ar_rollovers :: nat

definition journal_append ::
  "codec \<Rightarrow> uuid \<times> uuid \<Rightarrow> string \<Rightarrow> tree_row list option \<Rightarrow> (string \<Rightarrow> string res) \<Rightarrow> nat
   \<Rightarrow> string \<Rightarrow> entry list \<Rightarrow> dindex \<Rightarrow> (append_report \<times> dindex) res" where
  "journal_append k scope pre listing blob catalog_version path additions di =
     (case inventory pre listing path catalog_version of
        Inl x \<Rightarrow> Inl x
      | Inr segments \<Rightarrow>
     (let tail = (if segments = [] then None else Some (last segments)) in
      case load_segments k scope blob tail segments 0 None (di_select di segments) of
        Inl x \<Rightarrow> Inl x
      | Inr (read, tail_data, di1) \<Rightarrow>
     (case di_bounded di1 0 of Inl x \<Rightarrow> Inl x | Inr _ \<Rightarrow>
     (case select_new k di1 (sort_key (\<lambda>e. (e_ts e, e_id e)) additions) [] [] [] of
        Inl x \<Rightarrow> Inl x
      | Inr new \<Rightarrow>
      if new = [] then
        Inr (\<lparr>ar_updates = [], ar_added = 0, ar_read = read, ar_written = 0, ar_rollovers = 0\<rparr>, di1)
      else
     (case di_bounded di1 (length new) of Inl x \<Rightarrow> Inl x | Inr _ \<Rightarrow>
      if sum_list (map sg_size segments) + sum_list (map (line_size k) new) > MAX_SERIES_BYTES
      then Inl (JournalError ''journal_inventory_limit'')
      else
     (case (case (tail, tail_data) of
              (Some sg, None) \<Rightarrow>
                (case blob (sg_oid sg) of
                   Inl x \<Rightarrow> Inl x
                 | Inr d \<Rightarrow> if length d \<noteq> sg_size sg then Inl (JournalError ''invalid_journal_git_object'')
                            else Inr (d, read + length d))
            | (_, Some d) \<Rightarrow> Inr (d, read)
            | (None, None) \<Rightarrow> Inr ([], read)) of
        Inl x \<Rightarrow> Inl x
      | Inr (data, read') \<Rightarrow>
     (let base = (case tail of None \<Rightarrow> path | Some sg \<Rightarrow> sg_path sg);
          start = \<lparr>f_target = base, f_part = (case tail of None \<Rightarrow> 0 | Some sg \<Rightarrow> sg_part sg),
                   f_data = data, f_dirty = False, f_updates = [], f_written = 0, f_rollovers = 0\<rparr>
      in case fill_all k base start new of
           Inl x \<Rightarrow> Inl x
         | Inr f \<Rightarrow>
             Inr (\<lparr>ar_updates = f_updates f, ar_added = length new, ar_read = read',
                    ar_written = f_written f, ar_rollovers = f_rollovers f\<rparr>, di1))))))))"

section \<open>What an append writes\<close>

definition lines_of :: "codec \<Rightarrow> entry list \<Rightarrow> string" where
  "lines_of k es = concat (map (kc_encode k) es)"

lemma lines_of_simps [simp]:
  "lines_of k [] = []" "lines_of k (es @ fs) = lines_of k es @ lines_of k fs"
  "lines_of k (e # es) = kc_encode k e @ lines_of k es"
  by (simp_all add: lines_of_def)

text \<open>
  The files written for the records \<open>es\<close> of writer \<open>w\<close> when the tail \<open>base\<close>, part \<open>p0\<close>, holds
  \<open>d0\<close>: the tail is rewritten as its old content followed by the first records, if any of them
  still fit, and the numbered continuations hold the next records. No file is above the limit.
\<close>

definition cont_path :: "string \<Rightarrow> uuid \<Rightarrow> nat \<Rightarrow> string" where
  "cont_path base w n = dirname base @ ''/'' @ uuid_text w @ ''.part-'' @ digits_of 10 6 n @ ''.jsonl''"

definition written_as ::
  "codec \<Rightarrow> string \<Rightarrow> uuid \<Rightarrow> string \<Rightarrow> nat \<Rightarrow> entry list \<Rightarrow> nat \<Rightarrow> (string \<times> string) list \<Rightarrow> bool" where
  "written_as k base w d0 p0 es rolls ups \<longleftrightarrow>
     (\<exists>ls rs parts. es = ls @ rs
        \<and> ups = (if ls = [] then [] else [(base, d0 @ lines_of k ls)]) @ parts
        \<and> concat (map snd parts) = lines_of k rs
        \<and> map fst parts = map (cont_path base w) [p0 + 1..<p0 + 1 + rolls]
        \<and> (\<forall>(p, c)\<in>set ups. length c \<le> MAX_FILE_BYTES))"

definition fill_inv :: "codec \<Rightarrow> string \<Rightarrow> uuid \<Rightarrow> string \<Rightarrow> nat \<Rightarrow> entry list \<Rightarrow> fill \<Rightarrow> bool" where
  "fill_inv k base w d0 p0 es f \<longleftrightarrow>
     length (f_data f) \<le> MAX_FILE_BYTES \<and> f_part f = p0 + f_rollovers f
   \<and> f_written f = sum_list (map (length \<circ> snd) (f_updates f))
   \<and> (f_dirty f \<longleftrightarrow> es \<noteq> [])
   \<and> (if f_rollovers f = 0
      then f_updates f = [] \<and> f_target f = base \<and> f_data f = d0 @ lines_of k es
      else \<exists>ds cs. es = ds @ cs \<and> cs \<noteq> [] \<and> f_data f = lines_of k cs
             \<and> f_target f = cont_path base w (f_part f) \<and> f_part f < MAX_SERIES_FILES
             \<and> written_as k base w d0 p0 ds (f_rollovers f - 1) (f_updates f))"

lemma fill_inv_rolled:
  assumes "fill_inv k base w d0 p0 es f" and "f_rollovers f \<noteq> 0"
  obtains ds cs where "es = ds @ cs" "f_data f = lines_of k cs"
    "f_target f = cont_path base w (f_part f)" "f_part f < MAX_SERIES_FILES"
    "written_as k base w d0 p0 ds (f_rollovers f - 1) (f_updates f)"
proof -
  from assms(1) have "\<exists>ds cs. es = ds @ cs \<and> cs \<noteq> [] \<and> f_data f = lines_of k cs
      \<and> f_target f = cont_path base w (f_part f) \<and> f_part f < MAX_SERIES_FILES
      \<and> written_as k base w d0 p0 ds (f_rollovers f - 1) (f_updates f)"
    unfolding fill_inv_def if_not_P [OF assms(2)] by blast
  then show ?thesis using that by blast
qed

lemma fill_flush_simps [simp]:
  "f_rollovers (fill_flush f) = f_rollovers f" "f_part (fill_flush f) = f_part f"
  "f_written f = sum_list (map (length \<circ> snd) (f_updates f)) \<Longrightarrow>
   f_written (fill_flush f) = sum_list (map (length \<circ> snd) (f_updates (fill_flush f)))"
  by (simp_all add: fill_flush_def)

lemma fill_flush_written:
  assumes inv: "fill_inv k base w d0 p0 es f"
  shows "written_as k base w d0 p0 es (f_rollovers f) (f_updates (fill_flush f))"
proof (cases "es = []")
  case True
  with inv have "\<not> f_dirty f" by (simp add: fill_inv_def)
  with True inv show ?thesis
    by (auto simp: fill_inv_def fill_flush_def written_as_def split: if_splits)
next
  case False
  with inv have dirty: "f_dirty f" by (simp add: fill_inv_def)
  show ?thesis
  proof (cases "f_rollovers f = 0")
    case True
    with inv dirty False show ?thesis
      unfolding written_as_def
      by (intro exI [of _ es] exI [of _ "[]"]) (auto simp: fill_inv_def fill_flush_def)
  next
    case rolled: False
    from fill_inv_rolled [OF inv rolled] obtain ds cs where es: "es = ds @ cs" and data: "f_data f = lines_of k cs"
      and target: "f_target f = cont_path base w (f_part f)"
      and w: "written_as k base w d0 p0 ds (f_rollovers f - 1) (f_updates f)"
      by blast
    from w obtain ls rs parts where parts: "ds = ls @ rs"
      "f_updates f = (if ls = [] then [] else [(base, d0 @ lines_of k ls)]) @ parts"
      "concat (map snd parts) = lines_of k rs"
      "map fst parts = map (cont_path base w) [p0 + 1..<p0 + 1 + (f_rollovers f - 1)]"
      "\<forall>(p, c)\<in>set (f_updates f). length c \<le> MAX_FILE_BYTES"
      unfolding written_as_def by blast
    have part: "f_part f = p0 + f_rollovers f" and len: "length (f_data f) \<le> MAX_FILE_BYTES"
      using inv by (simp_all add: fill_inv_def)
    have range: "[p0 + 1..<p0 + 1 + f_rollovers f] = [p0 + 1..<p0 + 1 + (f_rollovers f - 1)] @ [f_part f]"
      using rolled part upt_Suc_append [of "p0 + 1" "p0 + f_rollovers f"] by simp
    have ups: "f_updates (fill_flush f) = f_updates f @ [(f_target f, f_data f)]"
      using dirty by (simp add: fill_flush_def)
    show ?thesis
      unfolding written_as_def
    proof (intro conjI exI)
      show "es = ls @ (rs @ cs)" using es parts by simp
      show "f_updates (fill_flush f) = (if ls = [] then [] else [(base, d0 @ lines_of k ls)])
              @ (parts @ [(f_target f, f_data f)])" using ups parts by simp
      show "concat (map snd (parts @ [(f_target f, f_data f)])) = lines_of k (rs @ cs)"
        using parts data by simp
      show "map fst (parts @ [(f_target f, f_data f)]) = map (cont_path base w) [p0 + 1..<p0 + 1 + f_rollovers f]"
        unfolding range using parts target by simp
      show "\<forall>(p, c)\<in>set (f_updates (fill_flush f)). length c \<le> MAX_FILE_BYTES"
        using parts(5) len ups by auto
    qed
  qed
qed

lemma fill_roll_inv:
  assumes inv: "fill_inv k base w d0 p0 es f" and roll: "fill_roll base e f = Inr g" and w: "e_writer e = w"
  shows "f_data g = []" "f_part g = p0 + f_rollovers g" "f_part g < MAX_SERIES_FILES"
    "f_rollovers g = f_rollovers f + 1" "f_target g = cont_path base w (f_part g)"
    "f_written g = sum_list (map (length \<circ> snd) (f_updates g))"
    "written_as k base w d0 p0 es (f_rollovers f) (f_updates g)"
proof -
  from roll have g: "g = (fill_flush f)\<lparr>f_part := f_part f + 1, f_data := [], f_dirty := False,
      f_target := cont_path base w (f_part f + 1), f_rollovers := f_rollovers f + 1\<rparr>"
    and p: "f_part f + 1 < MAX_SERIES_FILES"
    using w by (auto simp: fill_roll_def Let_def cont_path_def split: if_splits)
  show "f_data g = []" "f_part g = p0 + f_rollovers g" "f_part g < MAX_SERIES_FILES"
    "f_rollovers g = f_rollovers f + 1" "f_target g = cont_path base w (f_part g)"
    using g p inv by (simp_all add: fill_inv_def)
  show "f_written g = sum_list (map (length \<circ> snd) (f_updates g))"
    using g inv fill_flush_simps(3) [of f] by (simp add: fill_inv_def)
  show "written_as k base w d0 p0 es (f_rollovers f) (f_updates g)"
    using g fill_flush_written [OF inv] by simp
qed

lemma fill_step_inv:
  assumes inv: "fill_inv k base w d0 p0 es f" and step: "fill_step k base f e = Inr g" and w: "e_writer e = w"
  shows "fill_inv k base w d0 p0 (es @ [e]) g"
proof -
  from step have size: "length (kc_encode k e) \<le> MAX_FILE_BYTES"
    by (auto simp: fill_step_def entry_line_Inr split: sum.splits if_splits)
  show ?thesis
  proof (cases "length (f_data f) + length (kc_encode k e) > MAX_FILE_BYTES")
    case True
    with step obtain h where h: "fill_roll base e f = Inr h"
      and g: "g = h\<lparr>f_data := f_data h @ kc_encode k e, f_dirty := True\<rparr>"
      by (auto simp: fill_step_def entry_line_Inr split: sum.splits if_splits)
    note r = fill_roll_inv [OF inv h w]
    have "\<exists>ds cs. es @ [e] = ds @ cs \<and> cs \<noteq> [] \<and> f_data g = lines_of k cs
        \<and> f_target g = cont_path base w (f_part g) \<and> f_part g < MAX_SERIES_FILES
        \<and> written_as k base w d0 p0 ds (f_rollovers g - 1) (f_updates g)"
      using r by (intro exI [of _ es] exI [of _ "[e]"]) (simp add: g)
    then show ?thesis using r size unfolding fill_inv_def by (simp add: g)
  next
    case False
    with step have g: "g = f\<lparr>f_data := f_data f @ kc_encode k e, f_dirty := True\<rparr>"
      by (auto simp: fill_step_def entry_line_Inr split: sum.splits if_splits)
    show ?thesis
    proof (cases "f_rollovers f = 0")
      case True
      with inv False show ?thesis by (auto simp: fill_inv_def g)
    next
      case rolled: False
      from fill_inv_rolled [OF inv rolled] obtain ds cs where "es = ds @ cs" "f_data f = lines_of k cs"
        "f_target f = cont_path base w (f_part f)" "f_part f < MAX_SERIES_FILES"
        "written_as k base w d0 p0 ds (f_rollovers f - 1) (f_updates f)"
        by blast
      then have "\<exists>ds cs. es @ [e] = ds @ cs \<and> cs \<noteq> [] \<and> f_data g = lines_of k cs
        \<and> f_target g = cont_path base w (f_part g) \<and> f_part g < MAX_SERIES_FILES
        \<and> written_as k base w d0 p0 ds (f_rollovers g - 1) (f_updates g)"
        by (intro exI [of _ ds] exI [of _ "cs @ [e]"]) (simp add: g)
      then show ?thesis using inv False rolled unfolding fill_inv_def by (simp add: g)
    qed
  qed
qed

lemma fill_all_written:
  assumes run: "fill_all k base f es = Inr g" and d0: "length d0 \<le> MAX_FILE_BYTES"
    and writer: "\<forall>e\<in>set es. e_writer e = w"
    and start: "f_target f = base" "f_part f = p0" "f_data f = d0" "\<not> f_dirty f"
      "f_updates f = []" "f_written f = 0" "f_rollovers f = 0"
  shows "written_as k base w d0 p0 es (f_rollovers g) (f_updates g)
    \<and> f_written g = sum_list (map (length \<circ> snd) (f_updates g))"
proof -
  from run obtain h where h: "run_events (fill_step k base) f es = Inr h" and g: "g = fill_flush h"
    by (auto simp: fill_all_def split: sum.splits)
  have "fill_inv k base w d0 p0 [] f" using start d0 by (simp add: fill_inv_def)
  then have "(\<forall>e\<in>set []. e_writer e = w) \<longrightarrow> fill_inv k base w d0 p0 [] f" by simp
  from run_events_history [where I = "\<lambda>es f. (\<forall>e\<in>set es. e_writer e = w) \<longrightarrow> fill_inv k base w d0 p0 es f",
      OF _ this h] writer
  have inv: "fill_inv k base w d0 p0 es h" by (auto dest: fill_step_inv)
  show ?thesis using fill_flush_written [OF inv] inv by (simp add: g fill_inv_def)
qed

section \<open>What an append selects\<close>

lemma entry_digest_Inr: "entry_digest k e = Inr d \<longleftrightarrow> d = line_digest k e \<and> line_size k e \<le> MAX_LINE_BYTES"
  by (auto simp: entry_digest_def entry_line_def line_digest_def line_size_def Let_def)

lemma di_check_Inr: "di_check di e d = Inr b \<longleftrightarrow>
    b = (di_rows di e \<noteq> []) \<and> (\<forall>ev\<in>set (di_rows di e). ev_digest ev = d)"
  by (auto simp: di_check_def find_None_iff find_Some_iff split: option.splits)

definition published :: "dindex \<Rightarrow> entry \<Rightarrow> bool" where
  "published di e \<longleftrightarrow> di_rows di e \<noteq> []"

lemma select_new_result:
  assumes "select_new k di es seen vs new = Inr r"
  shows "\<exists>added. r = new @ added
     \<and> subseq added es \<and> (\<forall>e\<in>set added. \<not> published di e \<and> e_id e \<notin> fst ` set seen)
     \<and> distinct (map e_id added)
     \<and> (\<forall>e\<in>set es. e_id e \<in> fst ` set seen \<or> published di e
          \<or> (\<exists>a\<in>set added. e_id a = e_id e) \<or> (\<exists>f\<in>set es. e_id f = e_id e \<and> published di f))"
  using assms
proof (induction k di es seen vs new rule: select_new.induct)
  case (1 k di seen vs new)
  then show ?case by simp
next
  case (2 k di e es seen vs new)
  from 2(3) obtain d where d: "entry_digest k e = Inr d" by (auto split: sum.splits)
  show ?case
  proof (cases "map_of seen (e_id e)")
    case (Some old)
    with 2(3) d have eq: "old = d" and rec: "select_new k di es seen vs new = Inr r"
      by (auto split: if_splits)
    have "e_id e \<in> fst ` set seen" using Some by (force dest: map_of_SomeD)
    with 2(2) [OF d refl Some _ rec] eq show ?thesis
      by (auto intro: subseq_Cons')
  next
    case None
    with 2(3) d obtain found where nv: "\<not> (case map_of vs (entry_origin e, e_version e) of None \<Rightarrow> False | Some old \<Rightarrow> old \<noteq> d)"
      and c: "di_check di e d = Inr found"
      and rec: "select_new k di es ((e_id e, d) # seen) (((entry_origin e, e_version e), d) # vs)
             (if found then new else new @ [e]) = Inr r"
      by (auto simp: Let_def split: if_splits sum.splits)
    from 2(1) [OF d refl None nv c rec] obtain added where
      added: "r = (if found then new else new @ [e]) @ added" "subseq added es"
        "\<forall>x\<in>set added. \<not> published di x \<and> e_id x \<notin> fst ` set ((e_id e, d) # seen)"
        "distinct (map e_id added)"
        "\<forall>x\<in>set es. e_id x \<in> fst ` set ((e_id e, d) # seen) \<or> published di x
           \<or> (\<exists>a\<in>set added. e_id a = e_id x) \<or> (\<exists>f\<in>set es. e_id f = e_id x \<and> published di f)"
      by blast
    have ne: "e_id e \<notin> fst ` set seen" using None by (simp add: map_of_eq_None_iff)
    have f: "found = published di e" using c by (simp add: di_check_Inr published_def)
    show ?thesis
    proof (cases found)
      case True
      with added f show ?thesis by (intro exI [of _ added]) (auto intro: subseq_Cons')
    next
      case False
      have 1: "r = new @ (e # added)" "subseq (e # added) (e # es)" using added False by auto
      have 2: "\<forall>x\<in>set (e # added). \<not> published di x \<and> e_id x \<notin> fst ` set seen" "distinct (map e_id (e # added))"
        using added False f ne by auto
      show ?thesis using added(5) 1 2 by (intro exI [of _ "e # added"]) auto
    qed
  qed
qed

section \<open>What the inventory holds\<close>

definition segments_of :: "string \<Rightarrow> day \<Rightarrow> uuid \<Rightarrow> tree_row list \<Rightarrow> segment list" where
  "segments_of pre d w rows = List.map_filter
     (\<lambda>row. case segment_of_row pre d w row of Inl x \<Rightarrow> None | Inr sg \<Rightarrow> sg) rows"

lemma segment_of_row_ok:
  "segment_of_row pre d w row = Inr (Some sg) \<Longrightarrow>
     sg_size sg \<le> MAX_FILE_BYTES \<and> journal_path (sg_relative sg) = Inr (d, w, sg_part sg)
     \<and> sg_path sg = tr_path row \<and> tr_mode row = ''100644''"
  by (auto simp: segment_of_row_def Let_def split: if_splits sum.splits option.splits prod.splits)

lemma collect_segments_result:
  "collect_segments pre d w rows res tot = Inr r \<Longrightarrow> length res \<le> MAX_SERIES_FILES * 2 \<Longrightarrow>
     tot \<le> MAX_SERIES_BYTES \<Longrightarrow> tot = sum_list (map sg_size res) \<Longrightarrow>
     r = res @ segments_of pre d w rows \<and> length r \<le> MAX_SERIES_FILES * 2
     \<and> sum_list (map sg_size r) \<le> MAX_SERIES_BYTES"
proof (induction pre d w rows res tot rule: collect_segments.induct)
  case (1 pre d w result tot)
  then show ?case by (simp add: segments_of_def map_filter_simps)
next
  case (2 pre d w row rows result tot)
  then show ?case
    by (auto simp: segments_of_def map_filter_simps Let_def split: sum.splits option.splits if_splits)
qed

lemma segments_of_ok:
  "sg \<in> set (segments_of pre d w rows) \<Longrightarrow>
     sg_size sg \<le> MAX_FILE_BYTES \<and> journal_path (sg_relative sg) = Inr (d, w, sg_part sg)"
  by (auto simp: segments_of_def List.map_filter_def split: sum.splits) (metis segment_of_row_ok)+

lemma inventory_SomeD:
  assumes "inventory pre (Some rows) path v = Inr segs"
  obtains d w p where "journal_path (drop (length pre + 1) path) = Inr (d, w, p)"
    "segs = sort_key (\<lambda>sg. (sg_part sg, sg_archived sg)) (segments_of pre d w rows)"
    "complete_series (map sg_part (segments_of pre d w rows))"
    "length (segments_of pre d w rows) \<le> MAX_SERIES_FILES * 2"
    "sum_list (map sg_size (segments_of pre d w rows)) \<le> MAX_SERIES_BYTES"
    "(\<exists>sg\<in>set segs. sg_part sg \<noteq> 0) \<longrightarrow> 2 \<le> v"
proof -
  from assms obtain d w p r where
    j: "journal_path (drop (length pre + 1) path) = Inr (d, w, p)"
    and c: "collect_segments pre d w rows [] 0 = Inr r"
    and f: "complete_series (map sg_part r)" "\<not> (list_ex (\<lambda>p. p \<noteq> 0) (map sg_part r) \<and> v < 2)"
    and s: "segs = sort_key (\<lambda>sg. (sg_part sg, sg_archived sg)) r"
    by (auto simp: inventory_def Let_def split: sum.splits if_splits prod.splits)
  from collect_segments_result [OF c] have r: "r = segments_of pre d w rows"
    "length r \<le> MAX_SERIES_FILES * 2" "sum_list (map sg_size r) \<le> MAX_SERIES_BYTES"
    by auto
  have "(\<exists>sg\<in>set segs. sg_part sg \<noteq> 0) \<longrightarrow> 2 \<le> v"
    using f(2) by (auto simp: s list_ex_iff)
  with j f(1) s r show ?thesis by (intro that [of d w p]) simp_all
qed

lemma inventory_sizes:
  "inventory pre listing path v = Inr segs \<Longrightarrow> sg \<in> set segs \<Longrightarrow> sg_size sg \<le> MAX_FILE_BYTES"
proof (cases listing)
  case None
  then show "inventory pre listing path v = Inr segs \<Longrightarrow> sg \<in> set segs \<Longrightarrow> ?thesis"
    by (simp add: inventory_def)
next
  case (Some rows)
  assume "inventory pre listing path v = Inr segs" and sg: "sg \<in> set segs"
  with Some obtain d w where
    "segs = sort_key (\<lambda>sg. (sg_part sg, sg_archived sg)) (segments_of pre d w rows)"
    by (auto elim: inventory_SomeD)
  with sg show ?thesis by (auto dest: segments_of_ok)
qed

text \<open>A successful inventory of a day is complete and canonical: it lists exactly the segments the
  tree rows of that writer hold, sorted by part number and then archive flag; the part numbers are
  \<open>0..n\<close> without a gap; every segment is a canonical path of that day and writer, no file is above
  \<open>MAX_FILE_BYTES\<close>, the series is within its byte and file bounds, and continuations occur only
  under a catalog of version 2.
\<close>

theorem journal_inventory_complete:
  assumes "inventory pre (Some rows) path v = Inr segs"
  shows "\<exists>d w p. journal_path (drop (length pre + 1) path) = Inr (d, w, p)
    \<and> mset segs = mset (segments_of pre d w rows)
    \<and> sorted (map (\<lambda>sg. (sg_part sg, sg_archived sg)) segs)
    \<and> (segs = [] \<or> (\<exists>n. set (map sg_part segs) = {0..n}))
    \<and> list_all (\<lambda>sg. sg_size sg \<le> MAX_FILE_BYTES
          \<and> journal_path (sg_relative sg) = Inr (d, w, sg_part sg)) segs
    \<and> sum_list (map sg_size segs) \<le> MAX_SERIES_BYTES \<and> length segs \<le> 2 * MAX_SERIES_FILES
    \<and> (v \<ge> 2 \<or> list_all (\<lambda>sg. sg_part sg = 0) segs)"
proof -
  from assms obtain d w p where j: "journal_path (drop (length pre + 1) path) = Inr (d, w, p)"
    and s: "segs = sort_key (\<lambda>sg. (sg_part sg, sg_archived sg)) (segments_of pre d w rows)"
    and c: "complete_series (map sg_part (segments_of pre d w rows))"
    and b: "length (segments_of pre d w rows) \<le> MAX_SERIES_FILES * 2"
      "sum_list (map sg_size (segments_of pre d w rows)) \<le> MAX_SERIES_BYTES"
    and v: "(\<exists>sg\<in>set segs. sg_part sg \<noteq> 0) \<longrightarrow> 2 \<le> v"
    by (rule inventory_SomeD)
  have m: "mset segs = mset (segments_of pre d w rows)" using s by simp
  then have m2: "set segs = set (segments_of pre d w rows)" "length segs = length (segments_of pre d w rows)"
    by (auto dest: mset_eq_setD mset_eq_length)
  have sum: "sum_list (map sg_size segs) = sum_list (map sg_size (segments_of pre d w rows))"
    using arg_cong [OF m, of "image_mset sg_size"] by (metis mset_map sum_mset_sum_list)
  have "segs = [] \<or> (\<exists>n. set (map sg_part segs) = {0..n})"
    using c m2 unfolding complete_series_def by (cases "segs = []") auto
  moreover have "list_all (\<lambda>sg. sg_size sg \<le> MAX_FILE_BYTES
      \<and> journal_path (sg_relative sg) = Inr (d, w, sg_part sg)) segs"
    using m2(1) segments_of_ok by (simp add: list_all_iff)
  moreover have "v \<ge> 2 \<or> list_all (\<lambda>sg. sg_part sg = 0) segs"
    using v by (auto simp: list_all_iff)
  moreover have "sorted (map (\<lambda>sg. (sg_part sg, sg_archived sg)) segs)"
    using s by (simp only: sorted_sort_key)
  ultimately show ?thesis using j m m2(2) b sum by (intro exI [of _ d] exI [of _ w] exI [of _ p]) simp
qed

section \<open>Appending\<close>

lemma load_segments_tail:
  "load_segments k scope blob tail segs read td di = Inr (read', td', di') \<Longrightarrow>
   (\<And>d. td = Some d \<Longrightarrow> \<exists>t. tail = Some t \<and> blob (sg_oid t) = Inr d \<and> length d = sg_size t) \<Longrightarrow>
   td' = Some d \<Longrightarrow> \<exists>t. tail = Some t \<and> blob (sg_oid t) = Inr d \<and> length d = sg_size t"
proof (induction k scope blob tail segs read td di rule: load_segments.induct)
  case (1 k scope blob tail read tail_data di)
  then show ?case by simp
next
  case (2 k scope blob tail sg sgs read tail_data di)
  show ?case
  proof (cases "di_known di sg")
    case True
    with 2 show ?thesis by simp
  next
    case False
    from False 2(3) obtain data where b: "blob (sg_oid sg) = Inr data"
      by (auto split: sum.splits)
    from False 2(3) b obtain di1 where len: "length data = sg_size sg"
      and r: "di_remember k scope sg data di = Inr di1"
      by (auto split: sum.splits if_splits)
    from False 2(3) b len r
    have rec: "load_segments k scope blob tail sgs (read + length data)
        (if Some sg = tail then Some data else tail_data) di1 = Inr (read', td', di')" by simp
    show ?thesis
    proof (rule 2(2) [OF False b _ r rec _ 2(5)])
      fix d assume "(if Some sg = tail then Some data else tail_data) = Some d"
      with 2(4) b len show "\<exists>t. tail = Some t \<and> blob (sg_oid t) = Inr d \<and> length d = sg_size t"
        by (auto split: if_splits)
    qed (simp add: len)
  qed
qed

text \<open>Where an append starts: the last segment and its content, or the empty canonical file.\<close>

definition append_from :: "segment list \<Rightarrow> string \<Rightarrow> (string \<Rightarrow> string res) \<Rightarrow> string \<Rightarrow> nat \<Rightarrow> string \<Rightarrow> bool" where
  "append_from segs path blob base part data \<longleftrightarrow>
     (if segs = [] then base = path \<and> part = 0 \<and> data = []
      else base = sg_path (last segs) \<and> part = sg_part (last segs)
           \<and> blob (sg_oid (last segs)) = Inr data \<and> length data = sg_size (last segs))"

text \<open>
  C24. An append keeps the old tail as a prefix and then writes every new record exactly once, in
  order, each as its own canonical line: the updated files, in order, are the old tail followed by
  the first new lines, and then the consecutively numbered continuations; no written file is above
  \<open>MAX_FILE_BYTES\<close>, and the reported counts are the records, bytes and continuations written. With
  nothing new it writes nothing.
\<close>

theorem journal_append_writes:
  assumes run: "journal_append k scope pre listing blob version path additions di = Inr (r, di')"
    and writer: "\<forall>e\<in>set additions. e_writer e = w"
  shows "\<exists>segs new. inventory pre listing path version = Inr segs \<and> ar_added r = length new
    \<and> select_new k di' (sort_key (\<lambda>e. (e_ts e, e_id e)) additions) [] [] [] = Inr new
    \<and> (if new = [] then ar_updates r = [] \<and> ar_written r = 0 \<and> ar_rollovers r = 0
       else \<exists>base part data. append_from segs path blob base part data
         \<and> written_as k base w data part new (ar_rollovers r) (ar_updates r)
         \<and> ar_written r = sum_list (map (length \<circ> snd) (ar_updates r)))"
proof -
  from run obtain segs where segs: "inventory pre listing path version = Inr segs"
    by (auto simp: journal_append_def split: sum.splits)
  define tail where "tail = (if segs = [] then None else Some (last segs))"
  note run1 = run [unfolded journal_append_def segs sum.case, folded tail_def, unfolded Let_def, folded tail_def]
  from run1 obtain read td di1 where
    load: "load_segments k scope blob tail segs 0 None (di_select di segs) = Inr (read, td, di1)"
    by (auto split: sum.splits)
  from run1 load obtain new where
    new: "select_new k di1 (sort_key (\<lambda>e. (e_ts e, e_id e)) additions) [] [] [] = Inr new"
    by (auto split: sum.splits)
  note run2 = run1 [unfolded load sum.case prod.case new]
  have di: "di' = di1"
    using run2 by (auto split: sum.splits if_splits option.splits)
  show ?thesis
  proof (cases "new = []")
    case True
    with run2 segs new di show ?thesis by (auto split: sum.splits)
  next
    case False
    from False run2 obtain data read' where
      data: "(case (tail, td) of
              (Some sg, None) \<Rightarrow>
                (case blob (sg_oid sg) of
                   Inl x \<Rightarrow> Inl x
                 | Inr d \<Rightarrow> if length d \<noteq> sg_size sg then Inl (JournalError ''invalid_journal_git_object'')
                            else Inr (d, read + length d))
            | (_, Some d) \<Rightarrow> Inr (d, read)
            | (None, None) \<Rightarrow> Inr ([], read)) = Inr (data, read')"
      by (auto split: sum.splits if_splits)
    define base where "base = (case tail of None \<Rightarrow> path | Some sg \<Rightarrow> sg_path sg)"
    define part where "part = (case tail of None \<Rightarrow> 0 | Some sg \<Rightarrow> sg_part sg)"
    define start where "start = \<lparr>f_target = base, f_part = part, f_data = data, f_dirty = False,
      f_updates = [], f_written = 0, f_rollovers = 0\<rparr>"
    from False run2 data obtain f where f: "fill_all k base start new = Inr f"
      and r: "ar_updates r = f_updates f" "ar_added r = length new"
        "ar_written r = f_written f" "ar_rollovers r = f_rollovers f"
      by (auto simp: base_def part_def start_def split: sum.splits if_splits)
    have td: "\<exists>t. tail = Some t \<and> blob (sg_oid t) = Inr d \<and> length d = sg_size t" if "td = Some d" for d
      using load_segments_tail [OF load _ that] by simp
    have from_tail: "append_from segs path blob base part data"
      using data td by (auto simp: append_from_def base_def part_def tail_def split: option.splits sum.splits if_splits)
    have "length data \<le> MAX_FILE_BYTES"
      using from_tail inventory_sizes [OF segs, of "last segs"]
      by (auto simp: append_from_def split: if_splits)
    moreover have "\<forall>e\<in>set new. e_writer e = w"
      using select_new_result [OF new] writer by (auto dest: subseq_order.order_trans list_emb_set)
    ultimately have "written_as k base w data part new (f_rollovers f) (f_updates f)
        \<and> f_written f = sum_list (map (length \<circ> snd) (f_updates f))"
      by (intro fill_all_written [OF f]) (simp_all add: start_def)
    with False segs new di from_tail r show ?thesis by auto
  qed
qed


section \<open>Concrete runs\<close>

definition demo_index :: dindex where
  "demo_index = \<lparr>di_files = [], di_events = [], di_current = []\<rparr>"

definition demo_path :: string where
  "demo_path = ''j/'' @ ''2026-10-09'' @ ''/'' @ uuid_text 5 @ ''.jsonl''"

definition demo_row :: tree_row where
  "demo_row = \<lparr>tr_mode = ''100644'', tr_kind = ''blob'', tr_oid = replicate 40 (CHR ''a''), tr_size = ''5'',
     tr_path = demo_path\<rparr>"

lemma demo_select: "select_new demo_codec demo_index [demo_save, demo_forget] [] [] []
    = Inr [demo_save, demo_forget]"
  by (simp add: entry_digest_def entry_line_def demo_encode MAX_LINE_BYTES_def di_check_def di_rows_def
      demo_index_def Let_def) (simp add: demo_save_def demo_forget_def)

lemma demo_sorted: "sort_key (\<lambda>e. (e_ts e, e_id e)) [demo_forget, demo_save] = [demo_save, demo_forget]"
  by (simp add: demo_save_def demo_forget_def less_eq_prod_def)


theorem journal_append_writes_witness:
  "\<exists>r di'. journal_append demo_codec (7, 8) ''j'' None (\<lambda>_. Inl OSError) 2 demo_path
      [demo_forget, demo_save] demo_index = Inr (r, di')
    \<and> ar_added r = 2 \<and> ar_updates r = [(demo_path, ''0001'' @ newline # ''0002'' @ [newline])]"
proof -
  have di: "di_select demo_index [] = demo_index" by (simp add: di_select_def demo_index_def)
  have bounded: "di_bounded demo_index n = Inr ()" if "n \<le> 2" for n
    using that by (simp add: di_bounded_def demo_index_def MAX_SERIES_RECORDS_def)
  have run: "\<exists>r. journal_append demo_codec (7, 8) ''j'' None (\<lambda>_. Inl OSError) 2 demo_path
      [demo_forget, demo_save] demo_index = Inr (r, demo_index)
      \<and> ar_updates r = [(demo_path, ''0001'' @ newline # ''0002'' @ [newline])]"
    unfolding journal_append_def demo_sorted
    by (simp del: select_new.simps add: inventory_def di demo_select bounded
        MAX_SERIES_RECORDS_def MAX_SERIES_BYTES_def line_size_def demo_encode fill_all_def fill_step_def
        entry_line_def MAX_LINE_BYTES_def MAX_FILE_BYTES_def fill_flush_def)
  then obtain r where r: "journal_append demo_codec (7, 8) ''j'' None (\<lambda>_. Inl OSError) 2 demo_path
      [demo_forget, demo_save] demo_index = Inr (r, demo_index)"
    "ar_updates r = [(demo_path, ''0001'' @ newline # ''0002'' @ [newline])]" by blast
  have "ar_added r = 2"
    using journal_append_writes [OF r(1), of 5, unfolded demo_sorted demo_select]
    by (auto simp: demo_save_def demo_forget_def)
  with r show ?thesis by blast
qed

theorem journal_inventory_complete_witness:
  "\<exists>segs. inventory ''j'' (Some [demo_row]) demo_path 1 = Inr segs \<and> length segs = 1
     \<and> sum_list (map sg_size segs) \<le> MAX_SERIES_BYTES"
proof -
  have p: "journal_path (drop (Suc (Suc 0)) demo_path) = Inr ((2026, 10, 9), 5, 0)"
    "basename demo_path = uuid_text 5 @ ''.jsonl''" "prefix ''j/_archive/'' demo_path = False"
    by code_simp+
  have o: "oid_ok (tr_oid demo_row)" "read_size (tr_size demo_row) = Some 5" by code_simp+
  have "\<exists>sg. inventory ''j'' (Some [demo_row]) demo_path 1 = Inr [sg]"
    using p o by (simp add: inventory_def segment_of_row_def demo_row_def Let_def MAX_FILE_BYTES_def
        MAX_SERIES_FILES_def MAX_SERIES_BYTES_def complete_series_def)
  then obtain sg where i: "inventory ''j'' (Some [demo_row]) demo_path 1 = Inr [sg]" by blast
  from journal_inventory_complete [OF this] i show ?thesis by auto
qed

end
