(* ===== verification/Inference_Gate.thy ===== *)
theory Inference_Gate
  imports Prelude
begin

text \<open>
  The inference gate (\<open>service/inference_limits.py\<close>): one inference at a time behind a bounded FIFO
  queue, cooperative yielding and nonblocking maintenance. Every section under the gate's lock is
  one atomic step; threads interleave between sections. A thread is between two sections what its
  control state says. Times are integers, as everywhere.
\<close>

section \<open>The gate\<close>

record lease =
  ls_remaining :: time
  ls_entered :: bool
  ls_since :: "time option"
  ls_expired :: bool

datatype holder = Executing uuid | Maintenance uuid

record gate =
  gt_max_queued :: nat
  gt_wait :: time
  gt_permits :: nat
  gt_leases :: "uuid \<Rightarrow> lease"
  gt_waiters :: "uuid list"
  gt_owner :: "holder option"
  gt_last_used :: time
  gt_active :: int
  gt_queued :: int
  gt_completed :: nat
  gt_failed :: nat
  gt_rejected :: nat
  gt_wait_time :: time
  gt_execution_time :: time

text \<open>\<open>__init__\<close>; the lower bounds of its checks hold by type or are stated.\<close>

definition new_lease :: "time \<Rightarrow> lease" where
  "new_lease seconds = \<lparr>ls_remaining = seconds, ls_entered = False, ls_since = None, ls_expired = False\<rparr>"

definition make_gate :: "nat \<Rightarrow> time \<Rightarrow> time \<Rightarrow> gate res" where
  "make_gate max_queued wait now =
     (if \<not> max_queued \<le> 64 then Inl ValueError
      else if \<not> (0 \<le> wait \<and> wait \<le> 5000000) then Inl ValueError
      else Inr \<lparr>gt_max_queued = max_queued, gt_wait = wait, gt_permits = max_queued + 1,
        gt_leases = (\<lambda>_. new_lease 0), gt_waiters = [], gt_owner = None, gt_last_used = now,
        gt_active = 0, gt_queued = 0, gt_completed = 0, gt_failed = 0, gt_rejected = 0,
        gt_wait_time = 0, gt_execution_time = 0\<rparr>)"

definition lease_update :: "uuid \<Rightarrow> (lease \<Rightarrow> lease) \<Rightarrow> gate \<Rightarrow> gate" where
  "lease_update k f g = g\<lparr>gt_leases := (gt_leases g)(k := f (gt_leases g k))\<rparr>"

definition reject_gate :: "gate \<Rightarrow> gate" where
  "reject_gate g = g\<lparr>gt_rejected := gt_rejected g + 1\<rparr>"

section \<open>Waiting for a turn\<close>

datatype outcome = Turn | TimedOut | Waiting

definition enqueue :: "uuid \<Rightarrow> gate \<Rightarrow> gate" where
  "enqueue k g = g\<lparr>gt_waiters := gt_waiters g @ [k], gt_queued := gt_queued g + 1\<rparr>"

definition grant_turn :: "uuid \<Rightarrow> time \<Rightarrow> gate \<Rightarrow> gate" where
  "grant_turn k now g = (lease_update k (\<lambda>l. l\<lparr>ls_entered := True, ls_since := Some now\<rparr>) g)
     \<lparr>gt_owner := Some (Executing k), gt_active := gt_active g + 1, gt_last_used := now\<rparr>"

text \<open>The \<open>finally\<close> of the wait.\<close>

definition leave_queue :: "uuid \<Rightarrow> time \<Rightarrow> bool \<Rightarrow> time \<Rightarrow> gate \<Rightarrow> gate" where
  "leave_queue k started cooperative now g =
     (if cooperative then lease_update k (\<lambda>l. l\<lparr>ls_remaining := max 0 (ls_remaining l - (now - started))\<rparr>) g else g)
     \<lparr>gt_wait_time := gt_wait_time g + (now - started), gt_waiters := remove1 k (gt_waiters g),
      gt_queued := gt_queued g - 1\<rparr>"

text \<open>One turn of the loop in \<open>_wait_for_turn\<close>.\<close>

definition attempt :: "uuid \<Rightarrow> time \<Rightarrow> time \<Rightarrow> bool \<Rightarrow> bool \<Rightarrow> time \<Rightarrow> gate \<Rightarrow> outcome \<times> gate" where
  "attempt k started deadline cooperative first now g =
     (if gt_owner g = None \<and> gt_waiters g \<noteq> [] \<and> hd (gt_waiters g) = k \<and> (first \<or> now < deadline)
      then (Turn, leave_queue k started cooperative now (grant_turn k now g))
      else if deadline - now \<le> 0 then (TimedOut, leave_queue k started cooperative now g)
      else (Waiting, g))"

definition release_execution :: "uuid \<Rightarrow> time \<Rightarrow> gate \<Rightarrow> gate" where
  "release_execution k now g =
     (if gt_owner g \<noteq> Some (Executing k) then g
      else (lease_update k (\<lambda>l. l\<lparr>ls_since := None\<rparr>) g)
        \<lparr>gt_active := gt_active g - 1,
         gt_execution_time := gt_execution_time g + (now - (case ls_since (gt_leases g k) of None \<Rightarrow> now | Some t \<Rightarrow> t)),
         gt_last_used := now, gt_owner := None\<rparr>)"

text \<open>The locked section of the \<open>finally\<close> of \<open>acquire\<close>; the permit is returned after it.\<close>

definition exit_gate :: "uuid \<Rightarrow> bool \<Rightarrow> time \<Rightarrow> gate \<Rightarrow> gate" where
  "exit_gate k failed now g =
     (let g1 = release_execution k now g
      in if \<not> ls_entered (gt_leases g1 k) then g1
         else if failed then g1\<lparr>gt_failed := gt_failed g1 + 1\<rparr>
         else g1\<lparr>gt_completed := gt_completed g1 + 1\<rparr>)"

text \<open>The first section of \<open>maintenance\<close>.\<close>

definition may_maintain :: "time \<Rightarrow> time \<Rightarrow> gate \<Rightarrow> bool" where
  "may_maintain idle now g \<longleftrightarrow> gt_owner g = None \<and> gt_waiters g = [] \<and> (idle \<le> 0 \<or> idle \<le> now - gt_last_used g)"

section \<open>Threads\<close>

text \<open>
  Between two locked sections an operation is outside, admitted (it holds a permit), waiting (with
  the start, the deadline and the kind of its wait), executing, lapsed (a checkpoint timed out and
  it no longer owns the gate), turned away by its first wait, or departing: out of its last section
  with the permit still held.
\<close>

datatype place = Outside | Admitted | InQueue time time bool | Running | Lapsed | TurnedAway | Departing

record system =
  sy_gate :: gate
  sy_now :: time
  sy_control :: "uuid \<Rightarrow> place"

definition moved :: "uuid \<Rightarrow> place \<Rightarrow> gate \<Rightarrow> system \<Rightarrow> system" where
  "moved k c g s = s\<lparr>sy_gate := g, sy_control := (sy_control s)(k := c)\<rparr>"

definition after_wait :: "uuid \<Rightarrow> time \<Rightarrow> time \<Rightarrow> bool \<Rightarrow> outcome \<times> gate \<Rightarrow> system \<Rightarrow> system" where
  "after_wait k started deadline cooperative r s =
     (case r of
        (Turn, g) \<Rightarrow> moved k Running g s
      | (Waiting, g) \<Rightarrow> moved k (InQueue started deadline cooperative) g s
      | (TimedOut, g) \<Rightarrow>
          if cooperative then moved k Lapsed (reject_gate (lease_update k (\<lambda>l. l\<lparr>ls_expired := True\<rparr>) g)) s
          else moved k TurnedAway (reject_gate g) s)"

inductive gate_step :: "system \<Rightarrow> system \<Rightarrow> bool" where
  pass_time: "0 \<le> d \<Longrightarrow> gate_step s (s\<lparr>sy_now := sy_now s + d\<rparr>)"
| refuse: "sy_control s k = Outside \<Longrightarrow> gt_permits (sy_gate s) = 0 \<Longrightarrow>
     gate_step s (s\<lparr>sy_gate := reject_gate (sy_gate s)\<rparr>)"
| admit: "sy_control s k = Outside \<Longrightarrow> 0 < gt_permits (sy_gate s) \<Longrightarrow> 0 \<le> seconds \<Longrightarrow> seconds \<le> 120000000 \<Longrightarrow>
     g = (sy_gate s)\<lparr>gt_permits := gt_permits (sy_gate s) - 1\<rparr> \<Longrightarrow>
     gate_step s (moved k Admitted (lease_update k (\<lambda>_. new_lease seconds) g) s)"
| join: "sy_control s k = Admitted \<Longrightarrow> now = sy_now s \<Longrightarrow>
     gate_step s (after_wait k now (now + gt_wait (sy_gate s)) False
       (attempt k now (now + gt_wait (sy_gate s)) False True now (enqueue k (sy_gate s))) s)"
| wake: "sy_control s k = InQueue started deadline cooperative \<Longrightarrow>
     gate_step s (after_wait k started deadline cooperative
       (attempt k started deadline cooperative False (sy_now s) (sy_gate s)) s)"
| checkpoint: "sy_control s k = Running \<Longrightarrow> gt_waiters (sy_gate s) \<noteq> [] \<Longrightarrow> now = sy_now s \<Longrightarrow>
     deadline = now + ls_remaining (gt_leases (sy_gate s) k) \<Longrightarrow>
     gate_step s (after_wait k now deadline True
       (attempt k now deadline True True now (enqueue k (release_execution k now (sy_gate s)))) s)"
| finish: "sy_control s k = Running \<Longrightarrow>
     gate_step s (moved k Departing (exit_gate k failed (sy_now s) (sy_gate s)) s)"
| give_up: "sy_control s k = Lapsed \<or> sy_control s k = TurnedAway \<Longrightarrow>
     gate_step s (moved k Departing (exit_gate k True (sy_now s) (sy_gate s)) s)"
| depart: "sy_control s k = Departing \<Longrightarrow>
     gate_step s (moved k Outside ((sy_gate s)\<lparr>gt_permits := gt_permits (sy_gate s) + 1\<rparr>) s)"
| maintain: "may_maintain idle (sy_now s) (sy_gate s) \<Longrightarrow>
     gate_step s (s\<lparr>sy_gate := (sy_gate s)\<lparr>gt_owner := Some (Maintenance m)\<rparr>\<rparr>)"
| maintained: "gt_owner (sy_gate s) = Some (Maintenance m) \<Longrightarrow>
     gate_step s (s\<lparr>sy_gate := (sy_gate s)\<lparr>gt_owner := None\<rparr>\<rparr>)"

inductive gate_reachable :: "gate \<Rightarrow> time \<Rightarrow> system \<Rightarrow> bool" for g0 now0 where
  start: "gate_reachable g0 now0 \<lparr>sy_gate = g0, sy_now = now0, sy_control = (\<lambda>_. Outside)\<rparr>"
| step: "gate_reachable g0 now0 s \<Longrightarrow> gate_step s t \<Longrightarrow> gate_reachable g0 now0 t"

section \<open>The invariant\<close>

text \<open>
  The queue holds exactly the waiting operations, once each; the owner is the one executing
  operation or a maintenance section; each admitted operation holds one permit; the statistics
  count the queue and the owner; a lapsed operation has run and is marked expired.
\<close>

definition inside :: "system \<Rightarrow> uuid set" where
  "inside s = {k. sy_control s k \<noteq> Outside}"

definition waits :: "place \<Rightarrow> bool" where
  "waits c = (case c of InQueue _ _ _ \<Rightarrow> True | _ \<Rightarrow> False)"

definition gate_inv :: "nat \<Rightarrow> system \<Rightarrow> bool" where
  "gate_inv n s \<longleftrightarrow>
     distinct (gt_waiters (sy_gate s))
   \<and> (\<forall>k. k \<in> set (gt_waiters (sy_gate s)) \<longleftrightarrow> waits (sy_control s k))
   \<and> (\<forall>k. gt_owner (sy_gate s) = Some (Executing k) \<longleftrightarrow> sy_control s k = Running)
   \<and> finite (inside s) \<and> gt_permits (sy_gate s) + card (inside s) = n + 1
   \<and> gt_queued (sy_gate s) = int (length (gt_waiters (sy_gate s)))
   \<and> gt_active (sy_gate s) = (case gt_owner (sy_gate s) of Some (Executing k) \<Rightarrow> 1 | _ \<Rightarrow> 0)
   \<and> (\<forall>k. sy_control s k = Running \<longrightarrow> ls_entered (gt_leases (sy_gate s) k) \<and> ls_since (gt_leases (sy_gate s) k) \<noteq> None)
   \<and> (\<forall>k. sy_control s k = Lapsed \<longrightarrow> ls_expired (gt_leases (sy_gate s) k))"

lemma waits_simps [simp]: "waits (InQueue a b c)" "\<not> waits Outside" "\<not> waits Admitted" "\<not> waits Running"
  "\<not> waits Lapsed" "\<not> waits TurnedAway" "\<not> waits Departing"
  by (simp_all add: waits_def)

lemma waits_iff: "waits c \<longleftrightarrow> (\<exists>a b d. c = InQueue a b d)"
  by (cases c) (auto simp: waits_def)

lemma inside_moved:
  "inside (moved k c g s) = (if c = Outside then inside s - {k} else insert k (inside s))"
  by (auto simp: inside_def moved_def)

lemma gate_inv_start:
  assumes "make_gate n w now = Inr g"
  shows "gate_inv n \<lparr>sy_gate = g, sy_now = now, sy_control = (\<lambda>_. Outside)\<rparr>"
  using assms by (auto simp: make_gate_def gate_inv_def inside_def split: if_splits)

section \<open>Every step keeps the invariant\<close>

text \<open>
  The invariant splits into what a step does to the queue, to the owner and to the permits; a
  step that moves one operation changes each of them for that operation only.
\<close>

definition queue_inv :: "gate \<Rightarrow> (uuid \<Rightarrow> place) \<Rightarrow> bool" where
  "queue_inv g c \<longleftrightarrow> distinct (gt_waiters g) \<and> (\<forall>k. k \<in> set (gt_waiters g) \<longleftrightarrow> waits (c k))
     \<and> gt_queued g = int (length (gt_waiters g))"

definition owner_inv :: "gate \<Rightarrow> (uuid \<Rightarrow> place) \<Rightarrow> bool" where
  "owner_inv g c \<longleftrightarrow> (\<forall>k. gt_owner g = Some (Executing k) \<longleftrightarrow> c k = Running)
     \<and> gt_active g = (case gt_owner g of Some (Executing k) \<Rightarrow> 1 | _ \<Rightarrow> 0)
     \<and> (\<forall>k. c k = Running \<longrightarrow> ls_entered (gt_leases g k) \<and> ls_since (gt_leases g k) \<noteq> None)
     \<and> (\<forall>k. c k = Lapsed \<longrightarrow> ls_expired (gt_leases g k))"

definition permit_inv :: "nat \<Rightarrow> gate \<Rightarrow> (uuid \<Rightarrow> place) \<Rightarrow> bool" where
  "permit_inv n g c \<longleftrightarrow> finite {k. c k \<noteq> Outside} \<and> gt_permits g + card {k. c k \<noteq> Outside} = n + 1"

lemma gate_inv_split:
  "gate_inv n s \<longleftrightarrow> queue_inv (sy_gate s) (sy_control s) \<and> owner_inv (sy_gate s) (sy_control s)
     \<and> permit_inv n (sy_gate s) (sy_control s)"
  by (auto simp: gate_inv_def queue_inv_def owner_inv_def permit_inv_def inside_def)

lemma permit_inv_moves:
  assumes "permit_inv n g c" "c k \<noteq> Outside" "v \<noteq> Outside" "gt_permits g' = gt_permits g"
  shows "permit_inv n g' (c(k := v))"
proof -
  have "{x. (c(k := v)) x \<noteq> Outside} = {x. c x \<noteq> Outside}" using assms by auto
  then show ?thesis using assms by (simp add: permit_inv_def)
qed

lemma permit_inv_enters:
  assumes "permit_inv n g c" "c k = Outside" "v \<noteq> Outside" "gt_permits g = Suc (gt_permits g')"
  shows "permit_inv n g' (c(k := v))"
proof -
  have "{x. (c(k := v)) x \<noteq> Outside} = insert k {x. c x \<noteq> Outside}" using assms by auto
  then show ?thesis using assms by (simp add: permit_inv_def)
qed

lemma permit_inv_leaves:
  assumes "permit_inv n g c" "c k \<noteq> Outside" "gt_permits g' = Suc (gt_permits g)"
  shows "permit_inv n g' (c(k := Outside))"
proof -
  have "{x. (c(k := Outside)) x \<noteq> Outside} = {x. c x \<noteq> Outside} - {k}" using assms by auto
  moreover have "card {x. c x \<noteq> Outside} > 0" using assms by (auto simp: permit_inv_def card_gt_0_iff)
  ultimately show ?thesis using assms by (simp add: permit_inv_def)
qed

lemmas gate_parts = lease_update_def reject_gate_def enqueue_def grant_turn_def leave_queue_def release_execution_def exit_gate_def

lemma permits_kept [simp]:
  "gt_permits (lease_update k f g) = gt_permits g" "gt_permits (reject_gate g) = gt_permits g"
  "gt_permits (enqueue k g) = gt_permits g" "gt_permits (grant_turn k now g) = gt_permits g"
  "gt_permits (leave_queue k st co now g) = gt_permits g" "gt_permits (release_execution k now g) = gt_permits g"
  "gt_permits (exit_gate k fl now g) = gt_permits g"
  by (simp_all add: gate_parts Let_def)

lemma attempt_permits [simp]: "gt_permits (snd (attempt k st dl co fi now g)) = gt_permits g"
  by (simp add: attempt_def)

lemma waiters_kept [simp]:
  "gt_waiters (lease_update k f g) = gt_waiters g" "gt_waiters (reject_gate g) = gt_waiters g"
  "gt_waiters (enqueue k g) = gt_waiters g @ [k]" "gt_waiters (grant_turn k now g) = gt_waiters g"
  "gt_waiters (leave_queue k st co now g) = remove1 k (gt_waiters g)"
  "gt_waiters (release_execution k now g) = gt_waiters g" "gt_waiters (exit_gate k fl now g) = gt_waiters g"
  by (simp_all add: gate_parts Let_def)

lemma queued_kept [simp]:
  "gt_queued (lease_update k f g) = gt_queued g" "gt_queued (reject_gate g) = gt_queued g"
  "gt_queued (enqueue k g) = gt_queued g + 1" "gt_queued (grant_turn k now g) = gt_queued g"
  "gt_queued (leave_queue k st co now g) = gt_queued g - 1"
  "gt_queued (release_execution k now g) = gt_queued g" "gt_queued (exit_gate k fl now g) = gt_queued g"
  by (simp_all add: gate_parts Let_def)

lemma queue_inv_joins:
  assumes "queue_inv g c" "\<not> waits (c k)" "waits v"
  shows "queue_inv (enqueue k g) (c(k := v))"
  using assms by (auto simp: queue_inv_def)

lemma queue_inv_leaves:
  assumes "queue_inv g c" "waits (c k)" "\<not> waits v"
    "gt_waiters g' = remove1 k (gt_waiters g)" "gt_queued g' = gt_queued g - 1"
  shows "queue_inv g' (c(k := v))"
proof -
  have "k \<in> set (gt_waiters g)" using assms(1,2) by (simp add: queue_inv_def)
  then have "int (length (remove1 k (gt_waiters g))) = int (length (gt_waiters g)) - 1"
    by (cases "gt_waiters g") (auto simp: length_remove1 dest: length_pos_if_in_set)
  then show ?thesis using assms by (auto simp: queue_inv_def)
qed

lemma queue_inv_aside:
  assumes "queue_inv g c" "waits (c k) \<longleftrightarrow> waits v" "gt_waiters g' = gt_waiters g" "gt_queued g' = gt_queued g"
  shows "queue_inv g' (c(k := v))"
  using assms by (auto simp: queue_inv_def)


lemma owner_inv_aside:
  assumes "owner_inv g c" "c k \<noteq> Running" "v \<noteq> Running" "v \<noteq> Lapsed \<or> ls_expired (gt_leases g' k)"
    "gt_owner g' = gt_owner g" "gt_active g' = gt_active g" "\<forall>j. j \<noteq> k \<longrightarrow> gt_leases g' j = gt_leases g j"
  shows "owner_inv g' (c(k := v))"
proof -
  have run: "gt_owner g' = Some (Executing j) \<longleftrightarrow> (c(k := v)) j = Running" for j
    using assms(1-3,5) by (cases "j = k") (simp_all add: owner_inv_def)
  have entered: "ls_entered (gt_leases g' j) \<and> ls_since (gt_leases g' j) \<noteq> None" if "(c(k := v)) j = Running" for j
    using that assms(1,3,7) by (cases "j = k") (simp_all add: owner_inv_def)
  have expired: "ls_expired (gt_leases g' j)" if "(c(k := v)) j = Lapsed" for j
    using that assms(1,4,7) by (cases "j = k") (simp_all add: owner_inv_def)
  have active: "gt_active g' = (case gt_owner g' of Some (Executing j) \<Rightarrow> 1 | _ \<Rightarrow> 0)"
    using assms(1,5,6) by (simp add: owner_inv_def)
  show ?thesis unfolding owner_inv_def by (intro conjI allI impI run active expired entered [THEN conjunct1] entered [THEN conjunct2])
qed

lemma owner_inv_granted:
  assumes "owner_inv g c" "gt_owner g = None"
  shows "owner_inv (leave_queue k st co now' (grant_turn k now g)) (c(k := Running))"
  using assms by (auto simp: owner_inv_def gate_parts)

lemma owner_inv_released:
  assumes "owner_inv g c" "c k = Running" "v \<noteq> Running" "v \<noteq> Lapsed"
  shows "owner_inv (release_execution k now g) (c(k := v))"
proof -
  have owner: "gt_owner g = Some (Executing k)" using assms(1,2) by (simp add: owner_inv_def)
  then have active: "gt_active g = 1" using assms(1) by (simp add: owner_inv_def)
  have "(c(k := v)) j \<noteq> Running" for j
  proof (cases "j = k")
    case False
    then have "gt_owner g \<noteq> Some (Executing j)" using owner by simp
    then show ?thesis using False assms(1) by (simp add: owner_inv_def)
  qed (simp add: assms(3))
  moreover have "ls_expired (gt_leases (release_execution k now g) j)" if "(c(k := v)) j = Lapsed" for j
    using that assms(1,4) by (cases "j = k") (simp_all add: owner_inv_def gate_parts)
  moreover have "gt_owner (release_execution k now g) = None" "gt_active (release_execution k now g) = 0"
    by (simp_all add: release_execution_def lease_update_def owner active)
  ultimately show ?thesis by (simp add: owner_inv_def del: fun_upd_apply)
qed

lemma owner_inv_same:
  assumes "owner_inv g c" "gt_owner g' = gt_owner g" "gt_active g' = gt_active g" "gt_leases g' = gt_leases g"
  shows "owner_inv g' c"
  using assms by (simp add: owner_inv_def)

lemma exit_gate_frame [simp]:
  "gt_owner (exit_gate k fl now g) = gt_owner (release_execution k now g)"
  "gt_active (exit_gate k fl now g) = gt_active (release_execution k now g)"
  "gt_leases (exit_gate k fl now g) = gt_leases (release_execution k now g)"
  by (simp_all add: exit_gate_def Let_def)

lemma enqueue_frame [simp]:
  "gt_owner (enqueue k g) = gt_owner g" "gt_active (enqueue k g) = gt_active g" "gt_leases (enqueue k g) = gt_leases g"
  by (simp_all add: enqueue_def)

lemma leave_queue_frame [simp]:
  "gt_owner (leave_queue k st co now g) = gt_owner g" "gt_active (leave_queue k st co now g) = gt_active g"
  "j \<noteq> k \<Longrightarrow> gt_leases (leave_queue k st co now g) j = gt_leases g j"
  by (simp_all add: gate_parts)

lemma reject_gate_frame [simp]:
  "gt_owner (reject_gate g) = gt_owner g" "gt_active (reject_gate g) = gt_active g" "gt_leases (reject_gate g) = gt_leases g"
  by (simp_all add: reject_gate_def)

lemma lease_update_frame [simp]:
  "gt_owner (lease_update k f g) = gt_owner g" "gt_active (lease_update k f g) = gt_active g"
  "gt_leases (lease_update k f g) = (gt_leases g)(k := f (gt_leases g k))"
  by (simp_all add: lease_update_def)

lemma release_not_owner [simp]: "gt_owner g \<noteq> Some (Executing k) \<Longrightarrow> release_execution k now g = g"
  by (simp add: release_execution_def)

lemma moved_simps [simp]:
  "sy_gate (moved k v g s) = g" "sy_control (moved k v g s) = (sy_control s)(k := v)" "sy_now (moved k v g s) = sy_now s"
  by (simp_all add: moved_def)

lemma attempt_cases:
  "attempt k st dl co fi now g = (Turn, leave_queue k st co now (grant_turn k now g)) \<and> gt_owner g = None
     \<and> gt_waiters g \<noteq> [] \<and> hd (gt_waiters g) = k
   \<or> attempt k st dl co fi now g = (TimedOut, leave_queue k st co now g)
   \<or> attempt k st dl co fi now g = (Waiting, g)"
  by (simp add: attempt_def)

text \<open>A turn of the wait loop, whatever the wait is for.\<close>

lemma wait_keeps_inv:
  assumes "queue_inv g c" "owner_inv g c" "permit_inv n g c" "c k = InQueue a b d"
    "(sy_control s)(k := c k) = c"
  shows "gate_inv n (after_wait k st dl co (attempt k st dl co fi now g) s)"
proof -
  have upd: "(sy_control s)(k := v) = c(k := v)" for v using assms(5) by (metis fun_upd_upd)
  consider (turn) "attempt k st dl co fi now g = (Turn, leave_queue k st co now (grant_turn k now g))" "gt_owner g = None"
    | (timeout) "attempt k st dl co fi now g = (TimedOut, leave_queue k st co now g)"
    | (wait) "attempt k st dl co fi now g = (Waiting, g)"
    using attempt_cases [of k st dl co fi now g] by (elim disjE conjE) (rule that; assumption)+
  then show ?thesis
  proof cases
    case turn
    have "queue_inv (leave_queue k st co now (grant_turn k now g)) (c(k := Running))"
      by (rule queue_inv_leaves [OF assms(1)]) (simp_all add: assms(4))
    moreover have "permit_inv n (leave_queue k st co now (grant_turn k now g)) (c(k := Running))"
      by (rule permit_inv_moves [OF assms(3)]) (simp_all add: assms(4))
    ultimately show ?thesis
      using turn owner_inv_granted [OF assms(2) turn(2)] upd by (simp add: after_wait_def gate_inv_split)
  next
    case timeout
    have "queue_inv g' (c(k := w))" if "gt_waiters g' = remove1 k (gt_waiters g)" "gt_queued g' = gt_queued g - 1"
      "\<not> waits w" for g' w by (rule queue_inv_leaves [OF assms(1)]) (simp_all add: assms(4) that)
    moreover have "permit_inv n g' (c(k := w))" if "gt_permits g' = gt_permits g" "w \<noteq> Outside" for g' w
      by (rule permit_inv_moves [OF assms(3)]) (simp_all add: assms(4) that)
    moreover have "owner_inv g' (c(k := w))" if "gt_owner g' = gt_owner g" "gt_active g' = gt_active g" "w \<noteq> Running"
      "w \<noteq> Lapsed \<or> ls_expired (gt_leases g' k)" "\<forall>j. j \<noteq> k \<longrightarrow> gt_leases g' j = gt_leases g j" for g' w
      by (rule owner_inv_aside [OF assms(2) _ that(3,4,1,2,5)]) (simp add: assms(4))
    ultimately show ?thesis using timeout upd by (simp add: after_wait_def gate_inv_split)
  next
    case wait
    have "queue_inv g (c(k := InQueue st dl co))" by (rule queue_inv_aside [OF assms(1)]) (simp_all add: assms(4))
    moreover have "permit_inv n g (c(k := InQueue st dl co))" by (rule permit_inv_moves [OF assms(3)]) (simp_all add: assms(4))
    moreover have "owner_inv g (c(k := InQueue st dl co))" by (rule owner_inv_aside [OF assms(2)]) (simp_all add: assms(4))
    ultimately show ?thesis using wait upd by (simp add: after_wait_def gate_inv_split)
  qed
qed

lemma exit_keeps_inv:
  assumes "gate_inv n s" "sy_control s k \<noteq> Outside" "\<not> waits (sy_control s k)"
  shows "gate_inv n (moved k Departing (exit_gate k failed now (sy_gate s)) s)"
proof -
  have parts: "queue_inv (sy_gate s) (sy_control s)" "owner_inv (sy_gate s) (sy_control s)" "permit_inv n (sy_gate s) (sy_control s)"
    using assms(1) by (simp_all add: gate_inv_split)
  have "owner_inv (release_execution k now (sy_gate s)) ((sy_control s)(k := Departing))"
  proof (cases "sy_control s k = Running")
    case True then show ?thesis by (intro owner_inv_released [OF parts(2)]) simp_all
  next
    case False
    then have "gt_owner (sy_gate s) \<noteq> Some (Executing k)" using parts(2) by (simp add: owner_inv_def)
    then show ?thesis using False by (intro owner_inv_aside [OF parts(2)]) simp_all
  qed
  then have "owner_inv (exit_gate k failed now (sy_gate s)) ((sy_control s)(k := Departing))"
    by (rule owner_inv_same) simp_all
  moreover have "queue_inv (exit_gate k failed now (sy_gate s)) ((sy_control s)(k := Departing))"
    by (rule queue_inv_aside [OF parts(1)]) (simp_all add: assms(3))
  moreover have "permit_inv n (exit_gate k failed now (sy_gate s)) ((sy_control s)(k := Departing))"
    by (rule permit_inv_moves [OF parts(3)]) (simp_all add: assms(2))
  ultimately show ?thesis by (simp add: gate_inv_split)
qed

lemma gate_step_inv:
  assumes "gate_step s t" "gate_inv n s"
  shows "gate_inv n t"
proof -
  have parts: "queue_inv (sy_gate s) (sy_control s)" "owner_inv (sy_gate s) (sy_control s)" "permit_inv n (sy_gate s) (sy_control s)"
    using assms(2) by (simp_all add: gate_inv_split)
  from assms(1) show ?thesis
  proof cases
    case (admit k seconds g)
    let ?g = "lease_update k (\<lambda>_. new_lease seconds) g"
    have "queue_inv ?g ((sy_control s)(k := Admitted))" by (rule queue_inv_aside [OF parts(1)]) (simp_all add: admit)
    moreover have "owner_inv ?g ((sy_control s)(k := Admitted))" by (rule owner_inv_aside [OF parts(2)]) (simp_all add: admit)
    moreover have "permit_inv n ?g ((sy_control s)(k := Admitted))" by (rule permit_inv_enters [OF parts(3)]) (use admit in simp_all)
    ultimately show ?thesis using admit by (simp add: gate_inv_split)
  next
    case (join k now)
    let ?v = "InQueue 0 0 False"
    show ?thesis unfolding join(1)
      by (rule wait_keeps_inv [where c = "(sy_control s)(k := ?v)"])
        (auto intro: queue_inv_joins [OF parts(1)] owner_inv_aside [OF parts(2)] permit_inv_moves [OF parts(3)] simp: join)
  next
    case (wake k started deadline cooperative)
    show ?thesis unfolding wake(1)
      by (rule wait_keeps_inv [OF parts wake(2)]) simp
  next
    case (checkpoint k now deadline)
    let ?v = "InQueue 0 0 False"
    have "owner_inv (release_execution k now (sy_gate s)) ((sy_control s)(k := ?v))"
      by (rule owner_inv_released [OF parts(2)]) (simp_all add: checkpoint)
    then have o: "owner_inv (enqueue k (release_execution k now (sy_gate s))) ((sy_control s)(k := ?v))"
      by (rule owner_inv_same) simp_all
    have "queue_inv (release_execution k now (sy_gate s)) ((sy_control s)(k := Running))"
      by (rule queue_inv_aside [OF parts(1)]) (simp_all add: checkpoint)
    then have "queue_inv (enqueue k (release_execution k now (sy_gate s))) ((sy_control s)(k := Running, k := ?v))"
      by (rule queue_inv_joins) simp_all
    then show ?thesis unfolding checkpoint(1)
      by (intro wait_keeps_inv [OF _ o, where a = 0 and b = 0 and d = False] permit_inv_moves [OF parts(3)]) (simp_all add: checkpoint)
  next
    case (finish k failed)
    then show ?thesis using exit_keeps_inv [OF assms(2), of k] by simp
  next
    case (give_up k)
    then show ?thesis using exit_keeps_inv [OF assms(2), of k] by auto
  next
    case (depart k)
    let ?g = "(sy_gate s)\<lparr>gt_permits := gt_permits (sy_gate s) + 1\<rparr>"
    have "queue_inv ?g ((sy_control s)(k := Outside))" by (rule queue_inv_aside [OF parts(1)]) (simp_all add: depart)
    moreover have "owner_inv ?g ((sy_control s)(k := Outside))" by (rule owner_inv_aside [OF parts(2)]) (simp_all add: depart)
    moreover have "permit_inv n ?g ((sy_control s)(k := Outside))" by (rule permit_inv_leaves [OF parts(3)]) (simp_all add: depart)
    ultimately show ?thesis using depart by (simp add: gate_inv_split)
  next
    case (maintain idle m)
    then show ?thesis using parts by (auto simp: gate_inv_split may_maintain_def queue_inv_def owner_inv_def permit_inv_def)
  next
    case (maintained m)
    then show ?thesis using parts by (auto simp: gate_inv_split queue_inv_def owner_inv_def permit_inv_def)
  qed (use parts in \<open>auto simp: gate_inv_split queue_inv_def owner_inv_def permit_inv_def reject_gate_def\<close>)
qed


lemma gate_reachable_inv:
  assumes "gate_reachable g now s" "make_gate n w now = Inr g"
  shows "gate_inv n s"
  using assms by (induction rule: gate_reachable.induct) (auto intro: gate_inv_start gate_step_inv)

lemma waits_filter:
  assumes "queue_inv g c" shows "filter (\<lambda>x. waits (c x)) (gt_waiters g) = gt_waiters g"
  using assms by (auto simp: queue_inv_def intro: filter_True)

lemma waits_filter_upd:
  assumes "queue_inv g c"
  shows "filter (\<lambda>x. waits ((c(k := v)) x)) (gt_waiters g) = (if waits v then gt_waiters g else remove1 k (gt_waiters g))"
proof (cases "waits v")
  case True
  then show ?thesis using assms by (auto simp: queue_inv_def intro: filter_True)
next
  case False
  then have "filter (\<lambda>x. waits ((c(k := v)) x)) (gt_waiters g) = filter (\<lambda>x. x \<noteq> k) (gt_waiters g)"
    using assms by (intro filter_cong) (auto simp: queue_inv_def)
  also have "\<dots> = remove1 k (gt_waiters g)" using assms by (simp add: queue_inv_def distinct_remove1_removeAll removeAll_filter_not_eq eq_commute)
  finally show ?thesis using False by simp
qed

lemma gate_step_order:
  assumes "gate_step s t" "queue_inv (sy_gate s) (sy_control s)"
  shows "\<exists>joined. gt_waiters (sy_gate t) = filter (\<lambda>x. waits (sy_control t x)) (gt_waiters (sy_gate s)) @ joined \<and> length joined \<le> 1"
proof -
  note order = waits_filter [OF assms(2)] waits_filter_upd [OF assms(2)]
  from assms(1) show ?thesis
  proof cases
    case (join k now')
    then have "k \<notin> set (gt_waiters (sy_gate s))" using assms(2) by (simp add: queue_inv_def)
    then show ?thesis unfolding join(1) using order
      by (auto simp: after_wait_def attempt_def remove1_append remove1_idem simp del: fun_upd_apply)
  next
    case (wake k st dl co)
    then show ?thesis using order by (auto simp: after_wait_def attempt_def simp del: fun_upd_apply)
  next
    case (checkpoint k now' dl)
    then have "k \<notin> set (gt_waiters (sy_gate s))" using assms(2) by (simp add: queue_inv_def)
    then show ?thesis unfolding checkpoint(1) using order
      by (auto simp: after_wait_def attempt_def remove1_append remove1_idem simp del: fun_upd_apply)
  qed (use assms(2) order in \<open>auto simp: remove1_idem queue_inv_def simp del: fun_upd_apply\<close>)
qed

lemma gate_step_turn:
  assumes "gate_step s t" "sy_control t k = Running" "sy_control s k \<noteq> Running"
  shows "gt_waiters (sy_gate s) = [] \<or> hd (gt_waiters (sy_gate s)) = k"
  using assms by cases (auto simp: after_wait_def attempt_def hd_append split: if_splits)

section \<open>The properties\<close>

text \<open>
  C10. In every state the gate reaches, at most one operation executes, none executes while cache
  maintenance holds the gate, and the permits that are left together with the operations inside
  make the capacity: one executing operation and the bounded queue.
\<close>

theorem inference_is_exclusive:
  assumes "make_gate n w now = Inr g" "gate_reachable g now s"
  shows "(sy_control s j = Running \<and> sy_control s k = Running \<longrightarrow> j = k)
    \<and> (gt_owner (sy_gate s) = Some (Maintenance m) \<longrightarrow> sy_control s k \<noteq> Running)
    \<and> gt_permits (sy_gate s) + card (inside s) = n + 1 \<and> length (gt_waiters (sy_gate s)) \<le> n + 1
    \<and> 0 \<le> gt_active (sy_gate s) \<and> gt_active (sy_gate s) \<le> 1"
proof -
  have inv: "gate_inv n s" by (rule gate_reachable_inv [OF assms(2,1)])
  then have "set (gt_waiters (sy_gate s)) \<subseteq> inside s" by (auto simp: gate_inv_def inside_def)
  then have "length (gt_waiters (sy_gate s)) \<le> card (inside s)"
    using inv by (metis gate_inv_def card_mono distinct_card)
  moreover have "gt_owner (sy_gate s) = Some (Executing i) \<longleftrightarrow> sy_control s i = Running" for i
    using inv by (simp add: gate_inv_def)
  from this [of j] this [of k] have "sy_control s j = Running \<and> sy_control s k = Running \<longrightarrow> j = k"
    "gt_owner (sy_gate s) = Some (Maintenance m) \<longrightarrow> sy_control s k \<noteq> Running" by auto
  moreover have "0 \<le> gt_active (sy_gate s) \<and> gt_active (sy_gate s) \<le> 1"
    using inv by (auto simp: gate_inv_def split: option.splits holder.splits)
  ultimately show ?thesis using inv by (auto simp: gate_inv_def)
qed

text \<open>
  C34. Turns are first come, first served: a step keeps the order of the operations that go on
  waiting and adds at most one at the end, and only an operation at the head of the queue, or one
  that finds it empty, begins to execute.
\<close>

theorem turns_are_fifo:
  assumes "make_gate n w now = Inr g" "gate_reachable g now s" "gate_step s t"
  shows "(\<exists>joined. gt_waiters (sy_gate t) = filter (\<lambda>x. waits (sy_control t x)) (gt_waiters (sy_gate s)) @ joined \<and> length joined \<le> 1)
    \<and> (\<forall>k. sy_control t k = Running \<and> sy_control s k \<noteq> Running \<longrightarrow> gt_waiters (sy_gate s) = [] \<or> hd (gt_waiters (sy_gate s)) = k)"
proof -
  have "gate_inv n s" by (rule gate_reachable_inv [OF assms(2,1)])
  then have "queue_inv (sy_gate s) (sy_control s)" by (simp add: gate_inv_split)
  then show ?thesis using gate_step_order [OF assms(3)] gate_step_turn [OF assms(3)] by blast
qed

section \<open>A run\<close>

text \<open>
  Operation 1 executes, operation 2 waits, operation 1 yields at a checkpoint and operation 2
  wakes to its turn.
\<close>

definition demo_gate :: gate where
  "demo_gate = (case make_gate 1 2000000 0 of Inr g \<Rightarrow> g | Inl _ \<Rightarrow> undefined)"

definition gate_demo :: system where
  "gate_demo = \<lparr>sy_gate = demo_gate, sy_now = 0, sy_control = (\<lambda>_. Outside)\<rparr>"

definition demo_admit :: "uuid \<Rightarrow> system \<Rightarrow> system" where
  "demo_admit k s = moved k Admitted (lease_update k (\<lambda>_. new_lease 30000000) ((sy_gate s)\<lparr>gt_permits := gt_permits (sy_gate s) - 1\<rparr>)) s"

definition demo_join :: "uuid \<Rightarrow> system \<Rightarrow> system" where
  "demo_join k s = after_wait k (sy_now s) (sy_now s + gt_wait (sy_gate s)) False
     (attempt k (sy_now s) (sy_now s + gt_wait (sy_gate s)) False True (sy_now s) (enqueue k (sy_gate s))) s"

definition demo_yield :: "uuid \<Rightarrow> system \<Rightarrow> system" where
  "demo_yield k s = (let deadline = sy_now s + ls_remaining (gt_leases (sy_gate s) k)
     in after_wait k (sy_now s) deadline True
       (attempt k (sy_now s) deadline True True (sy_now s) (enqueue k (release_execution k (sy_now s) (sy_gate s)))) s)"

definition demo_wake :: "uuid \<Rightarrow> system \<Rightarrow> system" where
  "demo_wake k s = (case sy_control s k of
     InQueue started deadline cooperative \<Rightarrow>
       after_wait k started deadline cooperative (attempt k started deadline cooperative False (sy_now s) (sy_gate s)) s
   | _ \<Rightarrow> s)"

definition demo_queued :: system where
  "demo_queued = demo_yield 1 (demo_join 2 (demo_admit 2 (demo_join 1 (demo_admit 1 gate_demo))))"

lemmas gate_demo_defs = gate_demo_def demo_gate_def make_gate_def demo_admit_def demo_join_def demo_yield_def demo_wake_def
  after_wait_def attempt_def gate_parts moved_def new_lease_def

lemma demo_gate_made: "make_gate 1 2000000 0 = Inr demo_gate"
  by (simp add: demo_gate_def make_gate_def)

lemma demo_admit_step: "sy_control s k = Outside \<Longrightarrow> 0 < gt_permits (sy_gate s) \<Longrightarrow> gate_step s (demo_admit k s)"
  unfolding demo_admit_def by (rule admit) simp_all

lemma demo_join_step: "sy_control s k = Admitted \<Longrightarrow> gate_step s (demo_join k s)"
  unfolding demo_join_def by (rule join) simp_all

lemma demo_yield_step: "sy_control s k = Running \<Longrightarrow> gt_waiters (sy_gate s) \<noteq> [] \<Longrightarrow> gate_step s (demo_yield k s)"
  unfolding demo_yield_def Let_def by (rule checkpoint) simp_all

lemma demo_wake_step: "sy_control s k = InQueue st dl co \<Longrightarrow> gate_step s (demo_wake k s)"
  unfolding demo_wake_def by (simp add: wake)

lemma demo_queued_reachable: "gate_reachable demo_gate 0 demo_queued"
  unfolding demo_queued_def
  by (intro gate_reachable.step [OF _ demo_yield_step] gate_reachable.step [OF _ demo_join_step]
      gate_reachable.step [OF _ demo_admit_step] gate_reachable.start [of demo_gate 0, folded gate_demo_def])
    (simp_all add: gate_demo_defs)

lemma demo_turn:
  "sy_control demo_queued 1 = InQueue 0 30000000 True" "sy_control demo_queued 2 = InQueue 0 2000000 False"
  "gt_waiters (sy_gate demo_queued) = [2, 1]" "sy_control (demo_wake 2 demo_queued) 2 = Running"
  "gt_waiters (sy_gate (demo_wake 2 demo_queued)) = [1]"
  unfolding demo_queued_def by (simp_all add: gate_demo_defs)

theorem inference_is_exclusive_witness:
  "sy_control (demo_wake 2 demo_queued) 2 = Running \<and> sy_control (demo_wake 2 demo_queued) 1 \<noteq> Running"
proof -
  have "gate_reachable demo_gate 0 (demo_wake 2 demo_queued)"
    by (rule gate_reachable.step [OF demo_queued_reachable demo_wake_step [OF demo_turn(2)]])
  from inference_is_exclusive [OF demo_gate_made this, of 2 1] show ?thesis by (simp add: demo_turn)
qed

theorem turns_are_fifo_witness:
  "gate_step demo_queued (demo_wake 2 demo_queued) \<and> hd (gt_waiters (sy_gate demo_queued)) = 2"
proof -
  have step: "gate_step demo_queued (demo_wake 2 demo_queued)" by (rule demo_wake_step [OF demo_turn(2)])
  from turns_are_fifo [OF demo_gate_made demo_queued_reachable step] step show ?thesis
    by (simp add: demo_turn)
qed

end
