(* ===== verification/Trust_Lifecycle.thy ===== *)
theory Trust_Lifecycle
  imports Complex_Main Prelude
begin

text \<open>
  The trust layer of the local profile (\<open>trust_lifecycle.py\<close>): one record per drawer, pairwise
  conflicts and a history, with the tools that change them (\<open>mcp_server.py\<close>), the verdicts of the
  contradiction detector and the quarantine of the memory guard. Every operation of
  \<open>DrawerTrust\<close> is one transaction on its own connection. The other writers of these tables are
  modelled by what they do to them: the ingestion of drawers and their deletion (\<open>ingestion.py\<close>),
  the nightly change of a room (\<open>librarian.py\<close>), the replay of a rollback (\<open>legacy_rollback.py\<close>) and
  the deletions that a restore takes over (\<open>legacy_archive.py\<close>). Confidences are reals; SHA-1 is a
  parameter. Where SQLite leaves the order of equal confidences open, the rows keep table order.
\<close>

section \<open>Tables\<close>

datatype trust_status = Current | Superseded | Contested | Historical | Quarantined

record trust_row =
  tr_drawer :: string
  tr_status :: trust_status
  tr_confidence :: real
  tr_valid_from :: "string option"
  tr_valid_to :: "string option"
  tr_created :: time
  tr_updated :: time
  tr_superseded_by :: "string option"
  tr_verifications :: nat
  tr_challenges :: nat
  tr_wing :: string
  tr_room :: string

record conflict_row =
  cf_id :: string
  cf_a :: string
  cf_b :: string
  cf_type :: string
  cf_confidence :: real
  cf_resolved :: bool
  cf_resolved_by :: "string option"
  cf_note :: "string option"
  cf_created :: time
  cf_resolved_at :: "time option"

record history_row =
  hs_drawer :: string
  hs_old :: "trust_status option"
  hs_new :: trust_status
  hs_old_confidence :: "real option"
  hs_new_confidence :: real
  hs_reason :: string
  hs_by :: string
  hs_at :: time

text \<open>
  \<open>td_paused\<close> is the marker \<open>require_writable\<close> looks for on every connection; \<open>td_deletions\<close> holds the
  (collection, drawer) keys of \<open>drawer_deletions\<close>.
\<close>

record trust_db =
  td_trust :: "trust_row list"
  td_conflicts :: "conflict_row list"
  td_history :: "history_row list"
  td_deletions :: "(string \<times> string) list"
  td_paused :: bool

definition empty_trust :: trust_db where
  "empty_trust = \<lparr>td_trust = [], td_conflicts = [], td_history = [], td_deletions = [], td_paused = False\<rparr>"

definition trust_of :: "string \<Rightarrow> trust_db \<Rightarrow> trust_row option" where
  "trust_of d db = find (\<lambda>r. tr_drawer r = d) (td_trust db)"

definition drawers :: "trust_db \<Rightarrow> string set" where
  "drawers db = tr_drawer ` set (td_trust db)"

definition connect :: "(trust_db, 'a) tx \<Rightarrow> (trust_db, 'a) tx" where
  "connect m = (\<lambda>db. if td_paused db then Inl RuntimeError else m db)"

definition update_trust :: "string \<Rightarrow> (trust_row \<Rightarrow> trust_row) \<Rightarrow> trust_db \<Rightarrow> trust_db" where
  "update_trust d f db = db\<lparr>td_trust := map (\<lambda>r. if tr_drawer r = d then f r else r) (td_trust db)\<rparr>"

definition log_history :: "string \<Rightarrow> trust_status option \<Rightarrow> trust_status \<Rightarrow> real option \<Rightarrow> real \<Rightarrow> string \<Rightarrow> string
    \<Rightarrow> time \<Rightarrow> trust_db \<Rightarrow> trust_db" where
  "log_history d old new oldc newc reason changed_by at_time db = db\<lparr>td_history := td_history db @
     [\<lparr>hs_drawer = d, hs_old = old, hs_new = new, hs_old_confidence = oldc, hs_new_confidence = newc,
       hs_reason = reason, hs_by = changed_by, hs_at = at_time\<rparr>]\<rparr>"

definition new_trust :: "string \<Rightarrow> real \<Rightarrow> string option \<Rightarrow> string \<Rightarrow> string \<Rightarrow> time \<Rightarrow> trust_row" where
  "new_trust d confidence valid_from wing room now =
     \<lparr>tr_drawer = d, tr_status = Current, tr_confidence = confidence, tr_valid_from = valid_from,
      tr_valid_to = None, tr_created = now, tr_updated = now, tr_superseded_by = None,
      tr_verifications = 0, tr_challenges = 0, tr_wing = wing, tr_room = room\<rparr>"

definition insert_trust :: "trust_row \<Rightarrow> trust_db \<Rightarrow> trust_db" where
  "insert_trust r db = db\<lparr>td_trust := td_trust db @ [r]\<rparr>"

section \<open>Operations\<close>

text \<open>Operations that read the clock twice take both readings.\<close>

definition create :: "string \<Rightarrow> string \<Rightarrow> string \<Rightarrow> real \<Rightarrow> string option \<Rightarrow> time \<Rightarrow> time
    \<Rightarrow> (trust_db, string \<times> trust_status \<times> real) tx" where
  "create d wing room confidence valid_from now later = connect (\<lambda>db.
     let db' = (if trust_of d db \<noteq> None then db
                else log_history d None Current None confidence ''created'' ''system'' later
                  (insert_trust (new_trust d confidence valid_from wing room now) db))
     in case trust_of d db' of
          None \<Rightarrow> Inl RuntimeError
        | Some r \<Rightarrow> Inr ((d, tr_status r, tr_confidence r), db'))"

definition get_trust :: "string \<Rightarrow> (trust_db, trust_row option) tx" where
  "get_trust d = connect (\<lambda>db. Inr (trust_of d db, db))"

definition coalesce :: "'a option \<Rightarrow> 'a option \<Rightarrow> 'a option" where
  "coalesce a b = (case a of None \<Rightarrow> b | Some x \<Rightarrow> Some x)"

text \<open>\<open>None\<close> is the error result for an unknown drawer.\<close>

definition update_status :: "string \<Rightarrow> trust_status \<Rightarrow> real option \<Rightarrow> string option \<Rightarrow> string option \<Rightarrow> string \<Rightarrow> string
    \<Rightarrow> time \<Rightarrow> time \<Rightarrow> (trust_db, (trust_status \<times> trust_status \<times> real) option) tx" where
  "update_status d new confidence superseded_by valid_to reason changed_by now later = connect (\<lambda>db.
     case trust_of d db of
       None \<Rightarrow> Inr (None, db)
     | Some r \<Rightarrow>
         let new_conf = (case confidence of Some c \<Rightarrow> c | None \<Rightarrow> tr_confidence r)
         in if (case superseded_by of None \<Rightarrow> False | Some b \<Rightarrow> trust_of b db = None)
            then Inl (DatabaseError ''drawer_trust.superseded_by'')
            else Inr (Some (tr_status r, new, new_conf),
              log_history d (Some (tr_status r)) new (Some (tr_confidence r)) new_conf reason changed_by later
                (update_trust d (\<lambda>r. r\<lparr>tr_status := new, tr_confidence := new_conf,
                  tr_superseded_by := coalesce superseded_by (tr_superseded_by r),
                  tr_valid_to := coalesce valid_to (tr_valid_to r), tr_updated := now\<rparr>) db)))"

definition verify :: "string \<Rightarrow> time \<Rightarrow> (trust_db, (nat \<times> real) option) tx" where
  "verify d now = connect (\<lambda>db.
     let db' = update_trust d (\<lambda>r. r\<lparr>tr_verifications := tr_verifications r + 1,
           tr_confidence := min 1 (tr_confidence r + 5 / 100), tr_updated := now\<rparr>) db
     in Inr (map_option (\<lambda>r. (tr_verifications r, tr_confidence r)) (trust_of d db'), db'))"

definition challenge :: "string \<Rightarrow> time \<Rightarrow> (trust_db, (nat \<times> real) option) tx" where
  "challenge d now = connect (\<lambda>db.
     let db' = update_trust d (\<lambda>r. r\<lparr>tr_challenges := tr_challenges r + 1,
           tr_confidence := max (1 / 10) (tr_confidence r - 1 / 10), tr_updated := now\<rparr>) db
     in Inr (map_option (\<lambda>r. (tr_challenges r, tr_confidence r)) (trust_of d db'), db'))"

definition conflict_id :: "(string \<Rightarrow> string) \<Rightarrow> string \<Rightarrow> string \<Rightarrow> string \<Rightarrow> string" where
  "conflict_id sha1 a b ty = ''cf_'' @ take 16 (sha1 (a @ '':'' @ b @ '':'' @ ty))"

definition record_conflict :: "(string \<Rightarrow> string) \<Rightarrow> string \<Rightarrow> string \<Rightarrow> string \<Rightarrow> real \<Rightarrow> time \<Rightarrow> (trust_db, string) tx" where
  "record_conflict sha1 a b ty confidence now = connect (\<lambda>db.
     let k = conflict_id sha1 a b ty
     in if \<exists>c\<in>set (td_conflicts db). cf_id c = k then Inr (k, db)
        else if trust_of a db = None \<or> trust_of b db = None then Inl (DatabaseError ''drawer_conflicts.drawer_id'')
        else Inr (k, db\<lparr>td_conflicts := td_conflicts db @ [\<lparr>cf_id = k, cf_a = a, cf_b = b, cf_type = ty,
          cf_confidence = confidence, cf_resolved = False, cf_resolved_by = None, cf_note = None,
          cf_created = now, cf_resolved_at = None\<rparr>]\<rparr>))"

definition resolve_conflict :: "string \<Rightarrow> string \<Rightarrow> string \<Rightarrow> time \<Rightarrow> (trust_db, string \<times> time \<times> string) tx" where
  "resolve_conflict k resolved_by note now = connect (\<lambda>db.
     Inr ((k, now, resolved_by), db\<lparr>td_conflicts := map (\<lambda>c. if cf_id c = k
       then c\<lparr>cf_resolved := True, cf_resolved_by := Some resolved_by, cf_note := Some note, cf_resolved_at := Some now\<rparr>
       else c) (td_conflicts db)\<rparr>))"

definition get_pending_conflicts :: "nat \<Rightarrow> (trust_db, conflict_row list) tx" where
  "get_pending_conflicts limit = connect (\<lambda>db.
     Inr (take limit (sort_key (\<lambda>c. - cf_confidence c) (filter (\<lambda>c. \<not> cf_resolved c) (td_conflicts db))), db))"

definition get_contested :: "nat \<Rightarrow> (trust_db, trust_row list) tx" where
  "get_contested limit = connect (\<lambda>db.
     Inr (take limit (sort_key tr_confidence (filter (\<lambda>r. tr_status r = Contested) (td_trust db))), db))"

definition create_default :: "time \<Rightarrow> nat \<times> trust_db \<Rightarrow> string \<times> string \<times> string \<Rightarrow> nat \<times> trust_db" where
  "create_default now = (\<lambda>(inserted, db) (d, wing, room).
     if trust_of d db \<noteq> None then (inserted, db)
     else (inserted + 1, insert_trust (new_trust d 1 None wing room now) db))"

definition bulk_create_default :: "(string \<times> string \<times> string) list \<Rightarrow> time \<Rightarrow> (trust_db, nat) tx" where
  "bulk_create_default ids now = connect (\<lambda>db. Inr (foldl (create_default now) (0, db) ids))"

section \<open>Tools, verdicts and quarantine\<close>

text \<open>
  Each calls several operations. Once the first has passed none of the later ones can raise, so
  the sequence leaves what its single commits leave.
\<close>

definition tool_verify_drawer :: "string \<Rightarrow> time \<Rightarrow> (trust_db, (nat \<times> real) option) tx" where
  "tool_verify_drawer d now = tx_bind (get_trust d) (\<lambda>r.
     case r of None \<Rightarrow> tx_return None | Some _ \<Rightarrow> verify d now)"

definition tool_challenge_drawer :: "string \<Rightarrow> string \<Rightarrow> time \<Rightarrow> time \<Rightarrow> (trust_db, (nat \<times> real) option) tx" where
  "tool_challenge_drawer d reason now later = tx_bind (get_trust d) (\<lambda>r.
     case r of None \<Rightarrow> tx_return None
     | Some _ \<Rightarrow> tx_bind (challenge d now) (\<lambda>result.
         if reason \<noteq> [] then tx_then (update_status d Contested None None None reason ''mcp'' later later) (tx_return result)
         else tx_return result))"

definition resolve_between :: "string \<Rightarrow> string \<Rightarrow> string \<Rightarrow> time \<Rightarrow> conflict_row \<Rightarrow> (trust_db, unit) tx" where
  "resolve_between d winner note now c =
     (if {cf_a c, cf_b c} = {d, winner} then tx_then (resolve_conflict (cf_id c) winner note now) (tx_return ())
      else tx_return ())"

datatype contest = SameDrawer | NoRecord string | Won string string

definition tool_resolve_contest :: "string \<Rightarrow> string \<Rightarrow> string \<Rightarrow> time \<Rightarrow> (trust_db, contest) tx" where
  "tool_resolve_contest d winner note now =
     (if d = winner then tx_return SameDrawer
      else tx_bind (get_trust d) (\<lambda>r. if r = None then tx_return (NoRecord d)
      else tx_bind (get_trust winner) (\<lambda>r. if r = None then tx_return (NoRecord winner)
      else tx_then (update_status d Superseded None (Some winner) None (''manual resolution: '' @ note) ''user'' now now)
       (tx_then (update_status winner Current None None None (''manual resolution winner: '' @ note) ''user'' now now)
        (tx_bind (get_pending_conflicts 50) (\<lambda>pending.
          tx_then (tx_each (resolve_between d winner note now) pending) (tx_return (Won winner d))))))))"

datatype verdict = NoConflict | WinnerA | WinnerB | Ambiguous

definition apply_resolution :: "string \<Rightarrow> string \<Rightarrow> verdict \<Rightarrow> string \<Rightarrow> string \<Rightarrow> string \<Rightarrow> time \<Rightarrow> (trust_db, unit) tx" where
  "apply_resolution new_id candidate v reason note k now = (case v of
       NoConflict \<Rightarrow> tx_then (resolve_conflict k ''llm_no_conflict'' note now) (tx_return ())
     | WinnerB \<Rightarrow> tx_bind (get_trust candidate) (\<lambda>r.
         tx_then (update_status candidate Superseded
             (Some (max (1 / 10) ((case r of None \<Rightarrow> 1 | Some x \<Rightarrow> tr_confidence x) - 3 / 10))) (Some new_id) None reason ''llm'' now now)
           (tx_then (resolve_conflict k new_id note now) (tx_return ())))
     | WinnerA \<Rightarrow> tx_then (update_status new_id Superseded (Some (3 / 10)) (Some candidate) None reason ''llm'' now now)
         (tx_then (resolve_conflict k candidate note now) (tx_return ()))
     | Ambiguous \<Rightarrow> tx_then (update_status candidate Contested None None None reason ''llm'' now now)
         (tx_then (update_status new_id Contested None None None reason ''llm'' now now) (tx_return ())))"

definition quarantine_drawer :: "string \<Rightarrow> string \<Rightarrow> time \<Rightarrow> (trust_db, (trust_status \<times> trust_status \<times> real) option) tx" where
  "quarantine_drawer d reason now = update_status d Quarantined (Some 0) None None
     (if reason = [] then ''memory guard quarantine'' else reason) ''memory_guard'' now now"

section \<open>The other writers\<close>

text \<open>
  \<open>_write_indexes\<close> gives a drawer its record (\<open>INSERT OR IGNORE\<close>): current, or quarantined for an import
  that must be reviewed. \<open>recover\<close> and \<open>reconcile\<close> call it unless the drawer is deleted.
\<close>

definition index_trust :: "string \<Rightarrow> string \<Rightarrow> string \<Rightarrow> bool \<Rightarrow> time \<Rightarrow> trust_db \<Rightarrow> trust_db" where
  "index_trust d wing room quarantine_new now db =
     (if trust_of d db \<noteq> None then db
      else let status = (if quarantine_new then Quarantined else Current);
               confidence = (if quarantine_new then 1 / 2 else 1)
           in log_history d None status None confidence
                (if quarantine_new then ''drawer-only import requires review'' else ''created'') ''ingestion'' now
                (insert_trust ((new_trust d confidence None wing room now)\<lparr>tr_status := status\<rparr>) db))"

definition ingest :: "string \<Rightarrow> string \<Rightarrow> string \<Rightarrow> string \<Rightarrow> bool \<Rightarrow> time \<Rightarrow> (trust_db, unit) tx" where
  "ingest collection d wing room quarantine_new now = connect (\<lambda>db.
     Inr ((), if (collection, d) \<in> set (td_deletions db) then db
              else index_trust d wing room quarantine_new now db))"

definition deny :: "string \<Rightarrow> string \<Rightarrow> trust_db \<Rightarrow> trust_db" where
  "deny collection d db = (if (collection, d) \<in> set (td_deletions db) then db
     else db\<lparr>td_deletions := td_deletions db @ [(collection, d)]\<rparr>)"

definition request_deletion :: "string \<Rightarrow> string \<Rightarrow> (trust_db, unit) tx" where
  "request_deletion collection d = connect (\<lambda>db. Inr ((), deny collection d db))"

text \<open>\<open>_delete_indexes\<close>: the entry of a deletion leaves the columns of the old status and confidence empty.\<close>

definition delete_indexes :: "string \<Rightarrow> time \<Rightarrow> (trust_db, unit) tx" where
  "delete_indexes d now = connect (\<lambda>db. Inr ((),
     case trust_of d db of
       None \<Rightarrow> db
     | Some r \<Rightarrow> if tr_status r = Historical then db
         else log_history d None Historical None 0 ''drawer deleted'' ''ingestion'' now
                (update_trust d (\<lambda>r. r\<lparr>tr_status := Historical, tr_confidence := 0, tr_updated := now\<rparr>) db)))"

text \<open>These three write on connections of their own, which do not look for the marker.\<close>

definition change_room :: "string \<Rightarrow> string \<Rightarrow> time \<Rightarrow> trust_db \<Rightarrow> trust_db" where
  "change_room d room now db = update_trust d (\<lambda>r. r\<lparr>tr_room := room, tr_updated := now\<rparr>) db"

definition set_validity :: "string \<Rightarrow> string option \<Rightarrow> string option \<Rightarrow> trust_db \<Rightarrow> trust_db" where
  "set_validity d valid_from valid_to db =
     update_trust d (\<lambda>r. r\<lparr>tr_valid_from := valid_from, tr_valid_to := valid_to\<rparr>) db"

definition restore_denials :: "(string \<times> string) list \<Rightarrow> trust_db \<Rightarrow> trust_db" where
  "restore_denials deletions db = foldl (\<lambda>db (collection, d). deny collection d db) db deletions"

section \<open>Any sequence of operations\<close>

datatype trust_event =
    Create string string string real "string option" time time
  | Update string trust_status "real option" "string option" "string option" string string time time
  | Verify string time
  | Challenge string time
  | RecordConflict string string string real time
  | ResolveConflict string string string time
  | BulkCreate "(string \<times> string \<times> string) list" time
  | Ingest string string string string bool time
  | RequestDeletion string string
  | DeleteIndexes string time
  | ChangeRoom string string time
  | SetValidity string "string option" "string option"
  | RestoreDenials "(string \<times> string) list"

definition kept :: "trust_db \<Rightarrow> error + ('a \<times> trust_db) \<Rightarrow> trust_db" where
  "kept db r = (case r of Inl _ \<Rightarrow> db | Inr (_, db') \<Rightarrow> db')"

fun trust_apply :: "(string \<Rightarrow> string) \<Rightarrow> trust_event \<Rightarrow> trust_db \<Rightarrow> trust_db" where
  "trust_apply sha1 (Create d w rm c vf now later) db = kept db (create d w rm c vf now later db)"
| "trust_apply sha1 (Update d st c sb vt rs cb now later) db = kept db (update_status d st c sb vt rs cb now later db)"
| "trust_apply sha1 (Verify d now) db = kept db (verify d now db)"
| "trust_apply sha1 (Challenge d now) db = kept db (challenge d now db)"
| "trust_apply sha1 (RecordConflict a b ty c now) db = kept db (record_conflict sha1 a b ty c now db)"
| "trust_apply sha1 (ResolveConflict k rb note now) db = kept db (resolve_conflict k rb note now db)"
| "trust_apply sha1 (BulkCreate ids now) db = kept db (bulk_create_default ids now db)"
| "trust_apply sha1 (Ingest k d w rm q now) db = kept db (ingest k d w rm q now db)"
| "trust_apply sha1 (RequestDeletion k d) db = kept db (request_deletion k d db)"
| "trust_apply sha1 (DeleteIndexes d now) db = kept db (delete_indexes d now db)"
| "trust_apply sha1 (ChangeRoom d rm now) db = change_room d rm now db"
| "trust_apply sha1 (SetValidity d vf vt) db = set_validity d vf vt db"
| "trust_apply sha1 (RestoreDenials ks) db = restore_denials ks db"

definition trust_step :: "(string \<Rightarrow> string) \<Rightarrow> trust_db \<Rightarrow> trust_event \<Rightarrow> trust_db res" where
  "trust_step sha1 db e = Inr (trust_apply sha1 e db)"

end
