(* ===== verification/Trust_Properties.thy ===== *)
theory Trust_Properties
  imports Trust_Lifecycle
begin

text \<open>
  The trust tables stay consistent under any sequence of operations: references resolve, the
  history tells every status and its entries chain, confidences stay in their bounds, and what
  resolving a contest does.
\<close>

section \<open>Tables\<close>

lemma trust_of_Some: "trust_of d db = Some r \<Longrightarrow> r \<in> set (td_trust db) \<and> tr_drawer r = d"
  unfolding trust_of_def by (induction "td_trust db" arbitrary: db) (auto simp: find_Some_iff)



lemma trust_of_unique:
  "distinct (map tr_drawer (td_trust db)) \<Longrightarrow> r \<in> set (td_trust db) \<Longrightarrow> trust_of (tr_drawer r) db = Some r"
proof -
  have "distinct (map tr_drawer rs) \<Longrightarrow> r \<in> set rs \<Longrightarrow> find (\<lambda>x. tr_drawer x = tr_drawer r) rs = Some r" for rs
    by (induction rs) (auto dest: image_eqI [of _ tr_drawer])
  then show "distinct (map tr_drawer (td_trust db)) \<Longrightarrow> r \<in> set (td_trust db) \<Longrightarrow> trust_of (tr_drawer r) db = Some r"
    by (simp add: trust_of_def)
qed

lemma log_history_frame [simp]:
  "td_trust (log_history d o1 n oc nc rs cb t db) = td_trust db"
  "td_conflicts (log_history d o1 n oc nc rs cb t db) = td_conflicts db"
  "drawers (log_history d o1 n oc nc rs cb t db) = drawers db"
  "trust_of x (log_history d o1 n oc nc rs cb t db) = trust_of x db"
  by (simp_all add: log_history_def drawers_def trust_of_def)

lemma update_trust_frame [simp]:
  "td_conflicts (update_trust d f db) = td_conflicts db" "td_history (update_trust d f db) = td_history db"
  "td_paused (update_trust d f db) = td_paused db" "td_deletions (update_trust d f db) = td_deletions db"
  by (simp_all add: update_trust_def)

lemma insert_trust_frame [simp]:
  "td_conflicts (insert_trust r db) = td_conflicts db" "td_history (insert_trust r db) = td_history db"
  "td_trust (insert_trust r db) = td_trust db @ [r]" "drawers (insert_trust r db) = insert (tr_drawer r) (drawers db)"
  by (auto simp: insert_trust_def drawers_def)

lemma map_drawers_update:
  "(\<And>r. tr_drawer (f r) = tr_drawer r) \<Longrightarrow> map tr_drawer (td_trust (update_trust d f db)) = map tr_drawer (td_trust db)"
  by (simp add: update_trust_def)

lemma drawers_update [simp]: "(\<And>r. tr_drawer (f r) = tr_drawer r) \<Longrightarrow> drawers (update_trust d f db) = drawers db"
  using arg_cong [OF map_drawers_update [of f d db], of set] by (simp add: drawers_def)

lemma trust_of_update:
  assumes "\<And>r. tr_drawer (f r) = tr_drawer r"
  shows "trust_of x (update_trust d f db) = (if x = d then map_option f (trust_of d db) else trust_of x db)"
proof -
  have "find (\<lambda>r. tr_drawer r = x) (map (\<lambda>r. if tr_drawer r = d then f r else r) rs)
      = (if x = d then map_option f (find (\<lambda>r. tr_drawer r = d) rs) else find (\<lambda>r. tr_drawer r = x) rs)" for rs
    by (induction rs) (auto simp: assms)
  then show ?thesis by (simp add: trust_of_def update_trust_def)
qed

lemma trust_of_insert: "trust_of x (insert_trust r db) = (case trust_of x db of Some q \<Rightarrow> Some q
    | None \<Rightarrow> if tr_drawer r = x then Some r else None)"
proof -
  have "find (\<lambda>r. tr_drawer r = x) (rs @ [r]) = (case find (\<lambda>r. tr_drawer r = x) rs of Some q \<Rightarrow> Some q
    | None \<Rightarrow> if tr_drawer r = x then Some r else None)" for rs
    by (induction rs) simp_all
  then show ?thesis by (simp add: trust_of_def insert_trust_def)
qed

section \<open>What the history tells\<close>

definition told :: "string \<Rightarrow> history_row list \<Rightarrow> trust_status" where
  "told d hs = foldl (\<lambda>s h. if hs_drawer h = d then hs_new h else s) Current hs"




lemma told_snoc [simp]: "told d (hs @ [h]) = (if hs_drawer h = d then hs_new h else told d hs)"
  by (simp add: told_def)



definition references_ok :: "trust_db \<Rightarrow> bool" where
  "references_ok db \<longleftrightarrow> distinct (map tr_drawer (td_trust db))
     \<and> (\<forall>r\<in>set (td_trust db). set_option (tr_superseded_by r) \<subseteq> drawers db)
     \<and> (\<forall>c\<in>set (td_conflicts db). cf_a c \<in> drawers db \<and> cf_b c \<in> drawers db)
     \<and> distinct (map cf_id (td_conflicts db))"



lemma references_ok_log [simp]: "references_ok (log_history d o1 n oc nc rs cb t db) = references_ok db"
  by (simp add: references_ok_def)








section \<open>Every operation\<close>

lemma kept_connect [simp]: "kept db (connect m db) = (if td_paused db then db else kept db (m db))"
  by (simp add: kept_def connect_def)

lemma kept_simps [simp]: "kept db (Inr p) = snd p" "kept db (Inl e) = db"
  by (simp_all add: kept_def case_prod_unfold)

lemma kept_if [simp]: "kept db (if b then m else n) = (if b then kept db m else kept db n)"
  by simp

lemma coalesce_set: "set_option (coalesce a b) \<subseteq> set_option a \<union> set_option b"
  by (cases a) (simp_all add: coalesce_def)

lemma kept_create:
  "kept db (create d w rm c vf now later db) = (if td_paused db \<or> trust_of d db \<noteq> None then db
     else log_history d None Current None c ''created'' ''system'' later (insert_trust (new_trust d c vf w rm now) db))"
  by (cases "trust_of d db") (simp_all add: create_def connect_def kept_def trust_of_insert, simp add: new_trust_def)

lemma kept_update:
  "kept db (update_status d st c sb vt rs cb now later db) =
     (case trust_of d db of
        Some r \<Rightarrow>
          if td_paused db \<or> (case sb of None \<Rightarrow> False | Some b \<Rightarrow> trust_of b db = None) then db
          else let new_conf = (case c of Some x \<Rightarrow> x | None \<Rightarrow> tr_confidence r)
            in log_history d (Some (tr_status r)) st (Some (tr_confidence r)) new_conf rs cb later
                (update_trust d (\<lambda>r. r\<lparr>tr_status := st, tr_confidence := new_conf,
                  tr_superseded_by := coalesce sb (tr_superseded_by r),
                  tr_valid_to := coalesce vt (tr_valid_to r), tr_updated := now\<rparr>) db)
      | None \<Rightarrow> db)"
  by (cases "trust_of d db") (simp_all add: update_status_def connect_def kept_def Let_def)






lemma deny_frame [simp]:
  "td_trust (deny k d db) = td_trust db" "td_conflicts (deny k d db) = td_conflicts db"
  "td_history (deny k d db) = td_history db" "drawers (deny k d db) = drawers db"
  by (simp_all add: deny_def drawers_def)

lemma restore_denials_frame [simp]:
  "td_trust (restore_denials ks db) = td_trust db" "td_conflicts (restore_denials ks db) = td_conflicts db"
  "td_history (restore_denials ks db) = td_history db" "drawers (restore_denials ks db) = drawers db"
  by (induction ks arbitrary: db) (auto simp: restore_denials_def)








lemma bulk_history [simp]: "td_history (snd (foldl (create_default now) (k, db) ids)) = td_history db"
  by (induction ids arbitrary: k db) (auto simp: create_default_def)



section \<open>Confidences\<close>

definition confident :: "trust_event \<Rightarrow> bool" where
  "confident e = (case e of Create _ _ _ c _ _ _ \<Rightarrow> 0 \<le> c \<and> c \<le> 1 | Update _ _ (Some c) _ _ _ _ _ _ \<Rightarrow> 0 \<le> c \<and> c \<le> 1 | _ \<Rightarrow> True)"

definition bounded_trust :: "trust_db \<Rightarrow> bool" where
  "bounded_trust db \<longleftrightarrow> (\<forall>r\<in>set (td_trust db). 0 \<le> tr_confidence r \<and> tr_confidence r \<le> 1)"

lemma bounded_update:
  assumes "bounded_trust db" "\<And>r. 0 \<le> tr_confidence r \<Longrightarrow> tr_confidence r \<le> 1 \<Longrightarrow> 0 \<le> tr_confidence (f r) \<and> tr_confidence (f r) \<le> 1"
  shows "bounded_trust (update_trust d f db)"
  using assms by (auto simp: bounded_trust_def update_trust_def)

lemma bounded_bulk: "bounded_trust db \<Longrightarrow> bounded_trust (snd (foldl (create_default now) (k, db) ids))"
proof (induction ids arbitrary: k db)
  case (Cons x ids)
  obtain d w rm where x: "x = (d, w, rm)" by (cases x)
  have "bounded_trust (insert_trust (new_trust d 1 None w rm now) db)"
    using Cons.prems by (auto simp: bounded_trust_def new_trust_def)
  then show ?case using Cons by (simp add: x create_default_def)
qed simp

lemma bounded_log [simp]: "bounded_trust (log_history d o1 n oc nc rs cb t db) = bounded_trust db"
  by (simp add: bounded_trust_def)

lemma bounded_apply:
  assumes "bounded_trust db" "confident e" shows "bounded_trust (trust_apply sha1 e db)"
proof (cases e)
  case (Create d w rm c vf now later)
  then show ?thesis using assms by (simp add: kept_create) (auto simp: bounded_trust_def confident_def new_trust_def)
next
  case (Update d st c sb vt rs cb now later)
  have "0 \<le> x \<and> x \<le> 1" if "trust_of d db = Some r" "x = (case c of Some x \<Rightarrow> x | None \<Rightarrow> tr_confidence r)" for r x
    using that assms trust_of_Some [OF that(1)] by (auto simp: Update confident_def bounded_trust_def split: option.splits)
  then show ?thesis using assms
    by (cases "trust_of d db") (simp_all add: Update kept_update Let_def bounded_update)
next
  case (Verify d now)
  then show ?thesis using assms by (simp add: verify_def Let_def bounded_update)
next
  case (Challenge d now)
  then show ?thesis using assms by (simp add: challenge_def Let_def bounded_update)
next
  case (RecordConflict a b ty c now)
  then show ?thesis using assms by (simp add: record_conflict_def Let_def bounded_trust_def)
next
  case (ResolveConflict k rb nt now)
  then show ?thesis using assms by (simp add: resolve_conflict_def bounded_trust_def)
next
  case (BulkCreate ids now)
  then show ?thesis using assms by (simp add: bulk_create_default_def bounded_bulk)
next
  case (Ingest k d w rm q now)
  then show ?thesis using assms by (auto simp: ingest_def index_trust_def Let_def bounded_trust_def new_trust_def)
next
  case (RequestDeletion k d)
  then show ?thesis using assms by (simp add: request_deletion_def bounded_trust_def)
next
  case (DeleteIndexes d now)
  then show ?thesis using assms by (cases "trust_of d db") (simp_all add: delete_indexes_def bounded_update)
next
  case (ChangeRoom d rm now)
  then show ?thesis using assms by (auto simp: change_room_def bounded_trust_def update_trust_def)
next
  case (SetValidity d vf vt)
  then show ?thesis using assms by (auto simp: set_validity_def bounded_trust_def update_trust_def)
next
  case (RestoreDenials ks)
  then show ?thesis using assms by (simp add: bounded_trust_def)
qed

lemma bounded_run:
  "bounded_trust db \<Longrightarrow> list_all confident es \<Longrightarrow> run_events (trust_step sha1) db es = Inr db' \<Longrightarrow> bounded_trust db'"
proof (induction es arbitrary: db)
  case (Cons e es)
  have "bounded_trust (trust_apply sha1 e db)" using Cons.prems by (simp add: bounded_apply)
  moreover have "list_all confident es" "run_events (trust_step sha1) (trust_apply sha1 e db) es = Inr db'"
    using Cons.prems by (simp_all add: trust_step_def [of sha1 db e])
  ultimately show ?case by (rule Cons.IH)
qed simp

text \<open>C35. If the confidences that callers supply lie between 0 and 1, so do all stored ones, whatever
  is verified and challenged in between; verifying never lowers one, and challenging lowers one
  that is above the floor of a tenth, keeps the floor, and raises one below it to the floor.
\<close>

theorem confidences_stay_in_bounds:
  assumes "bounded_trust db" "list_all confident es" "run_events (trust_step sha1) db es = Inr db'" "\<not> td_paused db'" "trust_of d db' = Some r"
  shows "0 \<le> tr_confidence r \<and> tr_confidence r \<le> 1
    \<and> (\<exists>v. trust_of d (trust_apply sha1 (Verify d now) db') = Some v \<and> tr_confidence r \<le> tr_confidence v)
    \<and> (\<exists>v. trust_of d (trust_apply sha1 (Challenge d now) db') = Some v
        \<and> (1 / 10 < tr_confidence r \<longrightarrow> tr_confidence v < tr_confidence r)
        \<and> (tr_confidence r = 1 / 10 \<longrightarrow> tr_confidence v = tr_confidence r)
        \<and> (tr_confidence r < 1 / 10 \<longrightarrow> tr_confidence r < tr_confidence v))"
proof -
  have "bounded_trust db'" by (rule bounded_run [OF assms(1-3)])
  then have b: "0 \<le> tr_confidence r" "tr_confidence r \<le> 1"
    using trust_of_Some [OF assms(5)] by (auto simp: bounded_trust_def)
  then show ?thesis using assms(4,5)
    by (simp add: verify_def challenge_def Let_def trust_of_update)
qed


section \<open>Resolving a contest\<close>

definition settled :: "string \<Rightarrow> string \<Rightarrow> time \<Rightarrow> conflict_row \<Rightarrow> conflict_row" where
  "settled winner nt now c = c\<lparr>cf_resolved := True, cf_resolved_by := Some winner, cf_note := Some nt, cf_resolved_at := Some now\<rparr>"

definition settle :: "string set \<Rightarrow> string \<Rightarrow> string \<Rightarrow> time \<Rightarrow> conflict_row list \<Rightarrow> conflict_row list" where
  "settle ids winner nt now = map (\<lambda>c. if cf_id c \<in> ids then settled winner nt now c else c)"

definition between :: "string \<Rightarrow> string \<Rightarrow> conflict_row \<Rightarrow> bool" where
  "between d w c \<longleftrightarrow> {cf_a c, cf_b c} = {d, w}"

lemma settled_simps [simp]: "cf_id (settled w nt now c) = cf_id c" "cf_resolved (settled w nt now c)"
  "settled w nt now (settled w nt now c) = settled w nt now c" "between a b (settled w nt now c) = between a b c"
  by (simp_all add: settled_def between_def)

lemma resolve_runs: "\<not> td_paused db \<Longrightarrow> resolve_conflict k w nt now db =
    Inr ((k, now, w), db\<lparr>td_conflicts := settle {k} w nt now (td_conflicts db)\<rparr>)"
  by (simp add: resolve_conflict_def connect_def settle_def settled_def)

lemma settle_settle: "settle A w nt now (settle B w nt now cs) = settle (A \<union> B) w nt now cs"
  by (simp add: settle_def)

lemma settle_none [simp]: "settle {} w nt now cs = cs"
  by (simp add: settle_def)

lemma resolve_each:
  "\<not> td_paused db \<Longrightarrow> tx_each (resolve_between d w nt now) cs db =
     Inr ((), db\<lparr>td_conflicts := settle (cf_id ` {c \<in> set cs. between d w c}) w nt now (td_conflicts db)\<rparr>)"
proof (induction cs arbitrary: db)
  case Nil
  then show ?case by (simp add: tx_return_def)
next
  case (Cons c cs)
  show ?case
  proof (cases "between d w c")
    case True
    then have "{x \<in> set (c # cs). between d w x} = insert c {x \<in> set cs. between d w x}" by auto
    then show ?thesis using Cons True
      by (simp add: tx_then_at resolve_between_def between_def [symmetric] resolve_runs tx_return_def settle_settle Un_commute)
  next
    case False
    then have "{x \<in> set (c # cs). between d w x} = {x \<in> set cs. between d w x}" by auto
    then show ?thesis using Cons False
      by (simp add: tx_then_at resolve_between_def between_def [symmetric] tx_return_def)
  qed
qed

definition pending :: "trust_db \<Rightarrow> conflict_row list" where
  "pending db = sort_key (\<lambda>c. - cf_confidence c) (filter (\<lambda>c. \<not> cf_resolved c) (td_conflicts db))"

lemma pending_cong: "td_conflicts db = td_conflicts db' \<Longrightarrow> pending db = pending db'"
  by (simp add: pending_def)

lemma log_history_paused [simp]: "td_paused (log_history d o1 n oc nc rs cb t db) = td_paused db"
  by (simp add: log_history_def)

lemma update_status_runs:
  assumes "update_status d st None sb None rs cb now later db = Inr (res, db')" "trust_of d db = Some r"
  shows "\<not> td_paused db" "td_paused db' = td_paused db" "td_conflicts db' = td_conflicts db"
    "trust_of x db' = (if x = d then Some (r\<lparr>tr_status := st, tr_superseded_by := coalesce sb (tr_superseded_by r), tr_updated := now\<rparr>)
       else trust_of x db)"
  using assms by (auto simp: update_status_def connect_def Let_def trust_of_update coalesce_def split: if_splits)

lemma contest_runs:
  assumes "tool_resolve_contest d w nt now db = Inr (Won w' l, db')"
  shows "\<exists>rd rw. d \<noteq> w \<and> w' = w \<and> l = d \<and> trust_of d db = Some rd \<and> trust_of w db = Some rw
    \<and> (\<forall>x. trust_of x db' = (if x = d then Some (rd\<lparr>tr_status := Superseded, tr_superseded_by := Some w, tr_updated := now\<rparr>)
         else if x = w then Some (rw\<lparr>tr_status := Current, tr_updated := now\<rparr>) else trust_of x db))
    \<and> td_conflicts db' = settle (cf_id ` {c \<in> set (take 50 (pending db)). between d w c}) w nt now (td_conflicts db)"
proof -
  have ne: "d \<noteq> w" using assms by (auto simp: tool_resolve_contest_def tx_return_def)
  obtain rd rw where rows: "trust_of d db = Some rd" "trust_of w db = Some rw"
    using assms ne by (auto simp: tool_resolve_contest_def tx_runs get_trust_def connect_def tx_return_def split: if_splits)
  obtain a db1 b db2 where
    one: "update_status d Superseded None (Some w) None (''manual resolution: '' @ nt) ''user'' now now db = Inr (a, db1)"
    and two: "update_status w Current None None None (''manual resolution winner: '' @ nt) ''user'' now now db1 = Inr (b, db2)"
    and rest: "tx_bind (get_pending_conflicts 50) (\<lambda>pending.
          tx_then (tx_each (resolve_between d w nt now) pending) (tx_return (Won w d))) db2 = Inr (Won w' l, db')"
    using assms ne rows by (auto simp: tool_resolve_contest_def tx_runs get_trust_def connect_def split: if_splits)
  note u1 = update_status_runs [OF one rows(1)]
  have "trust_of w db1 = Some rw" using u1(4) [of w] ne rows by simp
  note u2 = update_status_runs [OF two this]
  have p: "pending db2 = pending db" by (rule pending_cong) (simp add: u1(3) u2(3))
  have "w' = w \<and> l = d \<and> db' = db2\<lparr>td_conflicts := settle (cf_id ` {c \<in> set (take 50 (pending db)). between d w c}) w nt now (td_conflicts db2)\<rparr>"
    using rest u1(1,2) u2(2) by (auto simp: get_pending_conflicts_def connect_def tx_bind_at tx_then_at resolve_each tx_return_def
      pending_def [symmetric] p)
  then show ?thesis using ne rows u1 u2
    by (intro exI [of _ rd] exI [of _ rw]) (auto simp: trust_of_def [of _ "db2\<lparr>td_conflicts := _\<rparr>"] trust_of_def [of _ db2, symmetric] coalesce_def)
qed


text \<open>Resolving a contest marks the loser as superseded by the winner and the winner as current,
  leaves every other record alone, and settles the pending conflicts between the two that are
  among the fifty most confident pending ones, and nothing else: none is left pending between the
  two when there are at most fifty pending conflicts.
\<close>

theorem contest_is_resolved:
  assumes "tool_resolve_contest d w nt now db = Inr (Won w' l, db')"
  shows "d \<noteq> w \<and> w' = w \<and> l = d
    \<and> (\<exists>r. trust_of d db' = Some r \<and> tr_status r = Superseded \<and> tr_superseded_by r = Some w)
    \<and> (\<exists>r. trust_of w db' = Some r \<and> tr_status r = Current)
    \<and> (x \<noteq> d \<and> x \<noteq> w \<longrightarrow> trust_of x db' = trust_of x db)
    \<and> td_conflicts db' = settle (cf_id ` {c \<in> set (take 50 (pending db)). between d w c}) w nt now (td_conflicts db)
    \<and> (length (pending db) \<le> 50 \<longrightarrow> (\<forall>c\<in>set (td_conflicts db'). between d w c \<longrightarrow> cf_resolved c))"
proof -
  have rest: "cf_resolved c" if "length (pending db) \<le> 50" "c \<in> set (td_conflicts db')" "between d w c"
    "td_conflicts db' = settle (cf_id ` {c \<in> set (take 50 (pending db)). between d w c}) w nt now (td_conflicts db)" for c
    using that by (auto simp: settle_def pending_def split: if_splits)
  show ?thesis using contest_runs [OF assms] rest by auto
qed

text \<open>A contested pair whose conflict is not among the fifty: it stays pending.\<close>

definition busy_conflict :: "string \<Rightarrow> string \<Rightarrow> string \<Rightarrow> real \<Rightarrow> conflict_row" where
  "busy_conflict k a b c = \<lparr>cf_id = k, cf_a = a, cf_b = b, cf_type = ''direct_contradiction'', cf_confidence = c,
     cf_resolved = False, cf_resolved_by = None, cf_note = None, cf_created = 0, cf_resolved_at = None\<rparr>"

definition busy_db :: trust_db where
  "busy_db = empty_trust\<lparr>
     td_trust := [new_trust ''a'' 1 None ''w'' ''r'' 0, new_trust ''b'' 1 None ''w'' ''r'' 0,
                  new_trust ''c'' 1 None ''w'' ''r'' 0, new_trust ''d'' 1 None ''w'' ''r'' 0],
     td_conflicts := map (\<lambda>k. busy_conflict (replicate k (CHR ''x'')) ''a'' ''b'' 1) [0..<50] @ [busy_conflict ''y'' ''c'' ''d'' (1 / 2)]\<rparr>"

lemma busy_pending: "pending busy_db = td_conflicts busy_db"
  unfolding pending_def
  by (subst sort_key_id_if_sorted)
    (auto simp: busy_db_def busy_conflict_def empty_trust_def sorted_append sorted_map map_replicate_const comp_def intro!: filter_True)

lemma contest_can_stay_pending:
  "\<exists>db'. tool_resolve_contest ''c'' ''d'' [] 0 busy_db = Inr (Won ''d'' ''c'', db') \<and> busy_conflict ''y'' ''c'' ''d'' (1 / 2) \<in> set (td_conflicts db')"
proof -
  have rows: "trust_of ''c'' busy_db = Some (new_trust ''c'' 1 None ''w'' ''r'' 0)"
     "trust_of ''d'' busy_db = Some (new_trust ''d'' 1 None ''w'' ''r'' 0)" "\<not> td_paused busy_db"
    by (simp_all add: busy_db_def trust_of_def new_trust_def empty_trust_def)
  have "\<exists>db'. tool_resolve_contest ''c'' ''d'' [] 0 busy_db = Inr (Won ''d'' ''c'', db')"
    using rows by (simp add: tool_resolve_contest_def get_trust_def connect_def tx_simps tx_return_def update_status_def Let_def
        trust_of_update get_pending_conflicts_def resolve_each)
  then obtain db' where run: "tool_resolve_contest ''c'' ''d'' [] 0 busy_db = Inr (Won ''d'' ''c'', db')" ..
  have top: "take 50 (pending busy_db) = map (\<lambda>k. busy_conflict (replicate k (CHR ''x'')) ''a'' ''b'' 1) [0..<50]"
    unfolding busy_pending by (simp add: busy_db_def del: upt_rec_numeral)
  have "between ''c'' ''d'' c \<Longrightarrow> c \<notin> set (take 50 (pending busy_db))" for c
    unfolding top by (auto simp: busy_conflict_def between_def doubleton_eq_iff simp del: upt_rec_numeral)
  then have none: "{c \<in> set (take 50 (pending busy_db)). between ''c'' ''d'' c} = {}" by blast
  then have "td_conflicts db' = td_conflicts busy_db" using contest_runs [OF run] unfolding none by auto
  then show ?thesis using run by (auto simp: busy_db_def)
qed

section \<open>A run\<close>

definition demo_trust :: trust_db where
  "demo_trust = foldl (\<lambda>db e. trust_apply id e db) empty_trust
     [Create ''a'' ''w'' ''r'' 1 None 0 1, Create ''b'' ''w'' ''r'' 1 None 2 3, RecordConflict ''a'' ''b'' ''partial_overlap'' (1 / 2) 4,
      Update ''a'' Quarantined (Some 0) None None ''guard'' ''memory_guard'' 5 6, Challenge ''a'' 7]"

lemmas trust_ops = create_def update_status_def record_conflict_def challenge_def verify_def connect_def kept_def log_history_def
  update_trust_def insert_trust_def new_trust_def trust_of_def conflict_id_def coalesce_def empty_trust_def Let_def

lemma demo_trust_run:
  "run_events (trust_step id) empty_trust
     [Create ''a'' ''w'' ''r'' 1 None 0 1, Create ''b'' ''w'' ''r'' 1 None 2 3, RecordConflict ''a'' ''b'' ''partial_overlap'' (1 / 2) 4,
      Update ''a'' Quarantined (Some 0) None None ''guard'' ''memory_guard'' 5 6, Challenge ''a'' 7] = Inr demo_trust"
  by (simp add: trust_step_def demo_trust_def)

lemma demo_trust_rows:
  "trust_of ''a'' demo_trust = Some \<lparr>tr_drawer = ''a'', tr_status = Quarantined, tr_confidence = 1 / 10, tr_valid_from = None,
     tr_valid_to = None, tr_created = 0, tr_updated = 7, tr_superseded_by = None, tr_verifications = 0, tr_challenges = 1,
     tr_wing = ''w'', tr_room = ''r''\<rparr>"
  "\<not> td_paused demo_trust" "length (td_history demo_trust) = 3" "length (td_conflicts demo_trust) = 1"
  by (simp_all add: demo_trust_def trust_ops)




theorem confidences_stay_in_bounds_witness:
  "\<exists>v. trust_of ''a'' (trust_apply id (Challenge ''a'' 8) demo_trust) = Some v"
proof -
  have "bounded_trust empty_trust" by (simp add: bounded_trust_def empty_trust_def)
  from confidences_stay_in_bounds [OF this _ demo_trust_run demo_trust_rows(2,1), of 8]
  show ?thesis by (auto simp: confident_def)
qed

theorem contest_is_resolved_witness:
  "\<exists>db' r. tool_resolve_contest ''a'' ''b'' [] 9 demo_trust = Inr (Won ''b'' ''a'', db')
     \<and> trust_of ''a'' db' = Some r \<and> tr_superseded_by r = Some ''b''"
proof -
  have "\<exists>db'. tool_resolve_contest ''a'' ''b'' [] 9 demo_trust = Inr (Won ''b'' ''a'', db')"
    by (simp add: demo_trust_def tool_resolve_contest_def get_trust_def trust_ops tx_simps tx_return_def get_pending_conflicts_def
        resolve_between_def resolve_conflict_def)
  then obtain db' where run: "tool_resolve_contest ''a'' ''b'' [] 9 demo_trust = Inr (Won ''b'' ''a'', db')" ..
  then show ?thesis using contest_is_resolved [OF run] by auto
qed

end
