(* ===== verification/Trust_Search.thy ===== *)
theory Trust_Search
  imports Trust_Properties "HOL-Library.List_Lexorder" "HOL-Library.Product_Lexorder" "HOL-Library.Char_ord"
begin

text \<open>
  The hybrid search of the local profile (\<open>hybrid_searcher.py\<close>): reciprocal rank fusion of two
  rankings, the trust filter and the graph facts. The two rankings, the triples of the knowledge
  graph, the document store and the rounding of scores are parameters.
\<close>

section \<open>Trust of a batch of documents\<close>

text \<open>
  The tables are \<open>None\<close> in a profile older than the trust layer, which has no \<open>drawer_trust\<close>: the code
  then knows no trust of any document and does not read \<open>drawer_deletions\<close> either.
\<close>

definition hidden_statuses :: "trust_status set" where
  "hidden_statuses = {Superseded, Historical, Quarantined}"

definition trust_map :: "trust_db option \<Rightarrow> string \<Rightarrow> (trust_status \<times> real) option" where
  "trust_map tables d =
     (case tables of
        None \<Rightarrow> None
      | Some db \<Rightarrow> if d \<in> snd ` set (td_deletions db) then Some (Quarantined, 0)
          else map_option (\<lambda>r. (tr_status r, tr_confidence r)) (trust_of d db))"

section \<open>Ranking\<close>

text \<open>The score map keeps the order in which documents first got a score.\<close>

definition add_score :: "nat \<Rightarrow> (string \<times> real) list \<Rightarrow> nat \<times> string \<Rightarrow> (string \<times> real) list" where
  "add_score k scores = (\<lambda>(rank, d).
     if d \<in> fst ` set scores
     then map (\<lambda>(x, s). if x = d then (x, s + 1 / real (k + rank)) else (x, s)) scores
     else scores @ [(d, 1 / real (k + rank))])"

definition fused_scores :: "nat \<Rightarrow> string list \<Rightarrow> string list \<Rightarrow> (string \<times> real) list" where
  "fused_scores k vector_ids lexical_ids =
     foldl (add_score k) (foldl (add_score k) [] (enumerate 1 vector_ids)) (enumerate 1 lexical_ids)"

definition maximum_score :: "nat \<Rightarrow> string list \<Rightarrow> string list \<Rightarrow> real" where
  "maximum_score k vector_ids lexical_ids =
     real (max 1 ((if vector_ids \<noteq> [] then 1 else 0) + (if lexical_ids \<noteq> [] then 1 else 0))) / real (k + 1)"

type_synonym ranked_entry = "string \<times> real \<times> trust_status \<times> real"

definition trusted_entry :: "trust_db option \<Rightarrow> bool \<Rightarrow> string \<times> real \<Rightarrow> ranked_entry option" where
  "trusted_entry db include_superseded = (\<lambda>(d, score).
     case trust_map db d of
       Some (status, confidence) \<Rightarrow>
         if status = Quarantined \<or> (\<not> include_superseded \<and> status \<in> hidden_statuses) then None
         else Some (d, score * confidence, status, confidence)
     | None \<Rightarrow> Some (d, score, Current, 1))"

definition ranked_entries :: "trust_db option \<Rightarrow> bool \<Rightarrow> nat \<Rightarrow> string list \<Rightarrow> string list \<Rightarrow> ranked_entry list" where
  "ranked_entries db include_superseded k vector_ids lexical_ids =
     sort_key (\<lambda>e. (- fst (snd e), fst e))
       (List.map_filter (trusted_entry db include_superseded)
         (sort_key (\<lambda>x. - snd x) (fused_scores k vector_ids lexical_ids)))"

section \<open>Graph facts\<close>

record graph_fact =
  gf_subject :: string
  gf_predicate :: string
  gf_object :: string
  gf_source :: string
  gf_current :: bool
  gf_confidence :: real
  gf_id :: string

record hit =
  ht_id :: string
  ht_document :: string
  ht_graph :: bool
  ht_score :: real
  ht_status :: trust_status
  ht_confidence :: real
  ht_warning :: bool

text \<open>\<open>place_of\<close> gives wing and room of a stored document, \<open>None\<close> when it is not stored.\<close>

definition graph_hit :: "trust_db option \<Rightarrow> (string \<Rightarrow> (string \<times> string) option) \<Rightarrow> nat \<Rightarrow> string \<Rightarrow> string \<Rightarrow> graph_fact \<Rightarrow> hit option" where
  "graph_hit db place_of k wing room t =
     (if gf_source t = [] \<or> \<not> gf_current t then None
      else case trust_map db (gf_source t) of
        None \<Rightarrow> None
      | Some (status, confidence) \<Rightarrow>
          if status \<in> hidden_statuses then None
          else case place_of (gf_source t) of
            None \<Rightarrow> None
          | Some (wing', room') \<Rightarrow>
              if wing \<noteq> [] \<and> wing' \<noteq> wing \<or> room \<noteq> [] \<and> room' \<noteq> room then None
              else Some \<lparr>ht_id = gf_id t, ht_document = gf_source t, ht_graph = True,
                ht_score = min (gf_confidence t) confidence / real (k + 1), ht_status = status,
                ht_confidence = min (gf_confidence t) confidence, ht_warning = False\<rparr>)"

definition fact_key :: "graph_fact \<Rightarrow> string \<times> string \<times> string \<times> string" where
  "fact_key t = (gf_subject t, gf_predicate t, gf_object t, gf_source t)"

fun graph_hits :: "trust_db option \<Rightarrow> (string \<Rightarrow> (string \<times> string) option) \<Rightarrow> nat \<Rightarrow> string \<Rightarrow> string
    \<Rightarrow> (string \<times> string \<times> string \<times> string) list \<Rightarrow> graph_fact list \<Rightarrow> hit list" where
  "graph_hits db place_of k wing room seen [] = []"
| "graph_hits db place_of k wing room seen (t # ts) =
     (case graph_hit db place_of k wing room t of
        None \<Rightarrow> graph_hits db place_of k wing room seen ts
      | Some h \<Rightarrow> if fact_key t \<in> set seen then graph_hits db place_of k wing room seen ts
                  else h # graph_hits db place_of k wing room (fact_key t # seen) ts)"

section \<open>The search\<close>

definition hit_order :: "hit \<Rightarrow> real \<times> string" where
  "hit_order h = (- ht_score h, ht_id h)"

definition document_hit :: "(string \<Rightarrow> (string \<times> string) option) \<Rightarrow> (real \<Rightarrow> real) \<Rightarrow> (real \<Rightarrow> real) \<Rightarrow> ranked_entry \<Rightarrow> hit option" where
  "document_hit place_of round6 round3 = (\<lambda>(d, score, status, confidence).
     if place_of d = None then None
     else Some \<lparr>ht_id = d, ht_document = d, ht_graph = False, ht_score = round6 score, ht_status = status,
       ht_confidence = round3 confidence, ht_warning = (status = Contested)\<rparr>)"

definition search :: "trust_db option \<Rightarrow> (string \<Rightarrow> (string \<times> string) option) \<Rightarrow> (real \<Rightarrow> real) \<Rightarrow> (real \<Rightarrow> real) \<Rightarrow> nat
    \<Rightarrow> graph_fact list \<Rightarrow> string list \<Rightarrow> string list \<Rightarrow> string \<Rightarrow> string \<Rightarrow> int \<Rightarrow> bool \<Rightarrow> real \<Rightarrow> hit list res" where
  "search db place_of round6 round3 k facts vector_ids lexical_ids wing room n include_superseded min_similarity =
     (if n \<le> 0 then Inr []
      else if \<not> (0 \<le> min_similarity \<and> min_similarity \<le> 1) then Inl ValueError
      else let kg_hits = take 3 (sort_key hit_order (graph_hits db place_of k wing room [] facts));
               best = maximum_score k vector_ids lexical_ids;
               entries = take (nat n) (filter (\<lambda>e. min_similarity \<le> fst (snd e) / best)
                 (ranked_entries db include_superseded k vector_ids lexical_ids));
               hits = List.map_filter (document_hit place_of round6 round3) entries
           in Inr (take (nat n) (sort_key hit_order (filter (\<lambda>h. min_similarity \<le> ht_score h / best) kg_hits @ hits))))"

section \<open>What a search can return\<close>

lemma map_filter_set: "x \<in> set (List.map_filter f xs) \<longleftrightarrow> (\<exists>y\<in>set xs. f y = Some x)"
  by (force simp: List.map_filter_def)

lemma graph_hits_from: "h \<in> set (graph_hits db place_of k wing room seen ts) \<Longrightarrow> \<exists>t. graph_hit db place_of k wing room t = Some h"
  by (induction ts arbitrary: seen) (auto split: option.splits if_splits)

lemma graph_hit_trusted:
  "graph_hit db place_of k wing room t = Some h \<Longrightarrow>
     \<exists>status c. trust_map db (ht_document h) = Some (status, c) \<and> status \<notin> hidden_statuses \<and> ht_status h = status"
  by (auto simp: graph_hit_def split: if_splits option.splits)

lemma entry_trusted:
  "trusted_entry db inc (d0, s0) = Some (d, score, status, confidence) \<Longrightarrow>
     status \<noteq> Quarantined \<and> (status \<in> hidden_statuses \<longrightarrow> inc)
     \<and> (trust_map db d = None \<and> status = Current \<or> (\<exists>c. trust_map db d = Some (status, c)))"
  by (auto simp: trusted_entry_def hidden_statuses_def split: option.splits if_splits)

text \<open>
  C12. A search never returns more than was asked for, returns hits in descending order of score,
  and shows nothing that trust hides: the document a hit rests on is neither deleted nor
  quarantined, is superseded or historical only if the caller asked for those, and a hit carries
  the status its document has.
\<close>

theorem search_hides_the_untrusted:
  assumes "search (Some db) place_of round6 round3 k facts vector_ids lexical_ids wing room n inc sim = Inr hits" "h \<in> set hits"
  shows "ht_document h \<notin> snd ` set (td_deletions db) \<and> ht_status h \<noteq> Quarantined
    \<and> (trust_of (ht_document h) db = None \<and> ht_status h = Current
       \<or> (\<exists>r. trust_of (ht_document h) db = Some r \<and> tr_status r = ht_status h))
    \<and> (ht_status h \<in> {Superseded, Historical} \<longrightarrow> inc \<and> \<not> ht_graph h)
    \<and> int (length hits) \<le> n \<and> sorted (map (\<lambda>x. - ht_score x) hits)"
proof -
  have n: "0 < n" using assms by (auto simp: search_def split: if_splits)
  define pool where "pool = filter (\<lambda>h. sim \<le> ht_score h / maximum_score k vector_ids lexical_ids)
      (take 3 (sort_key hit_order (graph_hits (Some db) place_of k wing room [] facts)))
    @ List.map_filter (document_hit place_of round6 round3) (take (nat n)
        (filter (\<lambda>e. sim \<le> fst (snd e) / maximum_score k vector_ids lexical_ids) (ranked_entries (Some db) inc k vector_ids lexical_ids)))"
  have hits: "hits = take (nat n) (sort_key hit_order pool)"
    using assms(1) n by (auto simp: search_def pool_def Let_def split: if_splits)
  have "sorted (map hit_order hits)" unfolding hits by (simp add: take_map [symmetric] sorted_wrt_take)
  then have "sorted (map (\<lambda>x. - ht_score x) hits)"
    by (induction hits) (auto simp: hit_order_def less_eq_prod_def)
  moreover have "int (length hits) \<le> n" using n by (simp add: hits)
  moreover have "h \<in> set pool" using assms(2) unfolding hits by (auto dest: in_set_takeD)
  then consider (graph) t where "graph_hit (Some db) place_of k wing room t = Some h"
    | (doc) e where "document_hit place_of round6 round3 e = Some h" "e \<in> set (ranked_entries (Some db) inc k vector_ids lexical_ids)"
    by (auto simp: pool_def map_filter_set dest!: in_set_takeD graph_hits_from)
  then have "(trust_map (Some db) (ht_document h) = None \<and> ht_status h = Current \<or> (\<exists>c. trust_map (Some db) (ht_document h) = Some (ht_status h, c)))
    \<and> ht_status h \<noteq> Quarantined \<and> (ht_status h \<in> {Superseded, Historical} \<longrightarrow> inc \<and> \<not> ht_graph h)"
  proof cases
    case graph
    then show ?thesis using graph_hit_trusted [OF graph] by (auto simp: hidden_statuses_def)
  next
    case doc
    obtain d s st c where e: "e = (d, s, st, c)" by (cases e)
    from doc(2) obtain x where "trusted_entry (Some db) inc x = Some e" by (auto simp: ranked_entries_def map_filter_set)
    with doc(1) show ?thesis using entry_trusted [of "Some db" inc "fst x" "snd x" d s st c]
      by (auto simp: e document_hit_def hidden_statuses_def split: if_splits)
  qed
  ultimately show ?thesis by (auto simp: trust_map_def split: if_splits)
qed


section \<open>Runs\<close>

definition demo_places :: "string \<Rightarrow> (string \<times> string) option" where
  "demo_places d = (if d \<in> {''a'', ''b''} then Some (''w'', ''r'') else None)"

lemmas search_defs = search_def maximum_score_def ranked_entries_def fused_scores_def add_score_def trusted_entry_def trust_map_def
  document_hit_def hit_order_def hidden_statuses_def demo_places_def List.map_filter_def

definition demo_hit :: hit where
  "demo_hit = \<lparr>ht_id = ''b'', ht_document = ''b'', ht_graph = False, ht_score = 1 / 62 + 1 / 61, ht_status = Current,
     ht_confidence = 1, ht_warning = False\<rparr>"

lemma demo_search: "search (Some demo_trust) demo_places id id 60 [] [''a'', ''b''] [''b''] [] [] 5 True 0 = Inr [demo_hit]"
  by (simp add: search_defs demo_trust_def trust_ops enumerate_eq_zip demo_hit_def, rule exI [of _ "123 / 3782"], simp)

theorem search_hides_the_untrusted_witness:
  "search (Some demo_trust) demo_places id id 60 [] [''a'', ''b''] [''b''] [] [] 5 True 0 = Inr [demo_hit]
     \<and> ht_status demo_hit \<noteq> Quarantined"
  using search_hides_the_untrusted [OF demo_search, of demo_hit] demo_search by auto

text \<open>A challenge with a reason takes a quarantined drawer out of its quarantine and back into searches.\<close>

lemma challenge_ends_quarantine:
  "\<exists>result db'. trust_map (Some demo_trust) ''a'' = Some (Quarantined, 1 / 10)
     \<and> tool_challenge_drawer ''a'' ''wrong'' 8 9 demo_trust = Inr (result, db')
     \<and> trust_map (Some db') ''a'' = Some (Contested, 1 / 10)"
  by (simp add: tool_challenge_drawer_def get_trust_def tx_simps tx_return_def trust_map_def demo_trust_def trust_ops)

end
