(* ===== verification/Store.thy ===== *)
theory Store
  imports Complex_Main Prelude Journal_Entry
begin

text \<open>
  The database of one tenant as a record of tables, and what every service operation uses of it:
  authorisation (the SQL function \<open>mnemion.authorized\<close>), the writer fences
  (\<open>service/fences.py\<close>), the authenticated transaction (\<open>service/db.py\<close>), the audit trail, the
  idempotency receipts and the policy-aware reads of \<open>service/repository.py\<close>. Row-level security
  confines a session to one tenant, so the tenant is a constant of the record. A table is an
  association list from primary key to row; uuid4 is a counter of fresh identifiers.
\<close>

section \<open>Tables\<close>

text \<open>Lookup by primary key is \<open>map_of\<close>. SQL updates and deletions with a condition:\<close>

type_synonym ('k, 'r) table = "('k \<times> 'r) list"

definition t_update :: "('k \<Rightarrow> 'r \<Rightarrow> bool) \<Rightarrow> ('r \<Rightarrow> 'r) \<Rightarrow> ('k, 'r) table \<Rightarrow> ('k, 'r) table" where
  "t_update p f t = map (\<lambda>(k, r). (k, if p k r then f r else r)) t"

definition t_delete :: "('k \<Rightarrow> 'r \<Rightarrow> bool) \<Rightarrow> ('k, 'r) table \<Rightarrow> ('k, 'r) table" where
  "t_delete p t = filter (\<lambda>(k, r). \<not> p k r) t"

lemma t_update_Nil [simp]: "t_update p f [] = []"
  by (simp add: t_update_def)

lemma t_update_Cons [simp]: "t_update p f ((k, r) # t) = (k, if p k r then f r else r) # t_update p f t"
  by (simp add: t_update_def)

declare option.map_ident [simp]

lemma map_of_t_update [simp]:
  "map_of (t_update p f t) k = map_option (\<lambda>r. if p k r then f r else r) (map_of t k)"
  by (induction t) (auto simp: t_update_def)

lemma t_delete_Nil [simp]: "t_delete p [] = []"
  by (simp add: t_delete_def)

lemma keys_t_update [simp]: "map fst (t_update p f t) = map fst t"
  by (induction t) (auto simp: t_update_def)

lemma dom_t_update [simp]: "fst ` set (t_update p f t) = fst ` set t"
  by (metis keys_t_update list.set_map)

lemma set_t_delete [simp]: "set (t_delete p t) = {(k, r) \<in> set t. \<not> p k r}"
  by (auto simp: t_delete_def)

lemma map_of_t_delete_None: "map_of t k = None \<Longrightarrow> map_of (t_delete p t) k = None"
  by (induction t) (auto simp: t_delete_def split: if_splits)

lemma map_of_t_delete [simp]:
  "distinct (map fst t) \<Longrightarrow>
   map_of (t_delete p t) k = (case map_of t k of None \<Rightarrow> None | Some r \<Rightarrow> if p k r then None else Some r)"
  by (induction t) (auto simp: t_delete_def map_of_eq_None_iff [symmetric] image_iff split: option.splits
      intro: map_of_t_delete_None [unfolded t_delete_def])

lemma distinct_t_delete: "distinct (map fst t) \<Longrightarrow> distinct (map fst (t_delete p t))"
  by (simp add: t_delete_def filter_drop_distinct_keys)

section \<open>Rows\<close>

datatype role = Reader | Contributor | Reviewer | Administrator
datatype review_state = Ordinary | Quarantined
datatype claim_status = Observed | Verified | Contested | Superseded | Retracted
datatype op_kind = Ingest | Revise | Delete | Reindex
datatype op_state = Accepted | Indexing | OpReady | OpFailed | OpCancelled
datatype job_kind = Embed | Purge
datatype job_state = Pending | Leased | Ready | Failed | JobCancelled
datatype run_state = Running | RunPaused | RunActivated | RunCancelled

type_synonym metadata = "(string \<times> string) list"

record principal =
  p_disabled :: bool
  p_administrator :: bool

record api_key =
  k_principal :: uuid
  k_revoked :: bool
  k_expires :: "time option"

record connector =
  cn_principal :: uuid
  cn_disabled :: bool

record connector_scope =
  cs_connector :: uuid
  cs_suspended :: bool
  cs_valid_until :: time
  cs_paused :: bool

record capture_source =
  ca_space :: uuid
  ca_connector :: uuid
  ca_revoked :: bool
  ca_members :: "string list"

record binding =
  b_connector :: uuid
  b_external :: string
  b_principal :: uuid
  b_reviewer :: bool

record memory =
  m_space :: uuid
  m_subject :: "string option"
  m_kind :: string
  m_current :: "uuid option"
  m_version :: nat
  m_review :: review_state
  m_created_by :: uuid
  m_created_at :: time
  m_updated_at :: time
  m_deleted_at :: "time option"

record revision =
  r_space :: uuid
  r_memory :: uuid
  r_version :: nat
  r_content :: string
  r_hash :: digest
  r_metadata :: metadata
  r_subject :: "string option"
  r_kind :: string
  r_source :: uuid
  r_start :: nat
  r_end :: nat
  r_claim :: claim_status
  r_valid_from :: "time option"
  r_valid_to :: "time option"
  r_created_by :: uuid
  r_recorded_at :: time
  r_times :: string

record source =
  s_space :: uuid
  s_title :: string
  s_uri :: "string option"
  s_created_by :: uuid
  s_deleted_at :: "time option"

record source_revision =
  sr_space :: uuid
  sr_source :: uuid
  sr_content :: string
  sr_hash :: digest
  sr_media :: string
  sr_recorded_at :: time

record attachment =
  at_revision :: uuid
  at_name :: string
  at_media :: string
  at_content :: string
  at_hash :: digest

record operation =
  o_space :: uuid
  o_memory :: uuid
  o_revision :: "uuid option"
  o_kind :: op_kind
  o_state :: op_state
  o_error :: "string option"
  o_created_by :: uuid
  o_created_at :: time

record job =
  j_space :: uuid
  j_operation :: uuid
  j_revision :: "uuid option"
  j_generation :: "string option"
  j_kind :: job_kind
  j_state :: job_state
  j_attempts :: nat
  j_available_at :: time
  j_lease :: "uuid option"
  j_lease_until :: "time option"
  j_error :: "string option"
  j_run :: "uuid option"
  j_created_at :: time

record chunk =
  c_start :: nat
  c_end :: nat
  c_vector :: "real list"

record embedding_settings =
  es_generation :: string
  es_run :: "uuid option"
  es_paused :: bool
  es_version :: nat
  es_previous :: "string option"

record reindex_run =
  rr_space :: uuid
  rr_generation :: string
  rr_state :: run_state
  rr_previous :: string
  rr_egress :: bool
  rr_author :: uuid
  rr_scan :: bool
  rr_cursor :: uuid
  rr_lease :: "uuid option"
  rr_lease_until :: "time option"
  rr_created_at :: time
  rr_updated_at :: time

record deletion =
  d_operation :: uuid
  d_requested_by :: uuid
  d_requested_at :: time
  d_purged_at :: "time option"

record audit_event =
  a_space :: "uuid option"
  a_principal :: uuid
  a_action :: string
  a_resource :: string
  a_details :: metadata
  a_created_at :: time

record change_note =
  n_space :: uuid
  n_memory :: uuid
  n_reason :: string

record block =
  bk_content :: string
  bk_version :: nat
  bk_updated_by :: uuid
  bk_updated_at :: time

datatype proposal_state = ProposalPending | ProposalAccepted | ProposalRejected | ProposalUndone | ProposalInvalidated

record proposal =
  lp_space :: uuid
  lp_state :: proposal_state
  lp_suggestion :: "string option"
  lp_version :: nat
  lp_previous :: "uuid option"
  lp_applied :: "uuid option"
  lp_applied_version :: "nat option"

record space_row =
  sp_created_at :: time
  sp_turn :: "nat option"

datatype dataset_state = DsActive | DsInvalidated | DsDeleted
datatype eval_state = EvQueued | EvRunning | EvCompleted | EvFailed | EvCancelled | EvInvalidated

text \<open>The columns of the evaluation tables that an erasure overwrites.\<close>

record dataset =
  ds_state :: dataset_state
  ds_cases :: "string list"
  ds_description :: string
  ds_name :: string

record eval_run =
  ev_dataset :: uuid
  ev_state :: eval_state
  ev_lease :: "uuid option"
  ev_lease_until :: "time option"
  ev_error :: "string option"
  ev_finished_at :: "time option"
  ev_summary :: "string option"
  ev_selected :: "string option"

record capture_event =
  ce_space :: uuid
  ce_source :: uuid
  ce_lineage :: string

record wb_settings =
  w_destination :: string
  w_fingerprint :: string
  w_paused :: bool

datatype wb_state = WbPending | WbLocal | WbPushed | WbSuppressed

record wb_event =
  we_space :: uuid
  we_memory :: uuid
  we_revision :: "uuid option"
  we_version :: nat
  we_writer :: uuid
  we_action :: action
  we_important :: bool
  we_state :: wb_state
  we_created_at :: time

text \<open>The response of a write, stored with its idempotency key.\<close>

record wb_receipt =
  wr_event :: uuid
  wr_important :: bool

record capture_preview =
  cp_lineage :: string
  cp_retained :: nat

record receipt =
  rc_operation :: uuid
  rc_memory :: uuid
  rc_revision :: "uuid option"
  rc_space :: uuid
  rc_state :: op_state
  rc_lexical :: bool
  rc_generation :: "string option"
  rc_version :: nat
  rc_deleted :: bool
  rc_purged :: "(time \<times> time option) option"
  rc_writeback :: "wb_receipt option"
  rc_capture :: "capture_preview option"

text \<open>The response of a model change, stored with the key that started a reindexing.\<close>

record candidate_view =
  cv_run :: uuid
  cv_generation :: string
  cv_state :: run_state
  cv_scan :: bool
  cv_revisions :: nat
  cv_indexed :: nat
  cv_jobs :: "(job_state \<times> nat) list"
  cv_ready :: bool
  cv_egress :: bool
  cv_created_at :: time
  cv_updated_at :: time

record model_state =
  ms_space :: uuid
  ms_version :: nat
  ms_active :: string
  ms_paused :: bool
  ms_previous :: "string option"
  ms_candidate :: "candidate_view option"
  ms_profiles :: "(string \<times> bool) list"

text \<open>The item through which a connector withholds its memory: the connector, and whether the item is deleted.\<close>

record withheld_item =
  wi_connector :: uuid
  wi_deleted :: bool

section \<open>The database of a tenant\<close>

record db =
  db_tenant :: uuid
  db_now :: time
  db_next :: uuid
  db_principals :: "(uuid, principal) table"
  db_keys :: "(uuid, api_key) table"
  db_grants :: "(uuid \<times> uuid, role) table"
  db_connectors :: "(uuid, connector) table"
  db_scopes :: "(uuid, connector_scope) table"
  db_capture_sources :: "(uuid, capture_source) table"
  db_bindings :: "binding list"
  db_withheld :: "(uuid, withheld_item) table"
  db_fences :: "(uuid, uuid \<times> string) table"
  db_importing :: "uuid list"
  db_memories :: "(uuid, memory) table"
  db_revisions :: "(uuid, revision) table"
  db_sources :: "(uuid, source) table"
  db_source_revisions :: "(uuid, source_revision) table"
  db_attachments :: "(uuid, attachment) table"
  db_operations :: "(uuid, operation) table"
  db_jobs :: "(uuid, job) table"
  db_embeddings :: "(uuid \<times> string \<times> nat, chunk) table"
  db_settings :: "(uuid, embedding_settings) table"
  db_runs :: "(uuid, reindex_run) table"
  db_receipts :: "(uuid \<times> uuid \<times> string, digest \<times> receipt) table"
  db_denials :: "(uuid, uuid) table"
  db_deletions :: "(uuid, deletion) table"
  db_audit :: "(uuid, audit_event) table"
  db_notes :: "(uuid, change_note) table"
  db_blocks :: "(uuid \<times> string, block) table"
  db_block_revisions :: "(uuid \<times> string \<times> nat, block) table"
  db_proposals :: "(uuid, proposal) table"
  db_dependencies :: "(uuid \<times> uuid) list"
  db_observations :: "(uuid, uuid) table"
  db_capture_events :: "(uuid, capture_event) table"
  db_aliases :: "(uuid \<times> string, uuid) table"
  db_wb_settings :: "(uuid, wb_settings) table"
  db_wb_events :: "(uuid, wb_event) table"
  db_callbacks :: "(uuid \<times> uuid \<times> bool) list"
  db_spaces :: "(uuid, space_row) table"
  db_turn :: nat
  db_connector_proposals :: "(uuid, uuid) table"
  db_datasets :: "(uuid, dataset) table"
  db_eval_dependencies :: "(uuid \<times> uuid) list"
  db_eval_runs :: "(uuid, eval_run) table"
  db_eval_results :: "(uuid \<times> nat, string) table"
  db_generations :: "string list"
  db_model_receipts :: "(uuid \<times> uuid \<times> string, digest \<times> model_state) table"

type_synonym 'a act = "(db, 'a) tx"

record identity =
  id_principal :: uuid
  id_key :: uuid
  id_expires :: "time option"

text \<open>
  Notation of the columns that are not primary keys: \<open>db_withheld\<close> maps a memory to the
  connector item that withholds it, \<open>db_dependencies\<close> holds (proposal, memory) pairs, \<open>db_observations\<close> maps an
  observation to its memory, \<open>db_denials\<close> maps a memory to its space, \<open>db_callbacks\<close> are the
  after-commit actions registered by the transaction as (space, event, important),
  \<open>db_connector_proposals\<close> maps a proposal to its memory, \<open>db_eval_dependencies\<close> holds
  (dataset, memory) pairs, \<open>db_turn\<close> is the sequence \<open>index_dispatch_turn\<close>,
  \<open>db_generations\<close> are the registered embedding generations. The receipts of reindexings, whose
  response has its own type, are kept beside those of memories, in \<open>db_model_receipts\<close>.
\<close>

definition not_found :: error where
  "not_found = ServiceError 404 ''not_found''"

definition forbidden :: error where
  "forbidden = ServiceError 403 ''forbidden''"

definition version_conflict :: error where
  "version_conflict = ServiceError 409 ''version_conflict''"

definition fresh :: "uuid act" where
  "fresh = (\<lambda>s. Inr (db_next s, s\<lparr>db_next := db_next s + 1\<rparr>))"

lemma fresh_at [simp]: "fresh s = Inr (db_next s, s\<lparr>db_next := db_next s + 1\<rparr>)"
  by (simp add: fresh_def)

end
