(* ===== verification/Repository.thy ===== *)
theory Repository
  imports Store
begin

text \<open>
  The policy-aware database operations every service call uses: authorisation (the SQL function
  \<open>mnemion.authorized\<close> and the visibility policies), \<open>require_space\<close> with its writer fence
  (\<open>service/db.py\<close>, \<open>service/fences.py\<close>), the authenticated transaction, the audit trail,
  idempotency receipts, \<open>memory_row\<close> and \<open>hydrate\<close> (\<open>service/repository.py\<close>).
\<close>

section \<open>Authorisation\<close>

fun role_level :: "role \<Rightarrow> nat" where
  "role_level Reader = 10"
| "role_level Contributor = 20"
| "role_level Reviewer = 30"
| "role_level Administrator = 40"

definition principal_enabled :: "db \<Rightarrow> uuid \<Rightarrow> bool" where
  "principal_enabled s p = (case map_of (db_principals s) p of None \<Rightarrow> False | Some r \<Rightarrow> \<not> p_disabled r)"

definition administers :: "db \<Rightarrow> uuid \<Rightarrow> bool" where
  "administers s p = (case map_of (db_principals s) p of None \<Rightarrow> False | Some r \<Rightarrow> p_administrator r)"

text \<open>A connector is usable while it and its (non-administrator) principal are enabled.\<close>

definition connector_usable :: "db \<Rightarrow> connector \<Rightarrow> bool" where
  "connector_usable s c \<longleftrightarrow> \<not> cn_disabled c \<and> principal_enabled s (cn_principal c)
     \<and> \<not> administers s (cn_principal c)"

definition scope_open :: "db \<Rightarrow> uuid \<Rightarrow> uuid \<Rightarrow> bool" where
  "scope_open s p space =
     (case map_of (db_scopes s) space of
        None \<Rightarrow> True
      | Some sc \<Rightarrow>
          (case map_of (db_connectors s) (cs_connector sc) of
             None \<Rightarrow> False
           | Some c \<Rightarrow> connector_usable s c
               \<and> ((cn_principal c = p \<and> \<not> administers s p)
                  \<or> (\<not> cs_suspended sc \<and> cs_valid_until sc > db_now s))))"

definition capture_admits :: "db \<Rightarrow> uuid \<Rightarrow> nat \<Rightarrow> capture_source \<Rightarrow> bool" where
  "capture_admits s p level ca \<longleftrightarrow> \<not> ca_revoked ca \<and>
     (case map_of (db_connectors s) (ca_connector ca) of
        None \<Rightarrow> False
      | Some c \<Rightarrow> connector_usable s c
          \<and> (cn_principal c = p
             \<or> list_ex (\<lambda>b. b_connector b = ca_connector ca \<and> b_external b \<in> set (ca_members ca)
                  \<and> b_principal b = p \<and> level \<le> (if b_reviewer b then 30 else 10)) (db_bindings s)))"

definition capture_open :: "db \<Rightarrow> uuid \<Rightarrow> uuid \<Rightarrow> nat \<Rightarrow> bool" where
  "capture_open s p space level =
     (let sources = filter (\<lambda>(i, ca). ca_space ca = space) (db_capture_sources s) in
      sources = [] \<or> list_ex (\<lambda>(i, ca). capture_admits s p level ca) sources)"

definition authorized :: "db \<Rightarrow> uuid \<Rightarrow> uuid \<Rightarrow> nat \<Rightarrow> bool" where
  "authorized s p space level =
     (case map_of (db_grants s) (space, p) of
        None \<Rightarrow> False
      | Some role \<Rightarrow> principal_enabled s p \<and> role_level role \<ge> level
          \<and> scope_open s p space \<and> capture_open s p space level)"

text \<open>
  The policies of \<open>memories\<close> and \<open>memory_revisions\<close> are permissive and so combine with "or": readers
  see what no connector withholds from them, contributors see every row of the space.
\<close>

definition withheld :: "db \<Rightarrow> uuid \<Rightarrow> uuid \<Rightarrow> bool" where
  "withheld s p m =
     (case map_of (db_withheld s) m of
        None \<Rightarrow> False
      | Some it \<Rightarrow> (case map_of (db_connectors s) (wi_connector it) of None \<Rightarrow> False | Some r \<Rightarrow> cn_principal r \<noteq> p))"

definition sees_memory :: "db \<Rightarrow> uuid \<Rightarrow> uuid \<Rightarrow> uuid \<Rightarrow> bool" where
  "sees_memory s p space m \<longleftrightarrow>
     (authorized s p space 10 \<and> \<not> withheld s p m) \<or> authorized s p space 20"

definition select_memory :: "identity \<Rightarrow> uuid \<Rightarrow> db \<Rightarrow> memory option" where
  "select_memory i m s =
     (case map_of (db_memories s) m of
        None \<Rightarrow> None
      | Some row \<Rightarrow> if sees_memory s (id_principal i) (m_space row) m then Some row else None)"

section \<open>Fences and spaces\<close>

definition write_boundary :: "uuid \<Rightarrow> unit act" where
  "write_boundary space = tx_guard (\<lambda>s. map_of (db_fences s) space = None)
     (ServiceError 409 ''space_paused'')"

definition require_space :: "identity \<Rightarrow> uuid \<Rightarrow> nat \<Rightarrow> bool \<Rightarrow> unit act" where
  "require_space i space level writing =
     tx_then (tx_guard (\<lambda>s. authorized s (id_principal i) space 10) not_found)
    (tx_then (if level > 10 then tx_guard (\<lambda>s. authorized s (id_principal i) space level) forbidden
              else tx_return ())
             (if writing then write_boundary space else tx_return ()))"

definition pause_space :: "uuid \<Rightarrow> string \<Rightarrow> (uuid \<times> string) act" where
  "pause_space space reason =
     tx_bind fresh (\<lambda>token.
     tx_then (tx_modify (\<lambda>s. if map_of (db_fences s) space = None
                             then s\<lparr>db_fences := (space, token, reason) # db_fences s\<rparr> else s))
             (tx_read (\<lambda>s. the (map_of (db_fences s) space))))"

definition resume_space :: "uuid \<Rightarrow> uuid \<Rightarrow> unit act" where
  "resume_space space token =
     tx_then (tx_guard (\<lambda>s. space \<notin> set (db_importing s)) ValueError)
    (tx_then (tx_guard (\<lambda>s. case map_of (db_fences s) space of None \<Rightarrow> False | Some (t, r) \<Rightarrow> t = token) ValueError)
             (tx_modify (\<lambda>s. s\<lparr>db_fences := t_delete (\<lambda>k (t, r). k = space \<and> t = token) (db_fences s)\<rparr>)))"

section \<open>Transactions\<close>

definition identity_ok :: "identity \<Rightarrow> db \<Rightarrow> bool" where
  "identity_ok i s =
     (case map_of (db_keys s) (id_key i) of
       None \<Rightarrow> False
     | Some k \<Rightarrow> k_principal k = id_principal i \<and> \<not> k_revoked k
         \<and> principal_enabled s (id_principal i)
         \<and> (case k_expires k of None \<Rightarrow> True | Some t \<Rightarrow> t > db_now s)
         \<and> (case id_expires i of None \<Rightarrow> True | Some t \<Rightarrow> t > db_now s))"

definition check_identity :: "identity \<Rightarrow> unit act" where
  "check_identity i = tx_guard (identity_ok i) (ServiceError 401 ''unauthorized'')"

text \<open>
  \<open>Database.transaction\<close>: the identity is checked again in every transaction; a raise rolls
  everything back. The registered after-commit actions start empty.
\<close>

definition transaction :: "identity \<Rightarrow> 'a act \<Rightarrow> 'a act" where
  "transaction i body =
     tx_then (tx_modify (\<lambda>s. s\<lparr>db_callbacks := []\<rparr>)) (tx_then (check_identity i) body)"

section \<open>Audit and receipts\<close>

definition audit :: "identity \<Rightarrow> string \<Rightarrow> string \<Rightarrow> uuid \<Rightarrow> (uuid \<times> string option) option \<Rightarrow> metadata \<Rightarrow> unit act" where
  "audit i action resource space note details =
     tx_bind fresh (\<lambda>event.
     tx_then (tx_modify (\<lambda>s. s\<lparr>db_audit := (event, \<lparr>a_space = Some space, a_principal = id_principal i,
                a_action = action, a_resource = resource, a_details = details, a_created_at = db_now s\<rparr>)
                # db_audit s\<rparr>))
             (case note of
                Some (m, Some reason) \<Rightarrow>
                  if action = ''memory.revised'' \<or> action = ''memory.reviewed''
                  then tx_modify (\<lambda>s. s\<lparr>db_notes := (event, \<lparr>n_space = space, n_memory = m, n_reason = reason\<rparr>)
                                        # db_notes s\<rparr>)
                  else tx_return ()
              | _ \<Rightarrow> tx_return ()))"

definition key_ok :: "string \<Rightarrow> bool" where
  "key_ok key \<longleftrightarrow> key \<noteq> [] \<and> length key \<le> 200
     \<and> list_all (\<lambda>c. 33 \<le> (of_char c :: nat) \<and> (of_char c :: nat) \<le> 126) key"

text \<open>Python's \<open>idempotency\<close> after the digest of the payload has been taken.\<close>

definition idempotency :: "identity \<Rightarrow> uuid \<Rightarrow> string \<Rightarrow> digest \<Rightarrow> receipt option act" where
  "idempotency i space key digest =
     tx_then (tx_guard (\<lambda>_. key_ok key) (ServiceError 422 ''idempotency_key_required''))
    (tx_bind (tx_read (\<lambda>s. map_of (db_receipts s) (space, id_principal i, key))) (\<lambda>previous.
     case previous of
       None \<Rightarrow> tx_return None
     | Some (h, r) \<Rightarrow> if h \<noteq> digest then tx_raise (ServiceError 409 ''idempotency_conflict'')
                     else tx_return (Some r)))"

definition remember_receipt :: "identity \<Rightarrow> uuid \<Rightarrow> string \<Rightarrow> digest \<Rightarrow> receipt \<Rightarrow> receipt act" where
  "remember_receipt i space key digest r =
     tx_then (tx_guard (\<lambda>s. map_of (db_receipts s) (space, id_principal i, key) = None)
                (DatabaseError ''idempotency_keys_pkey''))
    (tx_then (tx_modify (\<lambda>s. s\<lparr>db_receipts := ((space, id_principal i, key), (digest, r)) # db_receipts s\<rparr>))
             (tx_return r))"

section \<open>Policy-aware reads\<close>

definition memory_row :: "identity \<Rightarrow> uuid \<Rightarrow> bool \<Rightarrow> memory act" where
  "memory_row i m review =
     tx_bind (tx_read (select_memory i m)) (\<lambda>found.
     case found of
       None \<Rightarrow> tx_raise not_found
     | Some row \<Rightarrow>
         if m_deleted_at row \<noteq> None then tx_raise not_found
         else tx_then (require_space i (m_space row) (if review then 30 else 10) False)
              (if m_review row \<noteq> Ordinary \<and> \<not> review then tx_raise not_found else tx_return row))"

record memory_view =
  v_memory :: uuid
  v_space :: uuid
  v_subject :: "string option"
  v_kind :: string
  v_version :: nat
  v_revision :: uuid
  v_revision_version :: nat
  v_content :: string
  v_hash :: digest
  v_metadata :: metadata
  v_claim :: claim_status
  v_review :: review_state
  v_valid_from :: "time option"
  v_valid_to :: "time option"
  v_recorded_at :: time
  v_created_by :: uuid
  v_created_at :: time
  v_updated_at :: time
  v_source :: uuid
  v_source_revision :: uuid
  v_title :: string
  v_uri :: "string option"
  v_media :: string
  v_source_hash :: digest
  v_start :: nat
  v_end :: nat
  v_excerpt :: string

definition substring :: "nat \<Rightarrow> nat \<Rightarrow> string \<Rightarrow> string" where
  "substring start end text = take (end - start) (drop start text)"

text \<open>The join of \<open>hydrate\<close>: the revision, its source revision and its undeleted source.\<close>

definition hydrate_view :: "uuid \<Rightarrow> memory \<Rightarrow> uuid option \<Rightarrow> db \<Rightarrow> memory_view option" where
  "hydrate_view m row wanted s =
       (case (case wanted of Some r \<Rightarrow> Some r | None \<Rightarrow> m_current row) of
         None \<Rightarrow> None
       | Some rid \<Rightarrow>
        (case map_of (db_revisions s) rid of
           None \<Rightarrow> None
         | Some r \<Rightarrow>
          if r_memory r \<noteq> m \<or> r_space r \<noteq> m_space row then None else
          (case map_of (db_source_revisions s) (r_source r) of
             None \<Rightarrow> None
           | Some sr \<Rightarrow>
            (case map_of (db_sources s) (sr_source sr) of
               None \<Rightarrow> None
             | Some so \<Rightarrow>
                if s_deleted_at so \<noteq> None \<or> sr_space sr \<noteq> r_space r \<or> s_space so \<noteq> sr_space sr then None
                else Some \<lparr>v_memory = m, v_space = m_space row, v_subject = r_subject r, v_kind = r_kind r,
                  v_version = m_version row, v_revision = rid, v_revision_version = r_version r,
                  v_content = r_content r, v_hash = r_hash r, v_metadata = r_metadata r,
                  v_claim = r_claim r, v_review = m_review row, v_valid_from = r_valid_from r,
                  v_valid_to = r_valid_to r, v_recorded_at = r_recorded_at r,
                  v_created_by = r_created_by r, v_created_at = m_created_at row,
                  v_updated_at = m_updated_at row, v_source = sr_source sr, v_source_revision = r_source r,
                  v_title = s_title so, v_uri = s_uri so, v_media = sr_media sr, v_source_hash = sr_hash sr,
                  v_start = r_start r, v_end = r_end r,
                  v_excerpt = substring (r_start r) (r_end r) (sr_content sr)\<rparr>))))"

definition hydrate :: "uuid \<Rightarrow> memory \<Rightarrow> uuid option \<Rightarrow> memory_view act" where
  "hydrate m row wanted = tx_bind (tx_read (hydrate_view m row wanted))
     (\<lambda>found. case found of None \<Rightarrow> tx_raise not_found | Some v \<Rightarrow> tx_return v)"

section \<open>What the guards give\<close>

text \<open>Access decisions read only the access tables and the clock.\<close>

definition access_view where
  "access_view s = (db_principals s, db_keys s, db_grants s, db_connectors s, db_scopes s,
     db_capture_sources s, db_bindings s, db_withheld s, db_now s, db_fences s)"

lemma access_view_eq:
  assumes "access_view t = access_view s"
  shows "authorized t = authorized s" "sees_memory t = sees_memory s" "identity_ok i t = identity_ok i s"
    "db_fences t = db_fences s" "db_now t = db_now s"
proof -
  have e: "principal_enabled t = principal_enabled s" "administers t = administers s" "withheld t = withheld s"
    using assms by (simp_all add: access_view_def principal_enabled_def administers_def withheld_def fun_eq_iff
        cong: option.case_cong)
  then have "connector_usable t = connector_usable s"
    by (simp add: connector_usable_def fun_eq_iff)
  with e have "scope_open t = scope_open s" "capture_open t = capture_open s"
    using assms by (simp_all add: access_view_def scope_open_def capture_open_def capture_admits_def fun_eq_iff
        cong: option.case_cong)
  with e show a: "authorized t = authorized s"
    using assms by (simp add: access_view_def authorized_def fun_eq_iff cong: option.case_cong)
  show "sees_memory t = sees_memory s" using a e by (simp add: sees_memory_def fun_eq_iff)
  show "identity_ok i t = identity_ok i s"
    using assms e by (simp add: identity_ok_def access_view_def cong: option.case_cong)
  show "db_fences t = db_fences s" "db_now t = db_now s" using assms by (simp_all add: access_view_def)
qed

lemma access_view_callbacks [simp]: "access_view (s\<lparr>db_callbacks := c\<rparr>) = access_view s"
  by (simp add: access_view_def)

lemma authorized_callbacks [simp]: "authorized (s\<lparr>db_callbacks := c\<rparr>) = authorized s"
  by (rule access_view_eq) simp

lemma select_memory_eq:
  "access_view t = access_view s \<Longrightarrow> db_memories t = db_memories s \<Longrightarrow> select_memory i m t = select_memory i m s"
  using access_view_eq(2) [of t s] by (simp add: select_memory_def cong: option.case_cong)

lemma select_memory_callbacks [simp]: "select_memory i m (s\<lparr>db_callbacks := c\<rparr>) = select_memory i m s"
  by (rule select_memory_eq) simp_all

lemma capture_admits_mono: "capture_admits s p l ca \<Longrightarrow> k \<le> l \<Longrightarrow> capture_admits s p k ca"
  unfolding capture_admits_def by (fastforce simp: list_ex_iff split: option.splits)

lemma capture_open_mono: "capture_open s p space l \<Longrightarrow> k \<le> l \<Longrightarrow> capture_open s p space k"
  by (auto simp: capture_open_def Let_def list_ex_iff intro: capture_admits_mono)

lemma authorized_mono: "authorized s p space l \<Longrightarrow> k \<le> l \<Longrightarrow> authorized s p space k"
  by (auto simp: authorized_def capture_open_mono split: option.splits)

lemma write_boundary_Inr [simp]:
  "write_boundary space s = Inr (u, t) \<longleftrightarrow> t = s \<and> map_of (db_fences s) space = None"
  by (auto simp: write_boundary_def)

lemma require_space_Inr [simp]:
  "require_space i space level writing s = Inr (u, t) \<longleftrightarrow>
     t = s \<and> authorized s (id_principal i) space 10
     \<and> (level > 10 \<longrightarrow> authorized s (id_principal i) space level)
     \<and> (writing \<longrightarrow> map_of (db_fences s) space = None)"
  by (auto simp: require_space_def tx_runs)

lemma check_identity_Inr [simp]: "check_identity i s = Inr (u, t) \<longleftrightarrow> t = s \<and> identity_ok i s"
  by (simp add: check_identity_def conj_commute)

lemma identity_ok_callbacks [simp]: "identity_ok i (s\<lparr>db_callbacks := c\<rparr>) = identity_ok i s"
  by (rule access_view_eq) simp

lemma transaction_Inr:
  "transaction i body s = Inr (a, t) \<longleftrightarrow> identity_ok i s \<and> body (s\<lparr>db_callbacks := []\<rparr>) = Inr (a, t)"
  by (auto simp: transaction_def tx_then_runs)

lemma memory_row_Inr:
  "memory_row i m review s = Inr (row, t) \<longleftrightarrow>
     t = s \<and> select_memory i m s = Some row \<and> m_deleted_at row = None
     \<and> authorized s (id_principal i) (m_space row) 10
     \<and> (review \<longrightarrow> authorized s (id_principal i) (m_space row) 30)
     \<and> (\<not> review \<longrightarrow> m_review row = Ordinary)"
  by (auto simp: memory_row_def tx_runs split: option.splits if_splits)

lemma select_memory_Some: "select_memory i m s = Some row \<Longrightarrow> map_of (db_memories s) m = Some row"
  by (auto simp: select_memory_def split: option.splits if_splits)

lemma idempotency_Inr:
  "idempotency i space key d s = Inr (p, t) \<longleftrightarrow>
     t = s \<and> key_ok key \<and> map_of (db_receipts s) (space, id_principal i, key) = map_option (Pair d) p"
  by (cases p) (auto simp: idempotency_def tx_runs split: option.splits if_splits prod.splits)

lemma remember_receipt_Inr:
  "remember_receipt i space key d r s = Inr (r', t) \<longleftrightarrow>
     r' = r \<and> map_of (db_receipts s) (space, id_principal i, key) = None
     \<and> t = s\<lparr>db_receipts := ((space, id_principal i, key), (d, r)) # db_receipts s\<rparr>"
  by (auto simp: remember_receipt_def tx_runs)

lemma hydrate_Inr: "hydrate m row w s = Inr (v, t) \<longleftrightarrow> t = s \<and> hydrate_view m row w s = Some v"
  by (auto simp: hydrate_def tx_runs split: option.splits)

end
