(* ===== verification/Writeback.thy ===== *)
theory Writeback
  imports Repository
begin

text \<open>
  The part of the journal writeback that runs inside a memory transaction
  (\<open>service/writeback.py\<close>): \<open>capture\<close> records an outbox event and registers the after-commit
  delivery, \<open>replay\<close> registers it again for a stored receipt. The host configuration and the
  privacy scanner are parameters.
\<close>

record destination =
  ds_id :: string
  ds_fingerprint :: string

record wb_config =
  wc_destinations :: "(uuid, destination) table"
  wc_scan :: "destination \<Rightarrow> entry \<Rightarrow> string option"
  wc_date :: "time \<Rightarrow> day \<times> nat"

definition destination_of :: "wb_config \<Rightarrow> uuid \<Rightarrow> wb_settings \<Rightarrow> destination res" where
  "destination_of wc space settings =
     (case map_of (wc_destinations wc) space of
        None \<Rightarrow> Inl (ServiceError 409 ''journal_destination_unavailable'')
      | Some d \<Rightarrow>
          if ds_id d \<noteq> w_destination settings \<or> ds_fingerprint d \<noteq> w_fingerprint settings
          then Inl (ServiceError 409 ''journal_destination_unavailable'')
          else Inr d)"

text \<open>\<open>_entry\<close> of the joined event row.\<close>

definition wb_entry :: "wb_config \<Rightarrow> db \<Rightarrow> uuid \<Rightarrow> wb_event \<Rightarrow> entry" where
  "wb_entry wc s event we =
     (let rid = (case we_revision we of None \<Rightarrow> None | Some r \<Rightarrow> map_of (db_revisions s) r);
          upsert = (we_action we = Upsert) in
      \<lparr>e_id = event, e_ts = wc_date wc (we_created_at we), e_tenant = db_tenant s,
       e_space = we_space we, e_memory = we_memory we, e_version = we_version we,
       e_writer = we_writer we, e_action = we_action we,
       e_subject = (if upsert then (case rid of None \<Rightarrow> None | Some r \<Rightarrow> r_subject r) else None),
       e_important = we_important we,
       e_text = (if upsert then map_option r_content rid else None),
       e_kind = (case rid of None \<Rightarrow> ''note'' | Some r \<Rightarrow> r_kind r),
       e_metadata = (if upsert then (case rid of None \<Rightarrow> [] | Some r \<Rightarrow> r_metadata r) else [])\<rparr>)"

definition metadata_important :: "metadata \<Rightarrow> bool" where
  "metadata_important md \<longleftrightarrow> map_of md ''important'' = Some ''true''"

text \<open>A denial suppresses the undelivered contents of the memory that the caller may see.\<close>

definition wb_suppress :: "identity \<Rightarrow> uuid \<Rightarrow> uuid \<Rightarrow> unit act" where
  "wb_suppress i space m = tx_modify (\<lambda>s.
     s\<lparr>db_wb_events := t_update (\<lambda>k e. we_space e = space \<and> we_memory e = m \<and> we_action e = Upsert
          \<and> we_state e \<in> {WbPending, WbLocal}
          \<and> (we_writer e = id_principal i \<or> authorized s (id_principal i) space 30))
        (\<lambda>e. e\<lparr>we_state := WbSuppressed\<rparr>) (db_wb_events s)\<rparr>)"

definition wb_insert :: "identity \<Rightarrow> uuid \<Rightarrow> uuid \<Rightarrow> uuid option \<Rightarrow> nat \<Rightarrow> uuid \<Rightarrow> action \<Rightarrow> unit act" where
  "wb_insert i space m rid version event act = tx_modify (\<lambda>s.
     s\<lparr>db_wb_events := (event, \<lparr>we_space = space, we_memory = m, we_revision = rid, we_version = version,
        we_writer = id_principal i, we_action = act,
        we_important = (case rid of None \<Rightarrow> False
           | Some r \<Rightarrow> (case map_of (db_revisions s) r of None \<Rightarrow> False | Some x \<Rightarrow> metadata_important (r_metadata x))),
        we_state = WbPending, we_created_at = db_now s\<rparr>) # db_wb_events s\<rparr>)"

definition after_commit :: "uuid \<Rightarrow> uuid \<Rightarrow> bool \<Rightarrow> unit act" where
  "after_commit space event important =
     tx_modify (\<lambda>s. s\<lparr>db_callbacks := db_callbacks s @ [(space, event, important)]\<rparr>)"

definition wb_capture ::
  "wb_config \<Rightarrow> identity \<Rightarrow> uuid \<Rightarrow> uuid \<Rightarrow> uuid option \<Rightarrow> nat \<Rightarrow> uuid \<Rightarrow> action \<Rightarrow> wb_receipt option act" where
  "wb_capture wc i space m rid version event act =
     tx_bind (tx_read (\<lambda>s. map_of (db_wb_settings s) space)) (\<lambda>settings.
     case settings of
       None \<Rightarrow> tx_return None
     | Some st \<Rightarrow>
         (case destination_of wc space st of
            Inl x \<Rightarrow> tx_raise x
          | Inr d \<Rightarrow>
              tx_then (if act \<noteq> Upsert then wb_suppress i space m else tx_return ())
             (tx_then (wb_insert i space m rid version event act)
             (tx_bind (tx_read (\<lambda>s. wb_entry wc s event (the (map_of (db_wb_events s) event)))) (\<lambda>e.
              case wc_scan wc d e of
                Some code \<Rightarrow> tx_raise (ServiceError 422 code)
              | None \<Rightarrow>
                  tx_then (after_commit space event (e_important e))
                          (tx_return (Some \<lparr>wr_event = event, wr_important = e_important e\<rparr>)))))))"

definition wb_replay :: "receipt \<Rightarrow> unit act" where
  "wb_replay r =
     (case rc_writeback r of
        None \<Rightarrow> tx_return ()
      | Some w \<Rightarrow> after_commit (rc_space r) (wr_event w) (wr_important w))"

section \<open>Frame\<close>

text \<open>Writeback touches its own table and the callbacks, nothing else.\<close>

definition but_writeback :: "db \<Rightarrow> db" where
  "but_writeback s = s\<lparr>db_wb_events := [], db_callbacks := []\<rparr>"

lemma stays_wb_steps:
  "stays (same but_writeback) (wb_suppress i space m)"
  "stays (same but_writeback) (wb_insert i space m rid v e a)"
  "stays (same but_writeback) (after_commit space e b)"
  by (auto simp: stays_def wb_suppress_def wb_insert_def after_commit_def but_writeback_def)

lemma stays_wb_capture: "stays (same but_writeback) (wb_capture wc i space m rid v e a)"
  unfolding wb_capture_def
  by (auto split: sum.splits option.splits intro!: stays_wb_steps stays_raise kept_part.kept_bind
      kept_part.kept_then kept_part.kept_read kept_part.kept_return)

lemma wb_capture_same: "wb_capture wc i space m rid v e a s = Inr (x, t) \<Longrightarrow> but_writeback t = but_writeback s"
  using stays_wb_capture [of wc i space m rid v e a] by (simp add: stays_def)

lemma wb_replay_same: "wb_replay r s = Inr (x, t) \<Longrightarrow> but_writeback t = but_writeback s"
  by (auto simp: wb_replay_def after_commit_def but_writeback_def split: option.splits)

end
