(* ===== verification/Memory_Service.thy ===== *)
theory Memory_Service
  imports Writeback
begin

text \<open>
  The canonical memory writes (\<open>service/memory.py\<close>): a revision with its evidence, the indexing
  operation and job, saving, revising and reviewing. The commands are those of
  \<open>service/models.py\<close>; the routing of candidate jobs is \<open>service/model_state.py\<close>. SHA-256 over
  JSON payloads, the text-change chronology and the writeback configuration are parameters.
\<close>

section \<open>Commands\<close>

text \<open>\<open>str\<close> of a natural number.\<close>

fun decimal :: "nat \<Rightarrow> string" where
  "decimal n = (if n < 10 then [digit_char n] else decimal (n div 10) @ [digit_char (n mod 10)])"

declare decimal.simps [simp del]

record source_input =
  si_title :: string
  si_uri :: "string option"
  si_content :: "string option"
  si_media :: string
  si_start :: nat
  si_end :: "nat option"

record memory_input =
  in_content :: string
  in_kind :: string
  in_subject :: "string option"
  in_metadata :: metadata
  in_source :: "source_input option"
  in_claim :: claim_status
  in_valid_from :: "time option"
  in_valid_to :: "time option"

text \<open>A revision names only the fields it sets; the outer \<open>option\<close> is "unset".\<close>

record revision_input =
  ri_content :: string
  ri_kind :: "string option"
  ri_subject :: "string option option"
  ri_metadata :: "metadata option"
  ri_source :: "source_input option"
  ri_claim :: "claim_status option"
  ri_valid_from :: "time option option"
  ri_valid_to :: "time option option"
  ri_expected :: nat
  ri_reason :: string

record review_input =
  rv_expected :: nat
  rv_state :: review_state
  rv_reason :: string

text \<open>The model validators \<open>nonblank\<close> and \<open>evidence_and_time\<close>.\<close>

definition source_span_ok :: "source_input \<Rightarrow> bool" where
  "source_span_ok si =
     (case si_content si of
        Some c \<Rightarrow> (let e = (case si_end si of None \<Rightarrow> length c | Some e \<Rightarrow> e)
                    in si_start si < e \<and> e \<le> length c)
      | None \<Rightarrow> si_start si = 0 \<and> si_end si = None)"

definition memory_input_ok :: "memory_input \<Rightarrow> bool" where
  "memory_input_ok c \<longleftrightarrow> \<not> blank (in_content c)
     \<and> (case (in_valid_from c, in_valid_to c) of (Some a, Some b) \<Rightarrow> a < b | _ \<Rightarrow> True)
     \<and> (case in_source c of None \<Rightarrow> True | Some si \<Rightarrow> source_span_ok si)"

datatype request =
    IngestRequest memory_input
  | ReviseRequest uuid revision_input bool
  | DeleteRequest uuid nat

record svc =
  sv_generation :: string
  sv_sha :: "string \<Rightarrow> digest"
  sv_request :: "request \<Rightarrow> digest"
  sv_times :: "string \<Rightarrow> metadata \<Rightarrow> time \<Rightarrow> revision option \<Rightarrow> string"
  sv_writeback :: "wb_config option"

section \<open>Revisions\<close>

text \<open>The revision of a memory with the highest version (\<open>ORDER BY version DESC LIMIT 1\<close>).\<close>

definition latest_revision :: "db \<Rightarrow> uuid \<Rightarrow> uuid \<Rightarrow> revision option" where
  "latest_revision s space m =
     (let rs = map snd (filter (\<lambda>(i, r). r_memory r = m \<and> r_space r = space) (db_revisions s))
      in if rs = [] then None else Some (foldr (\<lambda>r b. if r_version r > r_version b then r else b) rs (hd rs)))"

definition add_revision :: "uuid \<Rightarrow> revision \<Rightarrow> unit act" where
  "add_revision rid r = tx_modify (\<lambda>s. s\<lparr>db_revisions := (rid, r) # db_revisions s\<rparr>)"

definition add_source :: "uuid \<Rightarrow> source \<Rightarrow> unit act" where
  "add_source k r = tx_modify (\<lambda>s. s\<lparr>db_sources := (k, r) # db_sources s\<rparr>)"

definition add_source_revision :: "uuid \<Rightarrow> source_revision \<Rightarrow> unit act" where
  "add_source_revision k r = tx_modify (\<lambda>s. s\<lparr>db_source_revisions := (k, r) # db_source_revisions s\<rparr>)"

definition preserved_revision ::
  "identity \<Rightarrow> uuid \<Rightarrow> uuid \<Rightarrow> nat \<Rightarrow> memory_input \<Rightarrow> uuid \<Rightarrow> uuid \<Rightarrow> uuid act" where
  "preserved_revision i space m version c from rid =
     tx_bind (tx_read (\<lambda>s. map_of (db_revisions s) from)) (\<lambda>found.
     case found of
       None \<Rightarrow> tx_raise not_found
     | Some r \<Rightarrow>
         if r_memory r \<noteq> m \<or> r_space r \<noteq> space then tx_raise not_found
         else tx_bind (tx_read db_now) (\<lambda>now.
              tx_then (add_revision rid (r\<lparr>r_version := version, r_metadata := in_metadata c,
                         r_subject := in_subject c, r_created_by := id_principal i, r_recorded_at := now\<rparr>))
                      (tx_return rid)))"

definition captured_revision ::
  "svc \<Rightarrow> identity \<Rightarrow> uuid \<Rightarrow> uuid \<Rightarrow> nat \<Rightarrow> memory_input \<Rightarrow> uuid \<Rightarrow> uuid \<Rightarrow> uuid \<Rightarrow> uuid act" where
  "captured_revision sv i space m version c sid srid rid =
     tx_bind (tx_read (\<lambda>s. (latest_revision s space m, db_now s))) (\<lambda>(prior, now).
     (let content = (case in_source c of
                       Some si \<Rightarrow> (case si_content si of Some t \<Rightarrow> t | None \<Rightarrow> in_content c)
                     | None \<Rightarrow> in_content c);
          start = (case in_source c of Some si \<Rightarrow> si_start si | None \<Rightarrow> 0);
          stop = (case in_source c of
                    Some si \<Rightarrow> (case si_end si of Some e \<Rightarrow> e | None \<Rightarrow> length content)
                  | None \<Rightarrow> length content)
      in tx_then (add_source sid \<lparr>s_space = space,
                    s_title = (case in_source c of Some si \<Rightarrow> si_title si | None \<Rightarrow> ''Captured evidence''),
                    s_uri = (case in_source c of Some si \<Rightarrow> si_uri si | None \<Rightarrow> None),
                    s_created_by = id_principal i, s_deleted_at = None\<rparr>)
        (tx_then (add_source_revision srid \<lparr>sr_space = space, sr_source = sid, sr_content = content,
                    sr_hash = sv_sha sv content,
                    sr_media = (case in_source c of Some si \<Rightarrow> si_media si | None \<Rightarrow> ''text/plain''),
                    sr_recorded_at = now\<rparr>)
        (tx_then (add_revision rid \<lparr>r_space = space, r_memory = m, r_version = version,
                    r_content = in_content c, r_hash = sv_sha sv (in_content c), r_metadata = in_metadata c,
                    r_subject = in_subject c, r_kind = in_kind c, r_source = srid, r_start = start,
                    r_end = stop, r_claim = in_claim c, r_valid_from = in_valid_from c,
                    r_valid_to = in_valid_to c, r_created_by = id_principal i, r_recorded_at = now,
                    r_times = sv_times sv (in_content c) (in_metadata c) now prior\<rparr>)
                 (tx_return rid)))))"

definition revision_tx ::
  "svc \<Rightarrow> identity \<Rightarrow> uuid \<Rightarrow> uuid \<Rightarrow> nat \<Rightarrow> memory_input \<Rightarrow> uuid option \<Rightarrow> uuid act" where
  "revision_tx sv i space m version c evidence_from =
     tx_bind fresh (\<lambda>sid. tx_bind fresh (\<lambda>srid. tx_bind fresh (\<lambda>rid.
     case evidence_from of
       Some from \<Rightarrow> preserved_revision i space m version c from rid
     | None \<Rightarrow> captured_revision sv i space m version c sid srid rid)))"

section \<open>Operations and jobs\<close>

definition add_operation :: "uuid \<Rightarrow> operation \<Rightarrow> unit act" where
  "add_operation k r = tx_modify (\<lambda>s. s\<lparr>db_operations := (k, r) # db_operations s\<rparr>)"

definition add_job :: "uuid \<Rightarrow> job \<Rightarrow> unit act" where
  "add_job k r = tx_modify (\<lambda>s. s\<lparr>db_jobs := (k, r) # db_jobs s\<rparr>)"

definition new_operation :: "uuid \<Rightarrow> uuid \<Rightarrow> uuid \<Rightarrow> uuid option \<Rightarrow> op_kind \<Rightarrow> time \<Rightarrow> operation" where
  "new_operation author space m rid kind now = \<lparr>o_space = space, o_memory = m, o_revision = rid, o_kind = kind,
     o_state = Accepted, o_error = None, o_created_by = author, o_created_at = now\<rparr>"

definition new_job ::
  "uuid \<Rightarrow> uuid \<Rightarrow> uuid option \<Rightarrow> string option \<Rightarrow> job_kind \<Rightarrow> uuid option \<Rightarrow> time \<Rightarrow> job" where
  "new_job space op rid gen kind run now = \<lparr>j_space = space, j_operation = op, j_revision = rid,
     j_generation = gen, j_kind = kind, j_state = Pending, j_attempts = 0, j_available_at = now,
     j_lease = None, j_lease_until = None, j_error = None, j_run = run, j_created_at = now\<rparr>"

text \<open>\<open>model_state.settings\<close>: the row of the space or the defaults, with its candidate run.\<close>

record routing =
  ro_generation :: string
  ro_run :: "uuid option"
  ro_candidate :: "string option"
  ro_candidate_state :: "run_state option"
  ro_approved :: bool
  ro_paused :: bool
  ro_version :: nat
  ro_previous :: "string option"

definition settings :: "string \<Rightarrow> uuid \<Rightarrow> db \<Rightarrow> routing" where
  "settings fallback space s =
     (case map_of (db_settings s) space of
        None \<Rightarrow> \<lparr>ro_generation = fallback, ro_run = None, ro_candidate = None,
                 ro_candidate_state = None, ro_approved = False, ro_paused = False, ro_version = 0,
                 ro_previous = None\<rparr>
      | Some st \<Rightarrow>
          (let run = (case es_run st of None \<Rightarrow> None
                      | Some k \<Rightarrow> (case map_of (db_runs s) k of None \<Rightarrow> None
                                   | Some rr \<Rightarrow> if rr_space rr = space then Some rr else None))
           in \<lparr>ro_generation = es_generation st, ro_run = es_run st,
               ro_candidate = map_option rr_generation run,
               ro_candidate_state = map_option rr_state run,
               ro_approved = (case run of None \<Rightarrow> False | Some rr \<Rightarrow> rr_egress rr), ro_paused = es_paused st,
               ro_version = es_version st, ro_previous = es_previous st\<rparr>))"

definition in_space :: "db \<Rightarrow> uuid \<Rightarrow> uuid \<Rightarrow> bool" where
  "in_space s space rid = (case map_of (db_revisions s) rid of None \<Rightarrow> False | Some r \<Rightarrow> r_space r = space)"

definition enqueue_candidate ::
  "uuid \<Rightarrow> uuid \<Rightarrow> uuid \<Rightarrow> uuid option \<Rightarrow> uuid \<Rightarrow> string option \<Rightarrow> bool act" where
  "enqueue_candidate author space m rid run gen =
     tx_bind (tx_read (\<lambda>s.
        list_ex (\<lambda>(k, j). j_space j = space \<and> j_run j = Some run \<and> rid \<noteq> None \<and> j_revision j = rid) (db_jobs s)
        \<or> list_ex (\<lambda>((r, g, n), c). rid = Some r \<and> gen = Some g \<and> in_space s space r) (db_embeddings s))) (\<lambda>present.
     if present then tx_return False
     else tx_bind fresh (\<lambda>op. tx_bind (tx_read db_now) (\<lambda>now.
          tx_then (add_operation op (new_operation author space m rid Reindex now))
         (tx_bind fresh (\<lambda>jid.
          tx_then (add_job jid (new_job space op rid gen Embed (Some run) now)) (tx_return True))))))"

definition route_candidate :: "identity \<Rightarrow> uuid \<Rightarrow> uuid \<Rightarrow> uuid option \<Rightarrow> routing option \<Rightarrow> unit act" where
  "route_candidate i space m rid st =
     (case st of
        None \<Rightarrow> tx_return ()
      | Some r \<Rightarrow>
         (case ro_run r of
            None \<Rightarrow> tx_return ()
          | Some run \<Rightarrow> tx_bind (enqueue_candidate (id_principal i) space m rid run (ro_candidate r)) (\<lambda>_. tx_return ())))"

definition capture_write ::
  "svc \<Rightarrow> identity \<Rightarrow> uuid \<Rightarrow> uuid \<Rightarrow> uuid option \<Rightarrow> nat \<Rightarrow> uuid \<Rightarrow> action \<Rightarrow> wb_receipt option act" where
  "capture_write sv i space m rid version event act =
     (case sv_writeback sv of
        None \<Rightarrow> tx_return None
      | Some wc \<Rightarrow> wb_capture wc i space m rid version event act)"

definition operation_tx ::
  "svc \<Rightarrow> identity \<Rightarrow> uuid \<Rightarrow> uuid \<Rightarrow> uuid option \<Rightarrow> op_kind \<Rightarrow> receipt act" where
  "operation_tx sv i space m rid kind =
     tx_bind (tx_read (\<lambda>s. if kind \<noteq> Delete then Some (settings (sv_generation sv) space s) else None)) (\<lambda>st.
     tx_bind fresh (\<lambda>op. tx_bind (tx_read db_now) (\<lambda>now.
     (let gen = map_option ro_generation st in
      tx_then (add_operation op (new_operation (id_principal i) space m rid kind now))
     (tx_bind fresh (\<lambda>jid.
      tx_then (add_job jid (new_job space op rid gen (if kind = Delete then Purge else Embed) None now))
     (tx_then (route_candidate i space m rid st)
     (tx_bind (tx_read (\<lambda>s. case map_of (db_memories s) m of None \<Rightarrow> 0 | Some r \<Rightarrow> m_version r)) (\<lambda>version.
      tx_bind (capture_write sv i space m rid version op (if kind = Delete then Forget else Upsert)) (\<lambda>wr.
      tx_return \<lparr>rc_operation = op, rc_memory = m, rc_revision = rid, rc_space = space,
                 rc_state = Accepted, rc_lexical = (kind \<noteq> Delete), rc_generation = gen,
                 rc_version = version, rc_deleted = False, rc_purged = None, rc_writeback = wr,
                 rc_capture = None\<rparr>))))))))))"

section \<open>Saving\<close>

definition replay_previous :: "svc \<Rightarrow> receipt \<Rightarrow> receipt act" where
  "replay_previous sv r =
     tx_then (case sv_writeback sv of None \<Rightarrow> tx_return () | Some wc \<Rightarrow> wb_replay r) (tx_return r)"

definition put_memory :: "uuid \<Rightarrow> memory \<Rightarrow> unit act" where
  "put_memory m row = tx_modify (\<lambda>s. s\<lparr>db_memories := (m, row) # db_memories s\<rparr>)"

definition update_memory :: "uuid \<Rightarrow> (memory \<Rightarrow> memory) \<Rightarrow> unit act" where
  "update_memory m f = tx_modify (\<lambda>s. s\<lparr>db_memories := t_update (\<lambda>k r. k = m) f (db_memories s)\<rparr>)"

definition save_new ::
  "svc \<Rightarrow> identity \<Rightarrow> uuid \<Rightarrow> memory_input \<Rightarrow> string \<Rightarrow> digest \<Rightarrow> receipt act" where
  "save_new sv i space c key digest =
     tx_bind fresh (\<lambda>m.
     tx_bind (tx_read db_now) (\<lambda>now.
     tx_then (put_memory m \<lparr>m_space = space, m_subject = in_subject c, m_kind = in_kind c,
                m_current = None, m_version = 0, m_review = Ordinary,
                m_created_by = id_principal i, m_created_at = now, m_updated_at = now, m_deleted_at = None\<rparr>)
    (tx_bind (revision_tx sv i space m 1 c None) (\<lambda>rid.
     tx_then (update_memory m (\<lambda>r. r\<lparr>m_current := Some rid, m_version := 1\<rparr>))
    (tx_bind (operation_tx sv i space m (Some rid) Ingest) (\<lambda>rc.
     tx_then (audit i ''memory.created'' (uuid_text m) space None [(''revision_id'', uuid_text rid)])
             (remember_receipt i space key digest (rc\<lparr>rc_version := 1\<rparr>))))))))"

definition save_in_transaction :: "svc \<Rightarrow> identity \<Rightarrow> uuid \<Rightarrow> memory_input \<Rightarrow> string \<Rightarrow> receipt act" where
  "save_in_transaction sv i space c key =
     tx_then (require_space i space 20 True)
    (tx_then (if in_claim c \<noteq> Observed then require_space i space 30 False else tx_return ())
    (let digest = sv_request sv (IngestRequest c) in
     tx_bind (idempotency i space key digest) (\<lambda>previous.
     case previous of
       Some r \<Rightarrow> replay_previous sv r
     | None \<Rightarrow> save_new sv i space c key digest)))"

definition save :: "svc \<Rightarrow> identity \<Rightarrow> uuid \<Rightarrow> memory_input \<Rightarrow> string \<Rightarrow> receipt act" where
  "save sv i space c key = transaction i (save_in_transaction sv i space c key)"

section \<open>Revising\<close>

definition require_version :: "memory \<Rightarrow> nat \<Rightarrow> unit act" where
  "require_version row expected = tx_guard (\<lambda>_. m_version row = expected) version_conflict"

definition merged :: "memory_view \<Rightarrow> revision_input \<Rightarrow> memory_input" where
  "merged v c = \<lparr>in_content = ri_content c,
     in_kind = (case ri_kind c of None \<Rightarrow> v_kind v | Some k \<Rightarrow> k),
     in_subject = (case ri_subject c of None \<Rightarrow> v_subject v | Some x \<Rightarrow> x),
     in_metadata = (case ri_metadata c of None \<Rightarrow> v_metadata v | Some x \<Rightarrow> x),
     in_source = ri_source c,
     in_claim = (case ri_claim c of None \<Rightarrow> v_claim v | Some x \<Rightarrow> x),
     in_valid_from = (case ri_valid_from c of None \<Rightarrow> v_valid_from v | Some x \<Rightarrow> x),
     in_valid_to = (case ri_valid_to c of None \<Rightarrow> v_valid_to v | Some x \<Rightarrow> x)\<rparr>"

definition reviewer_of :: "identity \<Rightarrow> uuid \<Rightarrow> db \<Rightarrow> bool" where
  "reviewer_of i m s = (case select_memory i m s of
     None \<Rightarrow> False | Some row \<Rightarrow> authorized s (id_principal i) (m_space row) 30)"

text \<open>A nested revision owns no caller-visible key: its enclosing operation keeps the receipt.\<close>

definition finish_receipt :: "identity \<Rightarrow> uuid \<Rightarrow> (string \<times> digest) option \<Rightarrow> receipt \<Rightarrow> receipt act" where
  "finish_receipt i space slot rc =
     (case slot of None \<Rightarrow> tx_return rc | Some (key, digest) \<Rightarrow> remember_receipt i space key digest rc)"

text \<open>The write itself, once the row is locked and every check has passed.\<close>

definition revise_apply ::
  "svc \<Rightarrow> identity \<Rightarrow> uuid \<Rightarrow> memory_input \<Rightarrow> memory \<Rightarrow> uuid option \<Rightarrow> string \<Rightarrow> (string \<times> digest) option \<Rightarrow> receipt act" where
  "revise_apply sv i m command row evidence_from reason slot =
     (let space = m_space row; version = m_version row + 1 in
      tx_bind (revision_tx sv i space m version command evidence_from) (\<lambda>rid.
      tx_bind (tx_read db_now) (\<lambda>now.
      tx_then (update_memory m (\<lambda>r. r\<lparr>m_current := Some rid, m_version := version,
                 m_subject := in_subject command, m_kind := in_kind command, m_updated_at := now\<rparr>))
     (tx_bind (operation_tx sv i space m (Some rid) Revise) (\<lambda>rc.
      tx_then (audit i ''memory.revised'' (uuid_text m) space (Some (m, Some reason))
                 [(''revision_id'', uuid_text rid),
                  (''previous_revision_id'', case m_current row of None \<Rightarrow> ''null'' | Some r \<Rightarrow> uuid_text r)])
              (finish_receipt i space slot (rc\<lparr>rc_version := version\<rparr>)))))))"

definition revise_locked ::
  "svc \<Rightarrow> identity \<Rightarrow> uuid \<Rightarrow> uuid \<Rightarrow> revision_input \<Rightarrow> (string \<times> digest) option \<Rightarrow> bool \<Rightarrow> bool \<Rightarrow> receipt act" where
  "revise_locked sv i space m c slot preserve review =
     tx_bind (memory_row i m review) (\<lambda>row.
     tx_then (require_version row (ri_expected c))
    (tx_bind (hydrate m row None) (\<lambda>current.
     tx_then (tx_guard (\<lambda>_. \<not> (preserve \<and> (ri_source c \<noteq> None \<or> ri_content c \<noteq> v_content current))) ValueError)
    (let command = merged current c in
     tx_then (tx_guard (\<lambda>_. memory_input_ok command) ValueError)
    (tx_then (if in_claim command \<noteq> Observed \<or> v_claim current \<noteq> Observed
              then require_space i space 30 False else tx_return ())
             (revise_apply sv i m command row (if preserve then m_current row else None)
                (ri_reason c) slot))))))"

definition revise_keyed ::
  "svc \<Rightarrow> identity \<Rightarrow> uuid \<Rightarrow> uuid \<Rightarrow> revision_input \<Rightarrow> string option \<Rightarrow> bool \<Rightarrow> bool \<Rightarrow> receipt act" where
  "revise_keyed sv i space m c key preserve review =
     (case key of
        None \<Rightarrow> revise_locked sv i space m c None preserve review
      | Some k \<Rightarrow>
         (let digest = sv_request sv (ReviseRequest m c preserve) in
          tx_bind (idempotency i space k digest) (\<lambda>previous.
          case previous of
            Some r \<Rightarrow> replay_previous sv r
          | None \<Rightarrow> revise_locked sv i space m c (Some (k, digest)) preserve review)))"

definition revise_in_transaction ::
  "svc \<Rightarrow> identity \<Rightarrow> uuid \<Rightarrow> revision_input \<Rightarrow> string option \<Rightarrow> bool \<Rightarrow> receipt act" where
  "revise_in_transaction sv i m c key preserve =
     tx_bind (tx_read (reviewer_of i m)) (\<lambda>review.
     tx_bind (memory_row i m review) (\<lambda>row.
     tx_then (require_space i (m_space row) 20 True)
             (revise_keyed sv i (m_space row) m c key preserve review)))"

definition revise :: "svc \<Rightarrow> identity \<Rightarrow> uuid \<Rightarrow> revision_input \<Rightarrow> string \<Rightarrow> receipt act" where
  "revise sv i m c key = transaction i (revise_in_transaction sv i m c (Some key) False)"

section \<open>Reviewing\<close>

definition purge_librarian_dependencies :: "uuid \<Rightarrow> uuid \<Rightarrow> unit act" where
  "purge_librarian_dependencies space m = tx_modify (\<lambda>s.
     (let affected = map fst (filter (\<lambda>(p, m'). m' = m) (db_dependencies s)) in
      s\<lparr>db_proposals := t_update (\<lambda>k r. k \<in> set affected \<and> lp_space r = space)
           (\<lambda>r. r\<lparr>lp_state := ProposalInvalidated, lp_suggestion := None, lp_version := lp_version r + 1,
                  lp_previous := None, lp_applied := None, lp_applied_version := None\<rparr>) (db_proposals s),
        db_dependencies := filter (\<lambda>(p, m'). p \<notin> set affected) (db_dependencies s),
        db_observations := t_delete (\<lambda>k m'. m' = m) (db_observations s)\<rparr>))"

definition review_publish :: "svc \<Rightarrow> identity \<Rightarrow> uuid \<Rightarrow> review_state \<Rightarrow> memory \<Rightarrow> unit act" where
  "review_publish sv i m state row =
     (if sv_writeback sv = None then tx_return ()
      else tx_bind fresh (\<lambda>event.
           tx_bind (capture_write sv i (m_space row) m (if state = Ordinary then m_current row else None)
                      (m_version row + 1) event (if state = Ordinary then Upsert else Quarantine)) (\<lambda>_.
           tx_return ())))"

definition review_apply :: "svc \<Rightarrow> identity \<Rightarrow> uuid \<Rightarrow> review_input \<Rightarrow> memory \<Rightarrow> (nat \<times> review_state) act" where
  "review_apply sv i m c row =
     (let version = m_version row + 1; space = m_space row in
      tx_then (if rv_state c = Quarantined then purge_librarian_dependencies space m else tx_return ())
     (tx_bind (tx_read db_now) (\<lambda>now.
      tx_then (update_memory m (\<lambda>r. r\<lparr>m_review := rv_state c, m_version := version, m_updated_at := now\<rparr>))
     (tx_then (audit i ''memory.reviewed'' (uuid_text m) space (Some (m, Some (rv_reason c)))
                 [(''state'', if rv_state c = Ordinary then ''ordinary'' else ''quarantined''),
                  (''version'', decimal version)])
     (tx_then (review_publish sv i m (rv_state c) row)
              (tx_return (version, rv_state c)))))))"

definition review_in_transaction :: "svc \<Rightarrow> identity \<Rightarrow> uuid \<Rightarrow> review_input \<Rightarrow> (nat \<times> review_state) act" where
  "review_in_transaction sv i m c =
     tx_bind (memory_row i m True) (\<lambda>visible.
     tx_then (require_space i (m_space visible) 30 True)
    (tx_bind (memory_row i m True) (\<lambda>row.
     tx_then (require_version row (rv_expected c)) (review_apply sv i m c row))))"

definition review :: "svc \<Rightarrow> identity \<Rightarrow> uuid \<Rightarrow> review_input \<Rightarrow> (nat \<times> review_state) act" where
  "review sv i m c = transaction i (review_in_transaction sv i m c)"

end
