(* ===== verification/Memory_Forget.thy ===== *)
theory Memory_Forget
  imports Memory_Service "HOL-Library.AList" "HOL-Library.List_Lexorder"
begin

text \<open>
  Withdrawal (\<open>service/withdrawal.py\<close>), deletion with its capture family
  (\<open>service/capture_withdrawal.py\<close>, \<open>MemoryService.forget\<close>), operations and their retry, and the
  core blocks. Deletion is a denial: the row keeps its identity, every job and operation of the
  memory is cancelled, and a purge job is queued for the worker.
\<close>

section \<open>Who may withdraw\<close>

definition withdrawal_allowed :: "identity \<Rightarrow> uuid \<Rightarrow> memory \<Rightarrow> db \<Rightarrow> bool" where
  "withdrawal_allowed i m row s \<longleftrightarrow>
     authorized s (id_principal i) (m_space row) 30 \<or>
     (authorized s (id_principal i) (m_space row) 20 \<and> m_review row = Ordinary
      \<and> m_created_by row = id_principal i
      \<and> (if m_deleted_at row \<noteq> None
         then (case map_of (db_deletions s) m of None \<Rightarrow> False | Some d \<Rightarrow> d_requested_by d = id_principal i)
         else (case m_current row of
                 None \<Rightarrow> False
               | Some rid \<Rightarrow>
                   (case map_of (db_revisions s) rid of
                      None \<Rightarrow> False
                    | Some r \<Rightarrow> r_memory r = m \<and> r_claim r \<noteq> Verified
                        \<and> list_all (\<lambda>(k, x). r_memory x = m \<longrightarrow> r_created_by x = id_principal i)
                             (db_revisions s)))))"

definition withdrawal_target :: "identity \<Rightarrow> uuid \<Rightarrow> memory act" where
  "withdrawal_target i m =
     tx_bind (tx_read (select_memory i m)) (\<lambda>found.
     case found of
       None \<Rightarrow> tx_raise not_found
     | Some row \<Rightarrow>
         tx_then (require_space i (m_space row) 20 False)
        (tx_then (tx_guard (\<lambda>s. m_review row = Ordinary \<or> authorized s (id_principal i) (m_space row) 30) not_found)
        (tx_then (tx_guard (withdrawal_allowed i m row) (ServiceError 403 ''requires_reviewer''))
                 (tx_return row))))"

section \<open>The capture family\<close>

definition family :: "uuid \<Rightarrow> db \<Rightarrow> (string \<times> uuid list) option" where
  "family m s =
     (case map_of (db_capture_events s) m of
        None \<Rightarrow> None
      | Some origin \<Rightarrow> Some (ce_lineage origin,
          map fst (filter (\<lambda>(k, e). ce_source e = ce_source origin \<and> ce_lineage e = ce_lineage origin)
                          (db_capture_events s))))"

definition retained :: "db \<Rightarrow> uuid \<Rightarrow> bool" where
  "retained s m = (case map_of (db_memories s) m of None \<Rightarrow> False | Some r \<Rightarrow> m_deleted_at r = None)"

definition capture_preview_of :: "uuid \<Rightarrow> db \<Rightarrow> capture_preview option" where
  "capture_preview_of m s =
     map_option (\<lambda>(lineage, ms). \<lparr>cp_lineage = lineage, cp_retained = length (filter (retained s) ms)\<rparr>) (family m s)"

definition siblings :: "uuid \<Rightarrow> db \<Rightarrow> uuid list" where
  "siblings m s =
     (case family m s of
        None \<Rightarrow> []
      | Some (lineage, ms) \<Rightarrow> sort (remdups (filter (\<lambda>k. k \<noteq> m \<and> retained s k) ms)))"

section \<open>Forgetting one record\<close>

definition live_op :: "op_state \<Rightarrow> bool" where
  "live_op st \<longleftrightarrow> st \<in> {Accepted, Indexing, OpFailed}"

definition live_job :: "job_state \<Rightarrow> bool" where
  "live_job st \<longleftrightarrow> st \<in> {Pending, Leased, Failed}"

definition job_of :: "db \<Rightarrow> uuid \<Rightarrow> job \<Rightarrow> bool" where
  "job_of s m j = (case map_of (db_operations s) (j_operation j) of
     None \<Rightarrow> False | Some op \<Rightarrow> o_memory op = m \<and> o_space op = j_space j)"

definition cancel_jobs :: "uuid \<Rightarrow> unit act" where
  "cancel_jobs m = tx_modify (\<lambda>s. s\<lparr>db_jobs := t_update (\<lambda>k j. job_of s m j \<and> live_job (j_state j))
     (\<lambda>j. j\<lparr>j_state := JobCancelled, j_lease := None, j_lease_until := None\<rparr>) (db_jobs s)\<rparr>)"

definition cancel_operations :: "uuid \<Rightarrow> unit act" where
  "cancel_operations m = tx_modify (\<lambda>s. s\<lparr>db_operations := t_update (\<lambda>k op. o_memory op = m \<and> live_op (o_state op))
     (\<lambda>op. op\<lparr>o_state := OpCancelled\<rparr>) (db_operations s)\<rparr>)"

definition add_denial :: "uuid \<Rightarrow> uuid \<Rightarrow> unit act" where
  "add_denial space m = tx_modify (\<lambda>s.
     if map_of (db_denials s) m = None then s\<lparr>db_denials := (m, space) # db_denials s\<rparr> else s)"

definition add_deletion :: "uuid \<Rightarrow> uuid \<Rightarrow> identity \<Rightarrow> unit act" where
  "add_deletion m op i =
     tx_then (tx_guard (\<lambda>s. map_of (db_deletions s) m = None) (DatabaseError ''deletion_receipts_pkey''))
             (tx_modify (\<lambda>s. s\<lparr>db_deletions := (m, \<lparr>d_operation = op, d_requested_by = id_principal i,
                d_requested_at = db_now s, d_purged_at = None\<rparr>) # db_deletions s\<rparr>))"

definition forget_record :: "svc \<Rightarrow> identity \<Rightarrow> uuid \<Rightarrow> memory \<Rightarrow> receipt act" where
  "forget_record sv i m row =
     (let space = m_space row in
      tx_then (purge_librarian_dependencies space m)
     (tx_bind (tx_read db_now) (\<lambda>now.
      tx_then (update_memory m (\<lambda>r. r\<lparr>m_deleted_at := Some now, m_updated_at := now, m_version := m_version r + 1\<rparr>))
     (tx_then (cancel_jobs m)
     (tx_then (cancel_operations m)
     (tx_bind (operation_tx sv i space m None Delete) (\<lambda>rc.
      tx_then (add_denial space m)
     (tx_then (add_deletion m (rc_operation rc) i)
     (tx_then (audit i ''memory.deleted'' (uuid_text m) space None [])
              (tx_return (rc\<lparr>rc_deleted := True, rc_version := m_version row + 1\<rparr>)))))))))))"

definition deleted_receipt :: "uuid \<Rightarrow> memory \<Rightarrow> db \<Rightarrow> receipt option" where
  "deleted_receipt m row s =
     (case map_of (db_deletions s) m of
        None \<Rightarrow> None
      | Some d \<Rightarrow>
         (case map_of (db_operations s) (d_operation d) of
            None \<Rightarrow> None
          | Some op \<Rightarrow> Some \<lparr>rc_operation = d_operation d, rc_memory = m, rc_revision = None,
              rc_space = m_space row, rc_state = o_state op, rc_lexical = False, rc_generation = None,
              rc_version = m_version row, rc_deleted = True,
              rc_purged = Some (d_requested_at d, d_purged_at d), rc_writeback = None, rc_capture = None\<rparr>))"

text \<open>
  \<open>forget_in_transaction\<close>; \<open>withdraw\<close> is what it does with the capture family (nothing for a member
  that is itself forgotten as a sibling).
\<close>

definition forget_live ::
  "(uuid \<Rightarrow> capture_preview option act) \<Rightarrow> svc \<Rightarrow> identity \<Rightarrow> uuid \<Rightarrow> nat \<Rightarrow> string \<Rightarrow> digest \<Rightarrow> memory \<Rightarrow> receipt act" where
  "forget_live withdraw sv i m expected key digest row =
     tx_then (require_version row expected)
    (tx_bind (withdraw m) (\<lambda>cf.
     tx_bind (forget_record sv i m row) (\<lambda>rc.
     remember_receipt i (m_space row) key digest (rc\<lparr>rc_capture := cf\<rparr>))))"

definition forget_again :: "identity \<Rightarrow> uuid \<Rightarrow> string \<Rightarrow> digest \<Rightarrow> memory \<Rightarrow> receipt act" where
  "forget_again i m key digest row =
     tx_bind (tx_read (deleted_receipt m row)) (\<lambda>found.
     case found of
       None \<Rightarrow> tx_raise RuntimeError
     | Some rc \<Rightarrow> remember_receipt i (m_space row) key digest rc)"

definition forget_row ::
  "(uuid \<Rightarrow> capture_preview option act) \<Rightarrow> svc \<Rightarrow> identity \<Rightarrow> uuid \<Rightarrow> nat \<Rightarrow> string \<Rightarrow> memory \<Rightarrow> receipt option \<Rightarrow> receipt act" where
  "forget_row withdraw sv i m expected key row previous = (case previous of
         Some r \<Rightarrow> replay_previous sv r
       | None \<Rightarrow>
          if m_deleted_at row \<noteq> None then forget_again i m key (sv_request sv (DeleteRequest m expected)) row
          else forget_live withdraw sv i m expected key (sv_request sv (DeleteRequest m expected)) row)"

definition forget_with ::
  "(uuid \<Rightarrow> capture_preview option act) \<Rightarrow> svc \<Rightarrow> identity \<Rightarrow> uuid \<Rightarrow> nat \<Rightarrow> string \<Rightarrow> receipt act" where
  "forget_with withdraw sv i m expected key =
     tx_bind (withdrawal_target i m) (\<lambda>visible.
     tx_then (require_space i (m_space visible) 20 True)
    (tx_bind (idempotency i (m_space visible) key (sv_request sv (DeleteRequest m expected))) (\<lambda>previous.
     tx_bind (withdrawal_target i m) (\<lambda>row.
     tx_then (check_identity i) (forget_row withdraw sv i m expected key row previous)))))"

definition forget_plain :: "svc \<Rightarrow> identity \<Rightarrow> uuid \<Rightarrow> nat \<Rightarrow> string \<Rightarrow> receipt act" where
  "forget_plain = forget_with (\<lambda>m. tx_return None)"

text \<open>
  \<open>forget_siblings\<close>: the live members in order of identifier, each at the version it has when its
  turn comes; the pages of 32 are their concatenation because a forgotten sibling only leaves the
  set and never changes another row.
\<close>

definition forget_sibling :: "svc \<Rightarrow> identity \<Rightarrow> uuid \<Rightarrow> (uuid \<Rightarrow> uuid \<Rightarrow> string) \<Rightarrow> uuid \<Rightarrow> unit act" where
  "forget_sibling sv i m family_key k =
     tx_bind (tx_read (\<lambda>s. map_of (db_memories s) k)) (\<lambda>found.
     case found of
       None \<Rightarrow> tx_return ()
     | Some row \<Rightarrow>
         if m_deleted_at row \<noteq> None then tx_return ()
         else tx_bind (forget_plain sv i k (m_version row) (family_key m k)) (\<lambda>_. tx_return ()))"

definition forget_siblings :: "svc \<Rightarrow> identity \<Rightarrow> (uuid \<Rightarrow> uuid \<Rightarrow> string) \<Rightarrow> uuid \<Rightarrow> capture_preview option act" where
  "forget_siblings sv i family_key m =
     tx_bind (tx_read (capture_preview_of m)) (\<lambda>description.
     case description of
       None \<Rightarrow> tx_return None
     | Some d \<Rightarrow>
         tx_bind (tx_read (siblings m)) (\<lambda>ks.
         tx_then (tx_each (forget_sibling sv i m family_key) ks) (tx_return (Some d))))"

definition forget_in_transaction ::
  "svc \<Rightarrow> identity \<Rightarrow> (uuid \<Rightarrow> uuid \<Rightarrow> string) \<Rightarrow> uuid \<Rightarrow> nat \<Rightarrow> string \<Rightarrow> receipt act" where
  "forget_in_transaction sv i family_key = forget_with (forget_siblings sv i family_key) sv i"

definition forget :: "svc \<Rightarrow> identity \<Rightarrow> (uuid \<Rightarrow> uuid \<Rightarrow> string) \<Rightarrow> uuid \<Rightarrow> nat \<Rightarrow> string \<Rightarrow> receipt act" where
  "forget sv i family_key m expected key = transaction i (forget_in_transaction sv i family_key m expected key)"

section \<open>Operations\<close>

definition operation_visible :: "identity \<Rightarrow> db \<Rightarrow> operation \<Rightarrow> bool" where
  "operation_visible i s op \<longleftrightarrow>
     authorized s (id_principal i) (o_space op) 10 \<and>
     (case map_of (db_memories s) (o_memory op) of
        None \<Rightarrow> False
      | Some r \<Rightarrow> m_space r = o_space op \<and> sees_memory s (id_principal i) (m_space r) (o_memory op)
          \<and> (m_review r = Ordinary \<or> authorized s (id_principal i) (o_space op) 30))"

definition operation_status :: "identity \<Rightarrow> uuid \<Rightarrow> operation act" where
  "operation_status i k = transaction i
     (tx_bind (tx_read (\<lambda>s. case map_of (db_operations s) k of
          None \<Rightarrow> None | Some op \<Rightarrow> if operation_visible i s op then Some op else None)) (\<lambda>found.
      case found of None \<Rightarrow> tx_raise not_found | Some op \<Rightarrow> tx_return op))"

text \<open>Newest first: \<open>ORDER BY created_at DESC, id DESC\<close>.\<close>

definition newest_first :: "(uuid \<times> 'r) list \<Rightarrow> ('r \<Rightarrow> time) \<Rightarrow> (uuid \<times> 'r) list" where
  "newest_first rows stamp = rev (sort_key (\<lambda>(k, r). (stamp r, k)) rows)"

definition operations_list :: "identity \<Rightarrow> uuid \<Rightarrow> op_state option \<Rightarrow> nat \<Rightarrow> (uuid \<times> operation) list act" where
  "operations_list i space st limit = transaction i
     (tx_then (require_space i space 10 False)
              (tx_read (\<lambda>s. take limit (newest_first
                 (filter (\<lambda>(k, op). o_space op = space \<and> (st = None \<or> st = Some (o_state op))
                             \<and> operation_visible i s op) (db_operations s)) o_created_at))))"

definition retry_operation :: "identity \<Rightarrow> uuid \<Rightarrow> unit act" where
  "retry_operation i k = transaction i
     (tx_bind (tx_read (\<lambda>s. case map_of (db_operations s) k of
          None \<Rightarrow> None | Some op \<Rightarrow> if authorized s (id_principal i) (o_space op) 10 then Some op else None)) (\<lambda>found.
      case found of
        None \<Rightarrow> tx_raise not_found
      | Some op \<Rightarrow>
          tx_then (require_space i (o_space op) 30 True)
         (tx_then (tx_guard (\<lambda>_. o_state op = OpFailed) (ServiceError 409 ''operation_not_failed''))
         (tx_then (tx_modify (\<lambda>s. s\<lparr>db_jobs := t_update (\<lambda>_ j. j_operation j = k \<and> j_state j = Failed)
              (\<lambda>j. j\<lparr>j_state := Pending, j_attempts := 0, j_available_at := db_now s, j_error := None\<rparr>) (db_jobs s)\<rparr>))
         (tx_then (tx_modify (\<lambda>s. s\<lparr>db_operations := t_update (\<lambda>x _. x = k)
              (\<lambda>op. op\<lparr>o_state := Accepted, o_error := None\<rparr>) (db_operations s)\<rparr>))
                  (audit i ''operation.retried'' (uuid_text k) (o_space op) None []))))))"

section \<open>Core blocks\<close>

record block_input =
  bi_content :: string
  bi_expected :: nat

definition block_key_ok :: "(char \<Rightarrow> bool) \<Rightarrow> string \<Rightarrow> bool" where
  "block_key_ok alnum key \<longleftrightarrow> 1 \<le> length key \<and> length key \<le> 100
     \<and> list_all (\<lambda>c. alnum c \<or> c = CHR ''_'' \<or> c = CHR ''-'') key"

definition put_block :: "(char \<Rightarrow> bool) \<Rightarrow> identity \<Rightarrow> uuid \<Rightarrow> string \<Rightarrow> block_input \<Rightarrow> (string \<times> nat) act" where
  "put_block alnum i space key c =
     tx_then (tx_guard (\<lambda>_. block_key_ok alnum key) (ServiceError 422 ''invalid_block_key''))
    (transaction i
      (tx_then (require_space i space 30 True)
      (tx_then (tx_guard (\<lambda>s. (case map_of (db_blocks s) (space, key) of None \<Rightarrow> 0 | Some b \<Rightarrow> bk_version b)
                               = bi_expected c) version_conflict)
      (let version = bi_expected c + 1 in
       tx_bind (tx_read (\<lambda>s. \<lparr>bk_content = bi_content c, bk_version = version,
                               bk_updated_by = id_principal i, bk_updated_at = db_now s\<rparr>)) (\<lambda>row.
       tx_then (tx_modify (\<lambda>s. s\<lparr>db_blocks := AList.update (space, key) row (db_blocks s)\<rparr>))
      (tx_then (tx_guard (\<lambda>s. map_of (db_block_revisions s) (space, key, version) = None)
                  (DatabaseError ''core_block_revisions_pkey''))
      (tx_then (tx_modify (\<lambda>s. s\<lparr>db_block_revisions := ((space, key, version), row) # db_block_revisions s\<rparr>))
      (tx_then (audit i ''block.updated'' key space None [(''version'', decimal version)])
               (tx_return (bi_content c, version))))))))))"

definition blocks :: "identity \<Rightarrow> uuid \<Rightarrow> (string \<times> block) list act" where
  "blocks i space = transaction i
     (tx_then (require_space i space 10 False)
              (tx_read (\<lambda>s. take 100 (sort_key (\<lambda>(k, b). map of_char k :: nat list)
                 (map (\<lambda>((sp, k), b). (k, b)) (filter (\<lambda>((sp, k), b). sp = space) (db_blocks s)))))))"

end
