(* ===== verification/Memory_Effects.thy ===== *)
theory Memory_Effects
  imports Memory_Forget
begin

text \<open>
  What each committed step of the memory service does to the tables. A run is described by the
  tables it replaces, so that the proofs about whole operations never unfold the monad again.
\<close>

section \<open>Fresh rows\<close>

text \<open>The keys of the rows \<open>xs\<close> are distinct and were allocated between the counters \<open>a\<close> and \<open>b\<close>.\<close>

definition allocated :: "uuid \<Rightarrow> uuid \<Rightarrow> (uuid \<times> 'r) list \<Rightarrow> bool" where
  "allocated a b xs \<longleftrightarrow> distinct (map fst xs) \<and> (\<forall>k\<in>fst ` set xs. a \<le> k \<and> k < b)"

lemma allocated_Nil [simp]: "allocated a b []"
  by (simp add: allocated_def)

lemma allocated_Cons: "allocated a b ((k, r) # xs) \<longleftrightarrow> a \<le> k \<and> k < b \<and> k \<notin> fst ` set xs \<and> allocated a b xs"
  by (auto simp: allocated_def)

lemma allocated_widen: "allocated a b xs \<Longrightarrow> a' \<le> a \<Longrightarrow> b \<le> b' \<Longrightarrow> allocated a' b' xs"
  by (fastforce simp: allocated_def)

section \<open>Audit\<close>

lemma audit_run:
  assumes "audit i a res space note det s = Inr (u, t)"
  obtains ns where "t = s\<lparr>db_next := db_next s + 1, db_notes := ns @ db_notes s,
      db_audit := (db_next s, \<lparr>a_space = Some space, a_principal = id_principal i, a_action = a,
         a_resource = res, a_details = det, a_created_at = db_now s\<rparr>) # db_audit s\<rparr>"
    "ns = [] \<or> (\<exists>m reason. note = Some (m, Some reason) \<and>
        ns = [(db_next s, \<lparr>n_space = space, n_memory = m, n_reason = reason\<rparr>)])"
proof (cases "\<exists>m reason. note = Some (m, Some reason) \<and> (a = ''memory.revised'' \<or> a = ''memory.reviewed'')")
  case True
  then obtain m reason where n: "note = Some (m, Some reason)" and a: "a = ''memory.revised'' \<or> a = ''memory.reviewed''"
    by blast
  show ?thesis
    using assms n a by (intro that [of "[(db_next s, \<lparr>n_space = space, n_memory = m, n_reason = reason\<rparr>)]"])
      (auto simp: audit_def tx_runs)
next
  case False
  then show ?thesis
    using assms by (intro that [of "[]"]) (auto simp: audit_def tx_runs split: option.splits if_splits)
qed

section \<open>Revisions\<close>

lemma revision_tx_run:
  assumes "revision_tx sv i space m v c ev s = Inr (rid, t)"
  obtains r so sr where
    "t = s\<lparr>db_next := db_next s + 3, db_sources := so @ db_sources s,
           db_source_revisions := sr @ db_source_revisions s, db_revisions := (rid, r) # db_revisions s\<rparr>"
    "rid = db_next s + 2" "allocated (db_next s) (db_next s + 3) so" "allocated (db_next s) (db_next s + 3) sr"
    "r_space r = space" "r_memory r = m" "r_version r = v" "r_created_by r = id_principal i"
    "r_metadata r = in_metadata c" "r_subject r = in_subject c" "r_recorded_at r = db_now s"
    "ev = None \<Longrightarrow> r_content r = in_content c \<and> r_claim r = in_claim c \<and> r_kind r = in_kind c
       \<and> r_hash r = sv_sha sv (in_content c) \<and> so \<noteq> []
       \<and> (\<exists>x. sr = [(r_source r, x)] \<and> sr_space x = space \<and> sr_source x = fst (hd so)
              \<and> s_space (snd (hd so)) = space \<and> s_deleted_at (snd (hd so)) = None)"
    "\<And>from. ev = Some from \<Longrightarrow> so = [] \<and> sr = [] \<and> (\<exists>p. map_of (db_revisions s) from = Some p
       \<and> r_memory p = m \<and> r_content r = r_content p \<and> r_claim r = r_claim p \<and> r_source r = r_source p
       \<and> r_start r = r_start p \<and> r_end r = r_end p \<and> r_hash r = r_hash p)"
proof (cases ev)
  case None
  define content where "content = (case in_source c of
      Some si \<Rightarrow> (case si_content si of Some x \<Rightarrow> x | None \<Rightarrow> in_content c) | None \<Rightarrow> in_content c)"
  from assms None obtain so sr r where run: "rid = db_next s + 2"
    "t = s\<lparr>db_next := db_next s + 3, db_sources := (db_next s, so) # db_sources s,
       db_source_revisions := (db_next s + 1, sr) # db_source_revisions s,
       db_revisions := (rid, r) # db_revisions s\<rparr>"
    and r: "r_space r = space" "r_memory r = m" "r_version r = v" "r_created_by r = id_principal i"
      "r_metadata r = in_metadata c" "r_subject r = in_subject c" "r_recorded_at r = db_now s"
      "r_content r = in_content c" "r_claim r = in_claim c" "r_kind r = in_kind c"
      "r_hash r = sv_sha sv (in_content c)" "r_source r = db_next s + 1"
    and so: "s_space so = space" "s_deleted_at so = None" "sr_space sr = space" "sr_source sr = db_next s"
    by (auto simp: revision_tx_def captured_revision_def Let_def tx_runs add_source_def
        add_source_revision_def add_revision_def numeral_3_eq_3)
  show ?thesis
  proof (rule that [where r = r and so = "[(db_next s, so)]" and sr = "[(db_next s + 1, sr)]"])
    show "t = s\<lparr>db_next := db_next s + 3, db_sources := [(db_next s, so)] @ db_sources s,
        db_source_revisions := [(db_next s + 1, sr)] @ db_source_revisions s,
        db_revisions := (rid, r) # db_revisions s\<rparr>"
      using run(2) by simp
  qed (auto simp: allocated_def run(1) r so None)
next
  case (Some old)
  with assms obtain p where p: "map_of (db_revisions s) old = Some p" "r_memory p = m" "r_space p = space"
    and t: "rid = db_next s + 2" "t = s\<lparr>db_next := db_next s + 3,
      db_revisions := (rid, p\<lparr>r_version := v, r_metadata := in_metadata c, r_subject := in_subject c,
        r_created_by := id_principal i, r_recorded_at := db_now s\<rparr>) # db_revisions s\<rparr>"
    by (auto simp: revision_tx_def preserved_revision_def tx_runs add_revision_def numeral_3_eq_3
        split: option.splits if_splits)
  show ?thesis
    by (rule that [where so = "[]" and sr = "[]" and
          r = "p\<lparr>r_version := v, r_metadata := in_metadata c, r_subject := in_subject c,
            r_created_by := id_principal i, r_recorded_at := db_now s\<rparr>"]) (auto simp: p t Some)
qed

section \<open>Operations\<close>

lemma enqueue_candidate_run:
  assumes "enqueue_candidate i space m rid run gen s = Inr (b, t)"
  obtains "t = s"
  | now where "t = s\<lparr>db_operations := (db_next s, new_operation i space m rid Reindex now) # db_operations s,
        db_next := db_next s + 2,
        db_jobs := (db_next s + 1, new_job space (db_next s) rid gen Embed (Some run) now) # db_jobs s\<rparr>"
proof (cases b)
  case False
  with assms that(1) show ?thesis
    by (auto simp: enqueue_candidate_def tx_runs split: if_splits)
next
  case True
  with assms have "t = s\<lparr>db_operations := (db_next s, new_operation i space m rid Reindex (db_now s)) # db_operations s,
      db_next := db_next s + 2,
      db_jobs := (db_next s + 1, new_job space (db_next s) rid gen Embed (Some run) (db_now s)) # db_jobs s\<rparr>"
    by (auto simp: enqueue_candidate_def tx_runs add_operation_def add_job_def split: if_splits)
  then show ?thesis by (rule that(2))
qed

lemma wb_capture_run:
  assumes "wb_capture wc i space m rid v e a s = Inr (x, t)"
  obtains wb cb where "t = s\<lparr>db_wb_events := wb, db_callbacks := cb\<rparr>"
proof -
  from wb_capture_same [OF assms] have "t = s\<lparr>db_wb_events := db_wb_events t, db_callbacks := db_callbacks t\<rparr>"
    by (cases s; cases t) (simp add: but_writeback_def)
  with that show ?thesis by blast
qed


text \<open>
  An accepted operation adds operations and jobs of its memory, all waiting, with fresh
  identifiers; the returned one is among them and a deletion adds exactly one purge job.
\<close>

definition new_rows :: "uuid \<Rightarrow> uuid \<Rightarrow> uuid option \<Rightarrow> op_kind \<Rightarrow> (uuid \<times> operation) list \<Rightarrow> (uuid \<times> job) list \<Rightarrow> bool" where
  "new_rows space m rid kind ops jobs \<longleftrightarrow>
     (\<forall>(k, op)\<in>set ops. o_space op = space \<and> o_memory op = m \<and> o_state op = Accepted
        \<and> (o_kind op = Delete \<longleftrightarrow> kind = Delete))
   \<and> (\<forall>(k, j)\<in>set jobs. j_space j = space \<and> j_state j = Pending \<and> j_operation j \<in> fst ` set ops
        \<and> (j_kind j = Purge \<longleftrightarrow> kind = Delete) \<and> j_revision j = rid)
   \<and> (kind = Delete \<longrightarrow> length ops = 1 \<and> length jobs = 1)"

lemma route_candidate_run:
  assumes "route_candidate i space m rid st s = Inr (u, t)"
  obtains "t = s"
  | now run gen where "t = s\<lparr>db_operations := (db_next s, new_operation (id_principal i) space m rid Reindex now) # db_operations s,
        db_next := db_next s + 2,
        db_jobs := (db_next s + 1, new_job space (db_next s) rid gen Embed (Some run) now) # db_jobs s\<rparr>"
    "st \<noteq> None"
  using assms
  by (auto simp: route_candidate_def tx_runs split: option.splits elim!: enqueue_candidate_run)

lemma capture_write_run:
  assumes "capture_write sv i space m rid v e a s = Inr (x, t)"
  obtains wb cb where "t = s\<lparr>db_wb_events := wb, db_callbacks := cb\<rparr>"
proof (cases "sv_writeback sv")
  case None
  with assms that [where wb = "db_wb_events s" and cb = "db_callbacks s"] show ?thesis by (simp add: capture_write_def)
next
  case (Some wc)
  with assms that show ?thesis by (auto simp: capture_write_def elim: wb_capture_run)
qed

lemma operation_tx_run:
  assumes "operation_tx sv i space m rid kind s = Inr (rc, t)"
  obtains n ops jobs wb cb where
    "t = s\<lparr>db_operations := ops @ db_operations s, db_next := n, db_jobs := jobs @ db_jobs s,
           db_wb_events := wb, db_callbacks := cb\<rparr>"
    "db_next s \<le> n" "allocated (db_next s) n ops" "allocated (db_next s) n jobs"
    "new_rows space m rid kind ops jobs" "rc_operation rc \<in> fst ` set ops"
    "rc_memory rc = m" "rc_revision rc = rid" "rc_space rc = space" "rc_state rc = Accepted"
    "rc_lexical rc = (kind \<noteq> Delete)"
proof -
  define st where "st = (if kind \<noteq> Delete then Some (settings (sv_generation sv) space s) else None)"
  define op where "op = (db_next s, new_operation (id_principal i) space m rid kind (db_now s))"
  define jb where "jb = (db_next s + 1, new_job space (db_next s) rid (map_option ro_generation st)
     (if kind = Delete then Purge else Embed) None (db_now s))"
  define s1 where "s1 = s\<lparr>db_operations := op # db_operations s, db_next := db_next s + 2,
     db_jobs := jb # db_jobs s\<rparr>"
  from assms obtain u s2 x v a where c: "route_candidate i space m rid st s1 = Inr (u, s2)"
    and w: "capture_write sv i space m rid v (db_next s) a s2 = Inr (x, t)"
    and rc: "rc_operation rc = db_next s" "rc_memory rc = m" "rc_revision rc = rid" "rc_space rc = space"
      "rc_state rc = Accepted" "rc_lexical rc = (kind \<noteq> Delete)"
    by (clarsimp simp: operation_tx_def Let_def tx_runs add_operation_def add_job_def
        op_def jb_def s1_def st_def)
  from w obtain wb cb where t: "t = s2\<lparr>db_wb_events := wb, db_callbacks := cb\<rparr>"
    by (rule capture_write_run)
  from c show ?thesis
  proof (cases rule: route_candidate_run)
    case 1
    show ?thesis
      by (rule that [where ops = "[op]" and jobs = "[jb]" and n = "db_next s + 2" and wb = wb and cb = cb])
         (auto simp: t 1 s1_def rc allocated_def new_rows_def op_def jb_def new_operation_def new_job_def)
  next
    case (2 now run gen)
    have nd: "kind \<noteq> Delete" using 2(2) by (simp add: st_def split: if_splits)
    show ?thesis
      by (rule that [where ops = "[(db_next s + 2, new_operation (id_principal i) space m rid Reindex now), op]" and
            jobs = "[(db_next s + 3, new_job space (db_next s + 2) rid gen Embed (Some run) now), jb]" and
            n = "db_next s + 4" and wb = wb and cb = cb])
         (auto simp: t 2(1) s1_def rc allocated_def new_rows_def op_def jb_def new_operation_def new_job_def nd)
  qed
qed

section \<open>Replays\<close>

lemma replay_previous_run:
  assumes "replay_previous sv r s = Inr (r', t)"
  obtains cb where "t = s\<lparr>db_callbacks := cb\<rparr>" "r' = r"
proof -
  from assms have "r' = r \<and> t = s\<lparr>db_callbacks := db_callbacks t\<rparr>"
    by (auto simp: replay_previous_def wb_replay_def after_commit_def tx_runs split: option.splits)
  with that show ?thesis by blast
qed

section \<open>Whole writes\<close>

text \<open>
  The rows that a write of memory \<open>m\<close> leaves: its revision, the operations and jobs, the audit
  event and its note, and the receipt. \<open>base\<close> is the state with the memory table already updated.
\<close>

definition wrote :: "db \<Rightarrow> db \<Rightarrow> (uuid, memory) table \<Rightarrow> (uuid \<times> revision) list \<Rightarrow> (uuid \<times> source) list
  \<Rightarrow> (uuid \<times> source_revision) list \<Rightarrow> (uuid \<times> operation) list \<Rightarrow> (uuid \<times> job) list
  \<Rightarrow> ((uuid \<times> uuid \<times> string) \<times> (digest \<times> receipt)) list \<Rightarrow> bool" where
  "wrote s t mems revs so sr ops jobs rcs \<longleftrightarrow>
     (\<exists>n wb cb au no.
        t = s\<lparr>db_next := n, db_memories := mems, db_revisions := revs @ db_revisions s,
              db_sources := so @ db_sources s, db_source_revisions := sr @ db_source_revisions s,
              db_operations := ops @ db_operations s, db_jobs := jobs @ db_jobs s,
              db_wb_events := wb, db_callbacks := cb, db_audit := au # db_audit s,
              db_notes := no @ db_notes s, db_receipts := rcs @ db_receipts s\<rparr>
        \<and> db_next s \<le> n \<and> allocated (db_next s) n revs \<and> allocated (db_next s) n so
        \<and> allocated (db_next s) n sr \<and> allocated (db_next s) n ops \<and> allocated (db_next s) n jobs)"

lemma wroteI:
  assumes "t = s\<lparr>db_next := n, db_memories := mems, db_revisions := revs @ db_revisions s,
              db_sources := so @ db_sources s, db_source_revisions := sr @ db_source_revisions s,
              db_operations := ops @ db_operations s, db_jobs := jobs @ db_jobs s,
              db_wb_events := wb, db_callbacks := cb, db_audit := au # db_audit s,
              db_notes := no @ db_notes s, db_receipts := rcs @ db_receipts s\<rparr>"
    and "db_next s \<le> n" "allocated (db_next s) n revs" "allocated (db_next s) n so"
      "allocated (db_next s) n sr" "allocated (db_next s) n ops" "allocated (db_next s) n jobs"
  shows "wrote s t mems revs so sr ops jobs rcs"
  using assms unfolding wrote_def by blast

text \<open>The common tail of every write: the operation, the audit event and the receipt.\<close>

lemma write_tail:
  assumes opr: "operation_tx sv i space m rid kind s = Inr (rc, s1)"
    and au: "audit i a res space note det s1 = Inr (u, s2)"
    and rem: "t = s2\<lparr>db_receipts := rcs @ db_receipts s2\<rparr>"
  obtains ops jobs where "wrote s t (db_memories s) [] [] [] ops jobs rcs"
    "new_rows space m rid kind ops jobs" "rc_operation rc \<in> fst ` set ops"
    "rc_memory rc = m" "rc_revision rc = rid" "rc_space rc = space" "rc_state rc = Accepted"
    "rc_lexical rc = (kind \<noteq> Delete)"
proof -
  from opr obtain n ops jobs wb cb where o: "s1 = s\<lparr>db_operations := ops @ db_operations s, db_next := n,
        db_jobs := jobs @ db_jobs s, db_wb_events := wb, db_callbacks := cb\<rparr>"
    "db_next s \<le> n" "allocated (db_next s) n ops" "allocated (db_next s) n jobs"
    "new_rows space m rid kind ops jobs" "rc_operation rc \<in> fst ` set ops"
    "rc_memory rc = m" "rc_revision rc = rid" "rc_space rc = space" "rc_state rc = Accepted"
    "rc_lexical rc = (kind \<noteq> Delete)"
    by (rule operation_tx_run)
  from au obtain ns ae where a: "s2 = s1\<lparr>db_next := db_next s1 + 1, db_notes := ns @ db_notes s1,
      db_audit := ae # db_audit s1\<rparr>"
    by (rule audit_run) blast
  have "wrote s t (db_memories s) [] [] [] ops jobs rcs"
    by (rule wroteI [where n = "n + 1"])
       (auto simp: rem a o(1) intro: le_SucI o(2) allocated_widen [OF o(3)] allocated_widen [OF o(4)]
        db.equality)
  with o that show ?thesis by blast
qed

lemma wrote_after:
  assumes w: "wrote u t mems [] [] [] ops jobs rcs"
    and u: "u = s\<lparr>db_next := n0, db_memories := mems0, db_sources := so @ db_sources s,
       db_source_revisions := sr @ db_source_revisions s, db_revisions := revs @ db_revisions s\<rparr>"
    and a: "db_next s \<le> n0" "allocated (db_next s) n0 revs" "allocated (db_next s) n0 so"
      "allocated (db_next s) n0 sr"
  shows "wrote s t mems revs so sr ops jobs rcs"
proof -
  from w obtain n wb cb au no where t: "t = u\<lparr>db_next := n, db_memories := mems, db_revisions := [] @ db_revisions u,
      db_sources := [] @ db_sources u, db_source_revisions := [] @ db_source_revisions u,
      db_operations := ops @ db_operations u, db_jobs := jobs @ db_jobs u,
      db_wb_events := wb, db_callbacks := cb, db_audit := au # db_audit u,
      db_notes := no @ db_notes u, db_receipts := rcs @ db_receipts u\<rparr>"
    and n: "db_next u \<le> n" and al: "allocated (db_next u) n ops" "allocated (db_next u) n jobs"
    unfolding wrote_def by blast
  have n0: "n0 \<le> n" using n u by simp
  show ?thesis
  proof (rule wroteI [where n = n])
    show "t = s\<lparr>db_next := n, db_memories := mems, db_revisions := revs @ db_revisions s,
              db_sources := so @ db_sources s, db_source_revisions := sr @ db_source_revisions s,
              db_operations := ops @ db_operations s, db_jobs := jobs @ db_jobs s,
              db_wb_events := wb, db_callbacks := cb, db_audit := au # db_audit s,
              db_notes := no @ db_notes s, db_receipts := rcs @ db_receipts s\<rparr>"
      unfolding t u by (rule db.equality) simp_all
    show "db_next s \<le> n" using a n0 by simp
    show "allocated (db_next s) n revs" "allocated (db_next s) n so" "allocated (db_next s) n sr"
      using a n0 by (auto intro: allocated_widen)
    show "allocated (db_next s) n ops" "allocated (db_next s) n jobs"
      using al a u by (auto intro: allocated_widen)
  qed
qed

lemma save_new_run:
  assumes "save_new sv i space c key digest s = Inr (rc, t)"
  obtains row rid r so sr ops jobs where
    "map_of (db_receipts s) (space, id_principal i, key) = None"
    "wrote s t ((db_next s, row) # t_update (\<lambda>k r. k = db_next s) (\<lambda>r. r\<lparr>m_current := Some rid, m_version := 1\<rparr>) (db_memories s))
       [(rid, r)] so sr ops jobs [((space, id_principal i, key), (digest, rc))]"
    "m_space row = space" "m_current row = Some rid" "m_version row = 1"
    "m_review row = Ordinary" "m_deleted_at row = None" "m_created_by row = id_principal i"
    "m_subject row = in_subject c" "m_kind row = in_kind c"
    "r_space r = space" "r_memory r = db_next s" "r_version r = 1" "r_created_by r = id_principal i"
    "r_content r = in_content c" "r_claim r = in_claim c" "r_metadata r = in_metadata c"
    "r_subject r = in_subject c" "r_kind r = in_kind c" "r_hash r = sv_sha sv (in_content c)"
    "\<exists>x y. map_of sr (r_source r) = Some x \<and> sr_space x = space \<and> map_of so (sr_source x) = Some y
        \<and> s_space y = space \<and> s_deleted_at y = None"
    "new_rows space (db_next s) (Some rid) Ingest ops jobs"
    "rc_memory rc = db_next s" "rc_revision rc = Some rid" "rc_space rc = space" "rc_version rc = 1"
    "rc_state rc = Accepted" "rc_operation rc \<in> fst ` set ops"
proof -
  define m where "m = db_next s"
  define row where "row = \<lparr>m_space = space, m_subject = in_subject c, m_kind = in_kind c,
     m_current = None, m_version = 0, m_review = Ordinary, m_created_by = id_principal i,
     m_created_at = db_now s, m_updated_at = db_now s, m_deleted_at = None\<rparr>"
  define s1 where "s1 = s\<lparr>db_next := db_next s + 1, db_memories := (m, row) # db_memories s\<rparr>"
  from assms obtain rid s2 s3 s4 s5 rc0 u det where
    rev: "revision_tx sv i space m 1 c None s1 = Inr (rid, s2)"
    and upd: "s3 = s2\<lparr>db_memories := t_update (\<lambda>k r. k = m) (\<lambda>r. r\<lparr>m_current := Some rid, m_version := 1\<rparr>) (db_memories s2)\<rparr>"
    and opr: "operation_tx sv i space m (Some rid) Ingest s3 = Inr (rc0, s4)"
    and au: "audit i ''memory.created'' (uuid_text m) space None det s4 = Inr (u, s5)"
    and rem: "remember_receipt i space key digest (rc0\<lparr>rc_version := 1\<rparr>) s5 = Inr (rc, t)"
    by (auto simp: save_new_def tx_runs put_memory_def update_memory_def m_def row_def s1_def)
  from rem have rc: "rc = rc0\<lparr>rc_version := 1\<rparr>"
    and free: "map_of (db_receipts s5) (space, id_principal i, key) = None"
    and t: "t = s5\<lparr>db_receipts := [((space, id_principal i, key), (digest, rc))] @ db_receipts s5\<rparr>"
    by (auto simp: remember_receipt_Inr)
  from opr au t obtain ops jobs where w: "wrote s3 t (db_memories s3) [] [] [] ops jobs [((space, id_principal i, key), (digest, rc))]"
    and o: "new_rows space m (Some rid) Ingest ops jobs" "rc_operation rc0 \<in> fst ` set ops"
      "rc_memory rc0 = m" "rc_revision rc0 = Some rid" "rc_space rc0 = space" "rc_state rc0 = Accepted"
    by (rule write_tail) blast
  from rev obtain r so sr where
    s2: "s2 = s1\<lparr>db_next := db_next s1 + 3, db_sources := so @ db_sources s1,
           db_source_revisions := sr @ db_source_revisions s1, db_revisions := (rid, r) # db_revisions s1\<rparr>"
    and rid: "rid = db_next s1 + 2" and al: "allocated (db_next s1) (db_next s1 + 3) so" "allocated (db_next s1) (db_next s1 + 3) sr"
    and r: "r_space r = space" "r_memory r = m" "r_version r = 1" "r_created_by r = id_principal i"
      "r_metadata r = in_metadata c" "r_subject r = in_subject c"
    and ev: "r_content r = in_content c \<and> r_claim r = in_claim c \<and> r_kind r = in_kind c
       \<and> r_hash r = sv_sha sv (in_content c) \<and> so \<noteq> []
       \<and> (\<exists>x. sr = [(r_source r, x)] \<and> sr_space x = space \<and> sr_source x = fst (hd so)
              \<and> s_space (snd (hd so)) = space \<and> s_deleted_at (snd (hd so)) = None)"
    by (rule revision_tx_run) blast
  let ?mems = "(m, row\<lparr>m_current := Some rid, m_version := 1\<rparr>) #
     t_update (\<lambda>k r. k = m) (\<lambda>r. r\<lparr>m_current := Some rid, m_version := 1\<rparr>) (db_memories s)"
  have mems: "db_memories s3 = ?mems" by (simp add: upd s2 s1_def)
  have w2: "wrote s t ?mems [(rid, r)] so sr ops jobs [((space, id_principal i, key), (digest, rc))]"
  proof (rule wrote_after [OF w [unfolded mems]])
    show "s3 = s\<lparr>db_next := db_next s + 4, db_memories := ?mems, db_sources := so @ db_sources s,
       db_source_revisions := sr @ db_source_revisions s, db_revisions := [(rid, r)] @ db_revisions s\<rparr>"
      by (rule db.equality) (simp_all add: upd s2 s1_def)
    show "allocated (db_next s) (db_next s + 4) [(rid, r)]"
      by (simp add: allocated_def rid s1_def)
    show "allocated (db_next s) (db_next s + 4) so" "allocated (db_next s) (db_next s + 4) sr"
      using al by (auto simp: s1_def intro: allocated_widen)
  qed simp
  from w have "db_receipts t = [((space, id_principal i, key), (digest, rc))] @ db_receipts s3"
    by (auto simp: wrote_def)
  then have "db_receipts s5 = db_receipts s3" by (simp add: t)
  then have free': "map_of (db_receipts s) (space, id_principal i, key) = None"
    using free by (simp add: upd s2 s1_def)
  from ev obtain k y so' where so: "so = (k, y) # so'" by (cases so) auto
  show ?thesis
    by (rule that [OF free' w2 [unfolded m_def]]) (use r ev so o rc in \<open>auto simp: row_def m_def\<close>)
qed

lemma save_in_transaction_Inr:
  "save_in_transaction sv i space c key s = Inr (rc, t) \<longleftrightarrow>
     authorized s (id_principal i) space 10 \<and> authorized s (id_principal i) space 20
     \<and> map_of (db_fences s) space = None \<and> key_ok key
     \<and> (in_claim c \<noteq> Observed \<longrightarrow> authorized s (id_principal i) space 30)
     \<and> (case map_of (db_receipts s) (space, id_principal i, key) of
          None \<Rightarrow> save_new sv i space c key (sv_request sv (IngestRequest c)) s = Inr (rc, t)
        | Some (d, r) \<Rightarrow> d = sv_request sv (IngestRequest c) \<and> replay_previous sv r s = Inr (rc, t))"
  by (auto simp: save_in_transaction_def Let_def tx_runs idempotency_Inr split: option.splits)

lemma revise_apply_run:
  assumes "revise_apply sv i m c row ev reason slot s = Inr (rc, t)"
  obtains rid r so sr ops jobs now rcs where
    "wrote s t (t_update (\<lambda>k r. k = m) (\<lambda>r. r\<lparr>m_current := Some rid, m_version := m_version row + 1,
                 m_subject := in_subject c, m_kind := in_kind c, m_updated_at := now\<rparr>) (db_memories s))
       [(rid, r)] so sr ops jobs rcs"
    "rcs = (case slot of None \<Rightarrow> [] | Some (key, d) \<Rightarrow> [((m_space row, id_principal i, key), (d, rc))])"
    "\<And>key d. slot = Some (key, d) \<Longrightarrow> map_of (db_receipts s) (m_space row, id_principal i, key) = None"
    "r_space r = m_space row" "r_memory r = m" "r_version r = m_version row + 1"
    "r_created_by r = id_principal i" "r_metadata r = in_metadata c" "r_subject r = in_subject c"
    "ev = None \<Longrightarrow> r_content r = in_content c \<and> r_claim r = in_claim c \<and> r_kind r = in_kind c
       \<and> (\<exists>x y. map_of sr (r_source r) = Some x \<and> sr_space x = m_space row
            \<and> map_of so (sr_source x) = Some y \<and> s_space y = m_space row \<and> s_deleted_at y = None)"
    "\<And>old. ev = Some old \<Longrightarrow> so = [] \<and> sr = [] \<and> (\<exists>p. map_of (db_revisions s) old = Some p
       \<and> r_memory p = m \<and> r_content r = r_content p \<and> r_claim r = r_claim p \<and> r_source r = r_source p
       \<and> r_start r = r_start p \<and> r_end r = r_end p \<and> r_hash r = r_hash p)"
    "new_rows (m_space row) m (Some rid) Revise ops jobs"
    "rc_memory rc = m" "rc_revision rc = Some rid" "rc_space rc = m_space row"
    "rc_version rc = m_version row + 1" "rc_state rc = Accepted"
proof -
  let ?space = "m_space row"
  from assms obtain rid s2 s3 s4 s5 rc0 u det now where
    rev: "revision_tx sv i ?space m (m_version row + 1) c ev s = Inr (rid, s2)"
    and upd: "s3 = s2\<lparr>db_memories := t_update (\<lambda>k r. k = m) (\<lambda>r. r\<lparr>m_current := Some rid,
        m_version := m_version row + 1, m_subject := in_subject c, m_kind := in_kind c,
        m_updated_at := now\<rparr>) (db_memories s2)\<rparr>"
    and opr: "operation_tx sv i ?space m (Some rid) Revise s3 = Inr (rc0, s4)"
    and au: "audit i ''memory.revised'' (uuid_text m) ?space (Some (m, Some reason)) det s4 = Inr (u, s5)"
    and rem: "finish_receipt i ?space slot (rc0\<lparr>rc_version := m_version row + 1\<rparr>) s5 = Inr (rc, t)"
    by (auto simp: revise_apply_def Let_def tx_runs update_memory_def)
  let ?rcs = "case slot of None \<Rightarrow> [] | Some (key, d) \<Rightarrow> [((?space, id_principal i, key), (d, rc))]"
  from rem have rc: "rc = rc0\<lparr>rc_version := m_version row + 1\<rparr>"
    and free: "\<And>key d. slot = Some (key, d) \<Longrightarrow> map_of (db_receipts s5) (?space, id_principal i, key) = None"
    and t: "t = s5\<lparr>db_receipts := ?rcs @ db_receipts s5\<rparr>"
    by (auto simp: finish_receipt_def remember_receipt_Inr split: option.splits)
  from opr au t obtain ops jobs where w: "wrote s3 t (db_memories s3) [] [] [] ops jobs ?rcs"
    and o: "new_rows ?space m (Some rid) Revise ops jobs"
      "rc_memory rc0 = m" "rc_revision rc0 = Some rid" "rc_space rc0 = ?space" "rc_state rc0 = Accepted"
    by (rule write_tail) blast
  from rev obtain r so sr where
    s2: "s2 = s\<lparr>db_next := db_next s + 3, db_sources := so @ db_sources s,
           db_source_revisions := sr @ db_source_revisions s, db_revisions := (rid, r) # db_revisions s\<rparr>"
    and rid: "rid = db_next s + 2" and al: "allocated (db_next s) (db_next s + 3) so" "allocated (db_next s) (db_next s + 3) sr"
    and r: "r_space r = ?space" "r_memory r = m" "r_version r = m_version row + 1" "r_created_by r = id_principal i"
      "r_metadata r = in_metadata c" "r_subject r = in_subject c"
    and ev: "ev = None \<Longrightarrow> r_content r = in_content c \<and> r_claim r = in_claim c \<and> r_kind r = in_kind c
       \<and> r_hash r = sv_sha sv (in_content c) \<and> so \<noteq> []
       \<and> (\<exists>x. sr = [(r_source r, x)] \<and> sr_space x = ?space \<and> sr_source x = fst (hd so)
              \<and> s_space (snd (hd so)) = ?space \<and> s_deleted_at (snd (hd so)) = None)"
    and pr: "\<And>old. ev = Some old \<Longrightarrow> so = [] \<and> sr = [] \<and> (\<exists>p. map_of (db_revisions s) old = Some p
       \<and> r_memory p = m \<and> r_content r = r_content p \<and> r_claim r = r_claim p \<and> r_source r = r_source p
       \<and> r_start r = r_start p \<and> r_end r = r_end p \<and> r_hash r = r_hash p)"
    by (rule revision_tx_run) blast
  let ?mems = "t_update (\<lambda>k r. k = m) (\<lambda>r. r\<lparr>m_current := Some rid, m_version := m_version row + 1,
     m_subject := in_subject c, m_kind := in_kind c, m_updated_at := now\<rparr>) (db_memories s)"
  have mems: "db_memories s3 = ?mems" by (simp add: upd s2)
  have w2: "wrote s t ?mems [(rid, r)] so sr ops jobs ?rcs"
  proof (rule wrote_after [OF w [unfolded mems]])
    show "s3 = s\<lparr>db_next := db_next s + 3, db_memories := ?mems, db_sources := so @ db_sources s,
       db_source_revisions := sr @ db_source_revisions s, db_revisions := [(rid, r)] @ db_revisions s\<rparr>"
      by (rule db.equality) (simp_all add: upd s2)
    show "allocated (db_next s) (db_next s + 3) [(rid, r)]" by (simp add: allocated_def rid)
  qed (use al in simp_all)
  from w have "db_receipts t = ?rcs @ db_receipts s3" by (auto simp: wrote_def)
  then have same: "db_receipts s5 = db_receipts s" by (simp add: t upd s2)
  have span: "ev = None \<Longrightarrow> \<exists>x y. map_of sr (r_source r) = Some x \<and> sr_space x = ?space
      \<and> map_of so (sr_source x) = Some y \<and> s_space y = ?space \<and> s_deleted_at y = None"
    using ev by (cases so) auto
  show ?thesis
    by (rule that [OF w2 refl]) (use r ev span pr o rc free same in \<open>auto\<close>)
qed

section \<open>Forgetting and reviewing\<close>

definition cancelled_jobs :: "db \<Rightarrow> uuid \<Rightarrow> (uuid, job) table" where
  "cancelled_jobs s m = t_update (\<lambda>k j. job_of s m j \<and> live_job (j_state j))
     (\<lambda>j. j\<lparr>j_state := JobCancelled, j_lease := None, j_lease_until := None\<rparr>) (db_jobs s)"

definition cancelled_operations :: "db \<Rightarrow> uuid \<Rightarrow> (uuid, operation) table" where
  "cancelled_operations s m = t_update (\<lambda>k op. o_memory op = m \<and> live_op (o_state op))
     (\<lambda>op. op\<lparr>o_state := OpCancelled\<rparr>) (db_operations s)"

definition deleted_row :: "db \<Rightarrow> uuid \<Rightarrow> (uuid, memory) table" where
  "deleted_row s m = t_update (\<lambda>k r. k = m)
     (\<lambda>r. r\<lparr>m_deleted_at := Some (db_now s), m_updated_at := db_now s, m_version := m_version r + 1\<rparr>) (db_memories s)"

definition forgot :: "identity \<Rightarrow> uuid \<Rightarrow> uuid \<Rightarrow> db \<Rightarrow> db \<Rightarrow> (uuid \<times> operation) list \<Rightarrow> (uuid \<times> job) list \<Rightarrow> uuid \<Rightarrow> bool" where
  "forgot i space m s t ops jobs op \<longleftrightarrow>
     (\<exists>n wb cb au no pr de ob.
        t = s\<lparr>db_proposals := pr, db_dependencies := de, db_observations := ob,
              db_memories := deleted_row s m, db_jobs := jobs @ cancelled_jobs s m,
              db_operations := ops @ cancelled_operations s m, db_next := n, db_wb_events := wb,
              db_callbacks := cb,
              db_denials := (if map_of (db_denials s) m = None then (m, space) # db_denials s else db_denials s),
              db_deletions := (m, \<lparr>d_operation = op, d_requested_by = id_principal i,
                 d_requested_at = db_now s, d_purged_at = None\<rparr>) # db_deletions s,
              db_audit := au # db_audit s, db_notes := no @ db_notes s\<rparr>
        \<and> db_next s \<le> n \<and> allocated (db_next s) n ops \<and> allocated (db_next s) n jobs)
     \<and> map_of (db_deletions s) m = None"

lemma forget_record_run:
  assumes "forget_record sv i m row s = Inr (rc, t)"
  obtains ops jobs where "forgot i (m_space row) m s t ops jobs (rc_operation rc)"
    "new_rows (m_space row) m None Delete ops jobs" "rc_operation rc \<in> fst ` set ops"
    "rc_memory rc = m" "rc_space rc = m_space row" "rc_revision rc = None" "rc_state rc = Accepted"
    "rc_deleted rc" "\<not> rc_lexical rc" "rc_version rc = m_version row + 1"
proof -
  let ?space = "m_space row"
  from assms obtain s1 s2 s3 s4 s5 s6 s7 rc0 u where
    lib: "purge_librarian_dependencies ?space m s = Inr ((), s1)"
    and mem: "update_memory m (\<lambda>r. r\<lparr>m_deleted_at := Some (db_now s1), m_updated_at := db_now s1, m_version := m_version r + 1\<rparr>) s1 = Inr ((), s2)"
    and jobs: "cancel_jobs m s2 = Inr ((), s3)" and ops: "cancel_operations m s3 = Inr ((), s4)"
    and opr: "operation_tx sv i ?space m None Delete s4 = Inr (rc0, s5)"
    and den: "add_denial ?space m s5 = Inr ((), s6)" and del: "add_deletion m (rc_operation rc0) i s6 = Inr ((), s7)"
    and au: "audit i ''memory.deleted'' (uuid_text m) ?space None [] s7 = Inr (u, t)"
    and rc: "rc = rc0\<lparr>rc_deleted := True, rc_version := m_version row + 1\<rparr>"
    by (auto simp: forget_record_def Let_def tx_runs)
  from opr obtain n new_ops new_jobs wb cb where
    s5: "s5 = s4\<lparr>db_operations := new_ops @ db_operations s4, db_next := n, db_jobs := new_jobs @ db_jobs s4,
           db_wb_events := wb, db_callbacks := cb\<rparr>"
    and n: "db_next s4 \<le> n" "allocated (db_next s4) n new_ops" "allocated (db_next s4) n new_jobs"
    and o: "new_rows ?space m None Delete new_ops new_jobs" "rc_operation rc0 \<in> fst ` set new_ops"
      "rc_memory rc0 = m" "rc_revision rc0 = None" "rc_space rc0 = ?space" "rc_state rc0 = Accepted"
      "\<not> rc_lexical rc0"
    by (rule operation_tx_run) blast
  from au obtain ns ae where t: "t = s7\<lparr>db_next := db_next s7 + 1, db_notes := ns @ db_notes s7, db_audit := ae # db_audit s7\<rparr>"
    by (rule audit_run) blast
  obtain pr de ob where s1: "s1 = s\<lparr>db_proposals := pr, db_dependencies := de, db_observations := ob\<rparr>"
    using lib by (auto simp: purge_librarian_dependencies_def Let_def)
  have s4: "s4 = s1\<lparr>db_memories := deleted_row s m, db_jobs := cancelled_jobs s m,
      db_operations := cancelled_operations s m\<rparr>"
    using mem jobs ops by (auto simp: update_memory_def cancel_jobs_def cancel_operations_def s1
        deleted_row_def cancelled_jobs_def cancelled_operations_def job_of_def)
  have s6: "s6 = s5\<lparr>db_denials := (if map_of (db_denials s) m = None then (m, ?space) # db_denials s else db_denials s)\<rparr>"
    using den by (auto simp: add_denial_def s5 s4 s1)
  have s7: "s7 = s6\<lparr>db_deletions := (m, \<lparr>d_operation = rc_operation rc0, d_requested_by = id_principal i,
      d_requested_at = db_now s, d_purged_at = None\<rparr>) # db_deletions s\<rparr>" and free: "map_of (db_deletions s) m = None"
    using del by (auto simp: add_deletion_def tx_runs s6 s5 s4 s1)
  have base: "db_next s4 = db_next s" by (simp add: s4 s1)
  have "forgot i ?space m s t new_ops new_jobs (rc_operation rc)"
    unfolding forgot_def
  proof (intro conjI exI)
    show "t = s\<lparr>db_proposals := pr, db_dependencies := de, db_observations := ob,
              db_memories := deleted_row s m, db_jobs := new_jobs @ cancelled_jobs s m,
              db_operations := new_ops @ cancelled_operations s m, db_next := n + 1, db_wb_events := wb,
              db_callbacks := cb,
              db_denials := (if map_of (db_denials s) m = None then (m, ?space) # db_denials s else db_denials s),
              db_deletions := (m, \<lparr>d_operation = rc_operation rc, d_requested_by = id_principal i,
                 d_requested_at = db_now s, d_purged_at = None\<rparr>) # db_deletions s,
              db_audit := ae # db_audit s, db_notes := ns @ db_notes s\<rparr>"
      by (rule db.equality) (simp_all add: t s7 s6 s5 s4 s1 rc)
    show "db_next s \<le> n + 1" "allocated (db_next s) (n + 1) new_ops" "allocated (db_next s) (n + 1) new_jobs"
      using n by (auto simp: base intro: allocated_widen)
  qed (rule free)
  with o rc that show ?thesis by simp
qed

lemma review_publish_run:
  assumes "review_publish sv i m st row s = Inr (u, t)"
  obtains n wb cb where "t = s\<lparr>db_next := n, db_wb_events := wb, db_callbacks := cb\<rparr>" "db_next s \<le> n"
proof (cases "sv_writeback sv")
  case None
  with assms have "t = s\<lparr>db_next := db_next s, db_wb_events := db_wb_events s, db_callbacks := db_callbacks s\<rparr>"
    by (simp add: review_publish_def)
  then show ?thesis by (rule that) simp
next
  case (Some wc)
  with assms obtain rid v e a x where
    "capture_write sv i (m_space row) m rid v e a (s\<lparr>db_next := db_next s + 1\<rparr>) = Inr (x, t)"
    by (auto simp: review_publish_def tx_runs)
  then obtain wb cb where "t = s\<lparr>db_next := db_next s + 1, db_wb_events := wb, db_callbacks := cb\<rparr>"
    by (rule capture_write_run) simp
  then show ?thesis by (rule that) simp
qed

definition reviewed :: "db \<Rightarrow> db \<Rightarrow> (uuid, memory) table \<Rightarrow> bool" where
  "reviewed s t mems \<longleftrightarrow> (\<exists>n wb cb au no pr de ob. db_next s \<le> n \<and>
     t = s\<lparr>db_proposals := pr, db_dependencies := de, db_observations := ob, db_memories := mems,
           db_notes := no @ db_notes s, db_audit := au # db_audit s, db_next := n,
           db_wb_events := wb, db_callbacks := cb\<rparr>)"

lemma review_apply_run:
  assumes "review_apply sv i m c row s = Inr (res, t)"
  shows "res = (m_version row + 1, rv_state c) \<and> reviewed s t (t_update (\<lambda>k r. k = m)
     (\<lambda>r. r\<lparr>m_review := rv_state c, m_version := m_version row + 1, m_updated_at := db_now s\<rparr>) (db_memories s))"
proof -
  from assms obtain s1 s2 s3 det where
    lib: "(if rv_state c = Quarantined then purge_librarian_dependencies (m_space row) m else tx_return ()) s = Inr ((), s1)"
    and s2: "update_memory m (\<lambda>r. r\<lparr>m_review := rv_state c, m_version := m_version row + 1,
        m_updated_at := db_now s1\<rparr>) s1 = Inr ((), s2)"
    and au: "audit i ''memory.reviewed'' (uuid_text m) (m_space row) (Some (m, Some (rv_reason c))) det s2 = Inr ((), s3)"
    and pub: "review_publish sv i m (rv_state c) row s3 = Inr ((), t)"
    and res: "res = (m_version row + 1, rv_state c)"
    unfolding review_apply_def Let_def by (simp add: tx_bind_runs tx_then_runs) blast
  from lib obtain pr de ob where s1: "s1 = s\<lparr>db_proposals := pr, db_dependencies := de, db_observations := ob\<rparr>"
    by (cases "rv_state c = Quarantined")
       (force simp: purge_librarian_dependencies_def Let_def intro: db.equality)+
  from au obtain ns ae where s3: "s3 = s2\<lparr>db_next := db_next s2 + 1, db_notes := ns @ db_notes s2, db_audit := ae # db_audit s2\<rparr>"
    by (rule audit_run) blast
  from pub obtain n wb cb where t: "t = s3\<lparr>db_next := n, db_wb_events := wb, db_callbacks := cb\<rparr>" and n: "db_next s3 \<le> n"
    by (rule review_publish_run)
  have "db_next s \<le> n" using n s2 by (auto simp: s3 s1 update_memory_def)
  moreover have "t = s\<lparr>db_proposals := pr, db_dependencies := de, db_observations := ob,
      db_memories := t_update (\<lambda>k r. k = m) (\<lambda>r. r\<lparr>m_review := rv_state c,
         m_version := m_version row + 1, m_updated_at := db_now s\<rparr>) (db_memories s),
      db_notes := ns @ db_notes s, db_audit := ae # db_audit s, db_next := n, db_wb_events := wb, db_callbacks := cb\<rparr>"
    using s2 by (auto simp: t s3 s1 update_memory_def)
  ultimately show ?thesis using res unfolding reviewed_def by blast
qed

end
