(* ===== verification/Memory_Invariant.thy ===== *)
theory Memory_Invariant
  imports Memory_Effects
begin

text \<open>
  The well-formedness of a tenant's database and its preservation by every write of the memory
  service: revisions belong to their memory and are numbered below its version without
  repetition, a live memory points at its newest revision, operations and jobs belong to existing
  memories, and a deleted memory is denied, has its deletion receipt, and keeps nothing running
  but its own purge.
\<close>

section \<open>The invariant\<close>

definition keys_below :: "uuid \<Rightarrow> (uuid, 'r) table \<Rightarrow> bool" where
  "keys_below n t \<longleftrightarrow> distinct (map fst t) \<and> (\<forall>k\<in>fst ` set t. k < n)"

definition wf_keys :: "db \<Rightarrow> bool" where
  "wf_keys s \<longleftrightarrow> keys_below (db_next s) (db_memories s) \<and> keys_below (db_next s) (db_revisions s)
     \<and> keys_below (db_next s) (db_operations s) \<and> keys_below (db_next s) (db_jobs s)"

definition wf_revisions :: "db \<Rightarrow> bool" where
  "wf_revisions s \<longleftrightarrow>
     (\<forall>k r. map_of (db_revisions s) k = Some r \<longrightarrow>
        (\<exists>row. map_of (db_memories s) (r_memory r) = Some row \<and> m_space row = r_space r
           \<and> 1 \<le> r_version r \<and> r_version r \<le> m_version row))
   \<and> distinct (map (\<lambda>(k, r). (r_memory r, r_version r)) (db_revisions s))"

definition wf_current :: "db \<Rightarrow> bool" where
  "wf_current s \<longleftrightarrow>
     (\<forall>m row. map_of (db_memories s) m = Some row \<longrightarrow>
        (m_current row = None \<longrightarrow> m_deleted_at row \<noteq> None)
      \<and> (\<forall>rid. m_current row = Some rid \<longrightarrow>
           (\<exists>r. map_of (db_revisions s) rid = Some r \<and> r_memory r = m
              \<and> (\<forall>k r'. map_of (db_revisions s) k = Some r' \<and> r_memory r' = m \<longrightarrow> r_version r' \<le> r_version r))))"

definition wf_operations :: "db \<Rightarrow> bool" where
  "wf_operations s \<longleftrightarrow>
     (\<forall>k op. map_of (db_operations s) k = Some op \<longrightarrow>
        (\<exists>row. map_of (db_memories s) (o_memory op) = Some row \<and> m_space row = o_space op
           \<and> (m_deleted_at row \<noteq> None \<and> live_op (o_state op) \<longrightarrow> o_kind op = Delete)))
   \<and> (\<forall>k j. map_of (db_jobs s) k = Some j \<longrightarrow>
        (\<exists>op. map_of (db_operations s) (j_operation j) = Some op \<and> o_space op = j_space j
           \<and> (o_kind op = Delete \<longleftrightarrow> j_kind j = Purge)
           \<and> (live_job (j_state j) \<longrightarrow> (\<forall>row. map_of (db_memories s) (o_memory op) = Some row \<and> m_deleted_at row \<noteq> None
                \<longrightarrow> j_kind j = Purge))))"

definition wf_deleted :: "db \<Rightarrow> bool" where
  "wf_deleted s \<longleftrightarrow>
     (\<forall>m. map_of (db_deletions s) m \<noteq> None \<longleftrightarrow>
        (\<exists>row. map_of (db_memories s) m = Some row \<and> m_deleted_at row \<noteq> None))
   \<and> (\<forall>m. map_of (db_deletions s) m \<noteq> None \<longrightarrow> map_of (db_denials s) m \<noteq> None)
   \<and> (\<forall>m d. map_of (db_deletions s) m = Some d \<longrightarrow>
        (\<exists>op. map_of (db_operations s) (d_operation d) = Some op \<and> o_memory op = m \<and> o_kind op = Delete))"

definition wf :: "db \<Rightarrow> bool" where
  "wf s \<longleftrightarrow> wf_keys s \<and> wf_revisions s \<and> wf_current s \<and> wf_operations s \<and> wf_deleted s"

lemmas wf_parts = wf_keys_def wf_revisions_def wf_current_def wf_operations_def wf_deleted_def

text \<open>Only these tables matter.\<close>

definition core where
  "core s = (db_next s, db_memories s, db_revisions s, db_operations s, db_jobs s, db_deletions s, db_denials s)"

lemma wf_core: "core t = core s \<Longrightarrow> wf t = wf s"
  by (simp add: core_def wf_def wf_parts)

lemma core_updates [simp]:
  "core (s\<lparr>db_callbacks := a\<rparr>) = core s" "core (s\<lparr>db_receipts := b\<rparr>) = core s"
  "core (s\<lparr>db_audit := c\<rparr>) = core s" "core (s\<lparr>db_notes := d\<rparr>) = core s"
  "core (s\<lparr>db_wb_events := e\<rparr>) = core s" "core (s\<lparr>db_proposals := f\<rparr>) = core s"
  "core (s\<lparr>db_dependencies := g\<rparr>) = core s" "core (s\<lparr>db_observations := h\<rparr>) = core s"
  "core (s\<lparr>db_sources := i\<rparr>) = core s" "core (s\<lparr>db_source_revisions := j\<rparr>) = core s"
  "core (s\<lparr>db_embeddings := k\<rparr>) = core s" "core (s\<lparr>db_blocks := l\<rparr>) = core s"
  "core (s\<lparr>db_block_revisions := m\<rparr>) = core s" "core (s\<lparr>db_fences := n\<rparr>) = core s"
  by (simp_all add: core_def)

lemma wf_updates [simp]:
  "wf (s\<lparr>db_callbacks := a\<rparr>) = wf s" "wf (s\<lparr>db_receipts := b\<rparr>) = wf s"
  "wf (s\<lparr>db_audit := c\<rparr>) = wf s" "wf (s\<lparr>db_notes := d\<rparr>) = wf s"
  "wf (s\<lparr>db_wb_events := e\<rparr>) = wf s" "wf (s\<lparr>db_embeddings := f\<rparr>) = wf s"
  "wf (s\<lparr>db_blocks := g\<rparr>) = wf s" "wf (s\<lparr>db_block_revisions := h\<rparr>) = wf s"
  "wf (s\<lparr>db_fences := k\<rparr>) = wf s"
  by (rule wf_core; simp)+

lemma keys_below_widen: "keys_below n t \<Longrightarrow> n \<le> n' \<Longrightarrow> keys_below n' t"
  by (fastforce simp: keys_below_def)

lemma keys_below_update [simp]: "keys_below n (t_update p f t) = keys_below n t"
  by (simp add: keys_below_def)

lemma keys_below_append:
  "keys_below n t \<Longrightarrow> allocated n n' xs \<Longrightarrow> n \<le> n' \<Longrightarrow> keys_below n' (xs @ t)"
  unfolding keys_below_def allocated_def by (fastforce simp: image_Un)

text \<open>Appending freshly allocated rows hides nothing.\<close>

lemma map_of_fresh_append:
  assumes "keys_below n t" "allocated n n' xs"
  shows "(map_of t ++ map_of xs) k = (case map_of t k of Some r \<Rightarrow> Some r | None \<Rightarrow> map_of xs k)"
proof (cases "map_of t k")
  case None
  then show ?thesis by (simp add: map_add_def split: option.splits)
next
  case (Some r)
  then have "k < n" using assms(1) by (auto simp: keys_below_def dest!: map_of_SomeD)
  then have "map_of xs k = None" using assms(2) by (auto simp: allocated_def map_of_eq_None_iff)
  with Some show ?thesis by (simp add: map_add_def)
qed

lemma revision_owner:
  "wf s \<Longrightarrow> map_of (db_revisions s) k = Some r \<Longrightarrow>
   \<exists>row. map_of (db_memories s) (r_memory r) = Some row \<and> m_space row = r_space r
     \<and> 1 \<le> r_version r \<and> r_version r \<le> m_version row"
  by (simp add: wf_def wf_revisions_def)

lemma revision_version_unique:
  "wf s \<Longrightarrow> map_of (db_revisions s) k = Some r \<Longrightarrow> map_of (db_revisions s) k' = Some r' \<Longrightarrow>
   r_memory r = r_memory r' \<Longrightarrow> r_version r = r_version r' \<Longrightarrow> k = k'"
proof -
  assume "wf s" and k: "map_of (db_revisions s) k = Some r" "map_of (db_revisions s) k' = Some r'"
    and eq: "r_memory r = r_memory r'" "r_version r = r_version r'"
  then have "inj_on (\<lambda>(k, r). (r_memory r, r_version r)) (set (db_revisions s))"
    by (simp add: wf_def wf_revisions_def distinct_map)
  from inj_onD [OF this, of "(k, r)" "(k', r')"] k [THEN map_of_SomeD] eq show "k = k'" by simp
qed

lemma current_newest:
  "wf s \<Longrightarrow> map_of (db_memories s) m = Some row \<Longrightarrow> m_current row = Some rid \<Longrightarrow>
   \<exists>r. map_of (db_revisions s) rid = Some r \<and> r_memory r = m
     \<and> (\<forall>k r'. map_of (db_revisions s) k = Some r' \<and> r_memory r' = m \<longrightarrow> r_version r' \<le> r_version r)"
  by (simp add: wf_def wf_current_def)

lemma live_has_current:
  "wf s \<Longrightarrow> map_of (db_memories s) m = Some row \<Longrightarrow> m_deleted_at row = None \<Longrightarrow> m_current row \<noteq> None"
  unfolding wf_def wf_current_def by blast

lemma operation_owner:
  "wf s \<Longrightarrow> map_of (db_operations s) k = Some op \<Longrightarrow>
   \<exists>row. map_of (db_memories s) (o_memory op) = Some row \<and> m_space row = o_space op
     \<and> (m_deleted_at row \<noteq> None \<and> live_op (o_state op) \<longrightarrow> o_kind op = Delete)"
  by (simp add: wf_def wf_operations_def)

lemma job_owner:
  "wf s \<Longrightarrow> map_of (db_jobs s) k = Some j \<Longrightarrow>
   \<exists>op. map_of (db_operations s) (j_operation j) = Some op \<and> o_space op = j_space j
     \<and> (o_kind op = Delete \<longleftrightarrow> j_kind j = Purge)
     \<and> (live_job (j_state j) \<longrightarrow> (\<forall>row. map_of (db_memories s) (o_memory op) = Some row \<and> m_deleted_at row \<noteq> None
           \<longrightarrow> j_kind j = Purge))"
  by (simp add: wf_def wf_operations_def)

lemma deletion_iff:
  "wf s \<Longrightarrow> map_of (db_deletions s) m \<noteq> None \<longleftrightarrow>
     (\<exists>row. map_of (db_memories s) m = Some row \<and> m_deleted_at row \<noteq> None)"
  unfolding wf_def wf_deleted_def by blast

lemma deletion_denied: "wf s \<Longrightarrow> map_of (db_deletions s) m \<noteq> None \<Longrightarrow> map_of (db_denials s) m \<noteq> None"
  unfolding wf_def wf_deleted_def by blast

lemma deletion_operation:
  "wf s \<Longrightarrow> map_of (db_deletions s) m = Some d \<Longrightarrow>
   \<exists>op. map_of (db_operations s) (d_operation d) = Some op \<and> o_memory op = m \<and> o_kind op = Delete"
  unfolding wf_def wf_deleted_def by blast

section \<open>Saving and revising\<close>

lemma wrote_core:
  assumes "wrote s t mems revs so sr ops jobs rcs"
  shows "db_next s \<le> db_next t" "db_memories t = mems" "db_revisions t = revs @ db_revisions s"
    "db_operations t = ops @ db_operations s" "db_jobs t = jobs @ db_jobs s"
    "db_deletions t = db_deletions s" "db_denials t = db_denials s"
    "allocated (db_next s) (db_next t) revs" "allocated (db_next s) (db_next t) ops"
    "allocated (db_next s) (db_next t) jobs" "db_receipts t = rcs @ db_receipts s"
    "access_view t = access_view s" "db_embeddings t = db_embeddings s"
    "db_sources t = so @ db_sources s" "db_source_revisions t = sr @ db_source_revisions s"
    "db_blocks t = db_blocks s"
  using assms unfolding wrote_def by (elim exE conjE, simp add: access_view_def)+

lemma wf_write:
  assumes wf: "wf s" and w: "wrote s t mems [(rid, r)] so sr ops jobs rcs"
    and mems: "keys_below (db_next t) mems"
      "map_of mems = (map_of (db_memories s))(m \<mapsto> row)"
    and row: "m_current row = Some rid" "m_deleted_at row = None" "m_space row = space"
    and rev: "r_memory r = m" "r_space r = space" "r_version r = m_version row" "1 \<le> r_version r"
    and old: "\<And>x. map_of (db_memories s) m = Some x \<Longrightarrow>
        m_version x < m_version row \<and> m_space x = space \<and> m_deleted_at x = None"
    and new: "new_rows space m (Some rid) kind ops jobs" "kind \<noteq> Delete"
  shows "wf t"
proof -
  define n where "n = db_next t"
  have n: "db_next s \<le> n" "db_next t = n" "db_memories t = mems"
    "db_revisions t = (rid, r) # db_revisions s" "db_operations t = ops @ db_operations s"
    "db_jobs t = jobs @ db_jobs s" "db_deletions t = db_deletions s" "db_denials t = db_denials s"
    and al: "allocated (db_next s) n [(rid, r)]" "allocated (db_next s) n ops" "allocated (db_next s) n jobs"
    using wrote_core [OF w] by (simp_all add: n_def)
  from wf have keys: "keys_below (db_next s) (db_memories s)" "keys_below (db_next s) (db_revisions s)"
    "keys_below (db_next s) (db_operations s)" "keys_below (db_next s) (db_jobs s)"
    by (auto simp: wf_def wf_keys_def)
  have free: "map_of (db_revisions s) rid = None"
    using keys(2) al(1) by (force simp: keys_below_def allocated_def map_of_eq_None_iff)
  have below: "r_memory x = m \<Longrightarrow> map_of (db_revisions s) k = Some x \<Longrightarrow> r_version x < m_version row" for k x
  proof -
    assume x: "map_of (db_revisions s) k = Some x" "r_memory x = m"
    with revision_owner [OF wf x(1)] obtain y where "map_of (db_memories s) m = Some y" "r_version x \<le> m_version y"
      by blast
    with old show "r_version x < m_version row" by (meson le_less_trans)
  qed
  have 1: "wf_keys t"
    using keys al n mems(1) keys_below_append [OF keys(2) al(1) n(1)]
      keys_below_append [OF keys(3) al(2) n(1)] keys_below_append [OF keys(4) al(3) n(1)]
    by (simp add: wf_keys_def)
  have 2: "wf_revisions t"
    unfolding wf_revisions_def n(3,4) mems(2)
  proof (intro conjI allI impI)
    fix k x assume k: "map_of ((rid, r) # db_revisions s) k = Some x"
    show "\<exists>y. ((map_of (db_memories s))(m \<mapsto> row)) (r_memory x) = Some y \<and> m_space y = r_space x
        \<and> 1 \<le> r_version x \<and> r_version x \<le> m_version y"
    proof (cases "k = rid")
      case True
      then show ?thesis using k rev row by simp
    next
      case False
      with k revision_owner [OF wf, of k x] obtain y where "map_of (db_memories s) (r_memory x) = Some y"
        "m_space y = r_space x" "1 \<le> r_version x" "r_version x \<le> m_version y"
        by auto
      with old row show ?thesis by (cases "r_memory x = m") force+
    qed
  next
    have "(m, m_version row) \<notin> (\<lambda>(k, x). (r_memory x, r_version x)) ` set (db_revisions s)"
    proof
      assume "(m, m_version row) \<in> (\<lambda>(k, x). (r_memory x, r_version x)) ` set (db_revisions s)"
      then obtain k x where "(k, x) \<in> set (db_revisions s)" "r_memory x = m" "r_version x = m_version row" by auto
      with keys(2) below [of x k] show False by (simp add: keys_below_def)
    qed
    then show "distinct (map (\<lambda>(k, r). (r_memory r, r_version r)) ((rid, r) # db_revisions s))"
      using wf rev by (simp add: wf_def wf_revisions_def)
  qed
  have 3: "wf_current t"
    unfolding wf_current_def n(3,4) mems(2)
  proof (intro allI impI conjI)
    fix k x assume x: "((map_of (db_memories s))(m \<mapsto> row)) k = Some x"
    show "m_current x = None \<Longrightarrow> m_deleted_at x \<noteq> None"
      using x row live_has_current [OF wf, of k x] by (auto split: if_splits)
    fix c assume c: "m_current x = Some c"
    show "\<exists>q. map_of ((rid, r) # db_revisions s) c = Some q \<and> r_memory q = k
        \<and> (\<forall>j q'. map_of ((rid, r) # db_revisions s) j = Some q' \<and> r_memory q' = k \<longrightarrow> r_version q' \<le> r_version q)"
    proof (cases "k = m")
      case True
      then show ?thesis using x c row rev below by (auto split: if_splits dest: less_imp_le)
    next
      case False
      with x c wf obtain q where q: "map_of (db_revisions s) c = Some q" "r_memory q = k"
        "\<forall>j q'. map_of (db_revisions s) j = Some q' \<and> r_memory q' = k \<longrightarrow> r_version q' \<le> r_version q"
        using current_newest [OF wf, of k x c] by auto
      with False rev free show ?thesis by (intro exI [of _ q]) auto
    qed
  qed
  have 4: "wf_operations t"
    unfolding wf_operations_def n(3,5,6) mems(2) map_of_append map_of_fresh_append [OF keys(3) al(2)]
      map_of_fresh_append [OF keys(4) al(3)]
  proof (intro conjI allI impI)
    fix k op assume op: "(case map_of (db_operations s) k of None \<Rightarrow> map_of ops k | Some r \<Rightarrow> Some r) = Some op"
    show "\<exists>x. ((map_of (db_memories s))(m \<mapsto> row)) (o_memory op) = Some x \<and> m_space x = o_space op
        \<and> (m_deleted_at x \<noteq> None \<and> live_op (o_state op) \<longrightarrow> o_kind op = Delete)"
    proof (cases "map_of (db_operations s) k")
      case None
      with op new row show ?thesis by (force simp: new_rows_def dest!: map_of_SomeD)
    next
      case (Some x)
      with op have "x = op" by simp
      with operation_owner [OF wf Some] old row show ?thesis by auto
    qed
  next
    fix k j assume j: "(case map_of (db_jobs s) k of None \<Rightarrow> map_of jobs k | Some r \<Rightarrow> Some r) = Some j"
    show "\<exists>op. (case map_of (db_operations s) (j_operation j) of None \<Rightarrow> map_of ops (j_operation j) | Some r \<Rightarrow> Some r) = Some op
        \<and> o_space op = j_space j \<and> (o_kind op = Delete \<longleftrightarrow> j_kind j = Purge)
        \<and> (live_job (j_state j) \<longrightarrow> (\<forall>x. ((map_of (db_memories s))(m \<mapsto> row)) (o_memory op) = Some x
             \<and> m_deleted_at x \<noteq> None \<longrightarrow> j_kind j = Purge))"
    proof (cases "map_of (db_jobs s) k")
      case None
      with j have "(k, j) \<in> set jobs" by (auto dest: map_of_SomeD)
      with new have jj: "j_space j = space" "j_operation j \<in> fst ` set ops" "j_kind j \<noteq> Purge"
        by (auto simp: new_rows_def)
      then obtain op where op: "map_of ops (j_operation j) = Some op"
        by (metis map_of_eq_None_iff option.exhaust)
      then have o: "o_space op = space" "o_memory op = m" "o_kind op \<noteq> Delete"
        using new by (auto simp: new_rows_def dest!: map_of_SomeD)
      have "map_of (db_operations s) (j_operation j) = None"
        using keys(3) al(2) jj(2) by (force simp: keys_below_def allocated_def map_of_eq_None_iff)
      with op o jj row show ?thesis by auto
    next
      case (Some x)
      with j have "x = j" by simp
      with job_owner [OF wf Some] obtain op where op: "map_of (db_operations s) (j_operation j) = Some op"
        "o_space op = j_space j" "o_kind op = Delete \<longleftrightarrow> j_kind j = Purge"
        "live_job (j_state j) \<longrightarrow> (\<forall>row. map_of (db_memories s) (o_memory op) = Some row \<and> m_deleted_at row \<noteq> None
           \<longrightarrow> j_kind j = Purge)"
        by blast
      with row show ?thesis by (intro exI [of _ op]) auto
    qed
  qed
  have 5: "wf_deleted t"
  proof -
    have nodel: "map_of (db_deletions s) m = None"
      using deletion_iff [OF wf, of m] old by fastforce
    show ?thesis
      unfolding wf_deleted_def n(3,5,7,8) mems(2) map_of_append map_of_fresh_append [OF keys(3) al(2)]
    proof (intro conjI allI impI)
      fix k show "map_of (db_deletions s) k \<noteq> None \<longleftrightarrow>
          (\<exists>x. ((map_of (db_memories s))(m \<mapsto> row)) k = Some x \<and> m_deleted_at x \<noteq> None)"
        using deletion_iff [OF wf, of k] nodel row by auto
    next
      fix k assume "map_of (db_deletions s) k \<noteq> None"
      with deletion_denied [OF wf] show "map_of (db_denials s) k \<noteq> None" by blast
    next
      fix k d assume "map_of (db_deletions s) k = Some d"
      with deletion_operation [OF wf]
      show "\<exists>op. (case map_of (db_operations s) (d_operation d) of None \<Rightarrow> map_of ops (d_operation d) | Some r \<Rightarrow> Some r) = Some op
          \<and> o_memory op = k \<and> o_kind op = Delete"
        by fastforce
    qed
  qed
  from 1 2 3 4 5 show ?thesis by (simp add: wf_def)
qed

text \<open>Every committed save and revision keeps the invariant.\<close>

lemma wf_save:
  assumes wf: "wf s" and run: "save_in_transaction sv i space c key s = Inr (rc, t)"
  shows "wf t"
proof (cases "map_of (db_receipts s) (space, id_principal i, key)")
  case (Some p)
  with run obtain r where "replay_previous sv r s = Inr (rc, t)"
    by (auto simp: save_in_transaction_Inr split: prod.splits)
  with wf show ?thesis by (auto elim!: replay_previous_run)
next
  case None
  with run have "save_new sv i space c key (sv_request sv (IngestRequest c)) s = Inr (rc, t)"
    by (simp add: save_in_transaction_Inr)
  then show ?thesis
  proof (cases rule: save_new_run)
    case (1 row rid r so sr ops jobs)
    have fresh: "map_of (db_memories s) (db_next s) = None" "keys_below (db_next s) (db_memories s)"
      using wf by (force simp: wf_def wf_keys_def keys_below_def map_of_eq_None_iff)+
    have "db_next s < db_next t"
      using wrote_core(1,8) [OF 1(2)] by (simp add: allocated_def)
    with fresh show ?thesis
      by (intro wf_write [OF wf 1(2), where row = row and m = "db_next s" and space = space and kind = Ingest])
         (use 1 in \<open>auto simp: keys_below_def fun_eq_iff map_of_eq_None_iff intro: less_trans\<close>)
  qed
qed

lemma wf_revise_apply:
  assumes wf: "wf s" and run: "revise_apply sv i m c row ev reason slot s = Inr (rc, t)"
    and row: "map_of (db_memories s) m = Some row" "m_deleted_at row = None"
  shows "wf t"
  using run
proof (cases rule: revise_apply_run)
  case (1 rid r so sr ops jobs now rcs)
  let ?row = "row\<lparr>m_current := Some rid, m_version := m_version row + 1, m_subject := in_subject c,
     m_kind := in_kind c, m_updated_at := now\<rparr>"
  have keys: "keys_below (db_next s) (db_memories s)" using wf by (simp add: wf_def wf_keys_def)
  show ?thesis
  proof (rule wf_write [OF wf 1(1), where row = ?row and m = m and space = "m_space row" and kind = Revise])
    show "keys_below (db_next t) (t_update (\<lambda>k r. k = m) (\<lambda>r. r\<lparr>m_current := Some rid, m_version := m_version row + 1,
                 m_subject := in_subject c, m_kind := in_kind c, m_updated_at := now\<rparr>) (db_memories s))"
      using keys_below_widen [OF keys wrote_core(1) [OF 1(1)]] by simp
    show "map_of (t_update (\<lambda>k r. k = m) (\<lambda>r. r\<lparr>m_current := Some rid, m_version := m_version row + 1,
                 m_subject := in_subject c, m_kind := in_kind c, m_updated_at := now\<rparr>) (db_memories s)) = (map_of (db_memories s))(m \<mapsto> ?row)"
      using row(1) by (auto simp: fun_eq_iff)
  qed (use 1 row in auto)
qed

section \<open>Forgetting\<close>

lemma forgot_core:
  assumes "forgot i space m s t ops jobs op"
  shows "db_next s \<le> db_next t" "db_memories t = deleted_row s m" "db_revisions t = db_revisions s"
    "db_operations t = ops @ cancelled_operations s m" "db_jobs t = jobs @ cancelled_jobs s m"
    "db_deletions t = (m, \<lparr>d_operation = op, d_requested_by = id_principal i,
        d_requested_at = db_now s, d_purged_at = None\<rparr>) # db_deletions s"
    "db_denials t = (if map_of (db_denials s) m = None then (m, space) # db_denials s else db_denials s)"
    "allocated (db_next s) (db_next t) ops" "allocated (db_next s) (db_next t) jobs"
    "db_receipts t = db_receipts s" "access_view t = access_view s" "map_of (db_deletions s) m = None"
    "db_capture_events t = db_capture_events s"
  using assms unfolding forgot_def by (elim exE conjE, simp add: access_view_def)+

lemma wf_forgot:
  assumes wf: "wf s" and f: "forgot i space m s t ops jobs op"
    and row: "map_of (db_memories s) m = Some row" "m_space row = space"
    and new: "new_rows space m None Delete ops jobs" "op \<in> fst ` set ops"
  shows "wf t"
proof -
  note c = forgot_core [OF f]
  from wf have keys: "keys_below (db_next s) (db_memories s)" "keys_below (db_next s) (db_revisions s)"
    "keys_below (db_next s) (db_operations s)" "keys_below (db_next s) (db_jobs s)"
    by (auto simp: wf_def wf_keys_def)
  then have keys': "keys_below (db_next s) (cancelled_operations s m)" "keys_below (db_next s) (cancelled_jobs s m)"
    by (simp_all add: cancelled_operations_def cancelled_jobs_def)
  note ap = map_of_fresh_append [OF keys'(1) c(8)] map_of_fresh_append [OF keys'(2) c(9)]
  have mems: "map_of (deleted_row s m) k = (if k = m then Some (row\<lparr>m_deleted_at := Some (db_now s),
      m_updated_at := db_now s, m_version := m_version row + 1\<rparr>) else map_of (db_memories s) k)" for k
    using row by (auto simp: deleted_row_def)
  have 1: "wf_keys t"
    using keys c(1) keys_below_append [OF keys'(1) c(8,1)] keys_below_append [OF keys'(2) c(9,1)]
    by (auto simp: wf_keys_def c deleted_row_def intro: keys_below_widen)
  have 2: "wf_revisions t"
    unfolding wf_revisions_def c(2,3) mems
  proof (intro conjI allI impI)
    fix k x assume "map_of (db_revisions s) k = Some x"
    from revision_owner [OF wf this] row
    show "\<exists>y. (if r_memory x = m then Some (row\<lparr>m_deleted_at := Some (db_now s),
      m_updated_at := db_now s, m_version := m_version row + 1\<rparr>) else map_of (db_memories s) (r_memory x)) = Some y
      \<and> m_space y = r_space x \<and> 1 \<le> r_version x \<and> r_version x \<le> m_version y"
      by auto
  next
    show "distinct (map (\<lambda>(k, r). (r_memory r, r_version r)) (db_revisions s))"
      using wf by (simp add: wf_def wf_revisions_def)
  qed
  have 3: "wf_current t"
    unfolding wf_current_def c(2,3) mems
  proof (intro allI impI conjI)
    fix k x assume x: "(if k = m then Some (row\<lparr>m_deleted_at := Some (db_now s),
      m_updated_at := db_now s, m_version := m_version row + 1\<rparr>) else map_of (db_memories s) k) = Some x"
    show "m_current x = None \<Longrightarrow> m_deleted_at x \<noteq> None"
      using x live_has_current [OF wf, of k x] by (auto split: if_splits)
    fix rid assume "m_current x = Some rid"
    with x row current_newest [OF wf, of k _ rid]
    show "\<exists>r. map_of (db_revisions s) rid = Some r \<and> r_memory r = k
        \<and> (\<forall>j r'. map_of (db_revisions s) j = Some r' \<and> r_memory r' = k \<longrightarrow> r_version r' \<le> r_version r)"
      by (auto split: if_splits)
  qed
  have ops_of: "map_of ops k = Some q \<Longrightarrow> o_space q = space \<and> o_memory q = m \<and> o_kind q = Delete" for k q
    using new by (auto simp: new_rows_def dest!: map_of_SomeD)
  have 4: "wf_operations t"
    unfolding wf_operations_def c(2,4,5) mems map_of_append ap
  proof (intro conjI allI impI)
    fix k q assume q: "(case map_of (cancelled_operations s m) k of None \<Rightarrow> map_of ops k | Some r \<Rightarrow> Some r) = Some q"
    show "\<exists>x. (if o_memory q = m then Some (row\<lparr>m_deleted_at := Some (db_now s),
      m_updated_at := db_now s, m_version := m_version row + 1\<rparr>) else map_of (db_memories s) (o_memory q)) = Some x
      \<and> m_space x = o_space q \<and> (m_deleted_at x \<noteq> None \<and> live_op (o_state q) \<longrightarrow> o_kind q = Delete)"
    proof (cases "map_of (db_operations s) k")
      case None
      with q have "map_of ops k = Some q" by (simp add: cancelled_operations_def)
      with ops_of row show ?thesis by fastforce
    next
      case (Some x)
      with q have "q = (if o_memory x = m \<and> live_op (o_state x) then x\<lparr>o_state := OpCancelled\<rparr> else x)"
        by (simp add: cancelled_operations_def)
      with operation_owner [OF wf Some] row show ?thesis by (auto simp: live_op_def)
    qed
  next
    fix k j assume j: "(case map_of (cancelled_jobs s m) k of None \<Rightarrow> map_of jobs k | Some r \<Rightarrow> Some r) = Some j"
    show "\<exists>q. (case map_of (cancelled_operations s m) (j_operation j) of None \<Rightarrow> map_of ops (j_operation j) | Some r \<Rightarrow> Some r) = Some q
        \<and> o_space q = j_space j \<and> (o_kind q = Delete \<longleftrightarrow> j_kind j = Purge)
        \<and> (live_job (j_state j) \<longrightarrow> (\<forall>x. (if o_memory q = m then Some (row\<lparr>m_deleted_at := Some (db_now s),
            m_updated_at := db_now s, m_version := m_version row + 1\<rparr>) else map_of (db_memories s) (o_memory q)) = Some x
             \<and> m_deleted_at x \<noteq> None \<longrightarrow> j_kind j = Purge))"
    proof (cases "map_of (db_jobs s) k")
      case None
      with j have "(k, j) \<in> set jobs" by (auto simp: cancelled_jobs_def dest: map_of_SomeD)
      with new have jj: "j_space j = space" "j_operation j \<in> fst ` set ops" "j_kind j = Purge"
        by (auto simp: new_rows_def)
      then obtain q where q: "map_of ops (j_operation j) = Some q"
        by (metis map_of_eq_None_iff option.exhaust)
      have "map_of (db_operations s) (j_operation j) = None"
        using keys(3) c(8) jj(2) by (force simp: keys_below_def allocated_def map_of_eq_None_iff)
      with q ops_of [OF q] jj show ?thesis by (simp add: cancelled_operations_def)
    next
      case (Some x)
      from job_owner [OF wf Some] obtain q where q: "map_of (db_operations s) (j_operation x) = Some q"
        "o_space q = j_space x" "o_kind q = Delete \<longleftrightarrow> j_kind x = Purge"
        "live_job (j_state x) \<longrightarrow> (\<forall>row. map_of (db_memories s) (o_memory q) = Some row \<and> m_deleted_at row \<noteq> None
           \<longrightarrow> j_kind x = Purge)"
        by blast
      from j Some have jx: "j = (if job_of s m x \<and> live_job (j_state x)
          then x\<lparr>j_state := JobCancelled, j_lease := None, j_lease_until := None\<rparr> else x)"
        by (simp add: cancelled_jobs_def)
      have "o_memory q = m \<Longrightarrow> job_of s m x" using q by (simp add: job_of_def)
      with q jx show ?thesis
        by (cases "o_memory q = m") (auto simp: cancelled_operations_def live_job_def)
    qed
  qed
  have 5: "wf_deleted t"
    unfolding wf_deleted_def c(2,4,6,7) mems map_of_append ap
  proof (intro conjI allI impI)
    fix k show "map_of ((m, \<lparr>d_operation = op, d_requested_by = id_principal i,
        d_requested_at = db_now s, d_purged_at = None\<rparr>) # db_deletions s) k \<noteq> None \<longleftrightarrow>
        (\<exists>x. (if k = m then Some (row\<lparr>m_deleted_at := Some (db_now s),
      m_updated_at := db_now s, m_version := m_version row + 1\<rparr>) else map_of (db_memories s) k) = Some x \<and> m_deleted_at x \<noteq> None)"
      using deletion_iff [OF wf, of k] by auto
  next
    fix k assume "map_of ((m, \<lparr>d_operation = op, d_requested_by = id_principal i,
        d_requested_at = db_now s, d_purged_at = None\<rparr>) # db_deletions s) k \<noteq> None"
    then show "map_of (if map_of (db_denials s) m = None then (m, space) # db_denials s else db_denials s) k \<noteq> None"
      using deletion_denied [OF wf, of k] by (cases "k = m") auto
  next
    fix k d assume d: "map_of ((m, \<lparr>d_operation = op, d_requested_by = id_principal i,
        d_requested_at = db_now s, d_purged_at = None\<rparr>) # db_deletions s) k = Some d"
    show "\<exists>q. (case map_of (cancelled_operations s m) (d_operation d) of None \<Rightarrow> map_of ops (d_operation d) | Some r \<Rightarrow> Some r) = Some q
          \<and> o_memory q = k \<and> o_kind q = Delete"
    proof (cases "k = m")
      case True
      obtain q where q: "map_of ops op = Some q" using new(2) by (metis map_of_eq_None_iff option.exhaust)
      have "map_of (db_operations s) op = None"
        using keys(3) c(8) new(2) by (force simp: keys_below_def allocated_def map_of_eq_None_iff)
      with q ops_of [OF q] d True show ?thesis by (auto simp: cancelled_operations_def)
    next
      case False
      with d deletion_operation [OF wf, of k d] show ?thesis by (auto simp: cancelled_operations_def)
    qed
  qed
  from 1 2 3 4 5 show ?thesis by (simp add: wf_def)
qed

end
