(* ===== verification/Memory_Theorems.thy ===== *)
theory Memory_Theorems
  imports Memory_Invariant
begin

text \<open>
  The transactions of the memory service as a whole: how a committed revision, withdrawal or review
  decomposes, that each keeps the database well formed, and that each only lets it evolve the way
  an append-only history may.
\<close>

lemma revise_locked_Inr:
  "revise_locked sv i space m c slot preserve rv s = Inr (rc, t) \<longleftrightarrow>
     (\<exists>row current. memory_row i m rv s = Inr (row, s) \<and> m_version row = ri_expected c
        \<and> hydrate_view m row None s = Some current
        \<and> \<not> (preserve \<and> (ri_source c \<noteq> None \<or> ri_content c \<noteq> v_content current))
        \<and> memory_input_ok (merged current c)
        \<and> (in_claim (merged current c) \<noteq> Observed \<or> v_claim current \<noteq> Observed \<longrightarrow>
             authorized s (id_principal i) space 10 \<and> authorized s (id_principal i) space 30)
        \<and> revise_apply sv i m (merged current c) row (if preserve then m_current row else None)
             (ri_reason c) slot s = Inr (rc, t))"
proof -
  have same: "memory_row i m rv s = Inr (row, u) \<longleftrightarrow> memory_row i m rv s = Inr (row, s) \<and> u = s" for row u
    by (auto simp: memory_row_Inr)
  show ?thesis
    unfolding revise_locked_def Let_def tx_bind_runs tx_then_runs require_version_def tx_guard_Inr hydrate_Inr
      tx_if_runs require_space_Inr
    by (subst same) (auto split: if_splits)
qed

lemma revise_keyed_Inr:
  "revise_keyed sv i space m c (Some k) preserve rv s = Inr (rc, t) \<longleftrightarrow> key_ok k \<and>
     (case map_of (db_receipts s) (space, id_principal i, k) of
        None \<Rightarrow> revise_locked sv i space m c (Some (k, sv_request sv (ReviseRequest m c preserve)))
                  preserve rv s = Inr (rc, t)
      | Some (d, r) \<Rightarrow> d = sv_request sv (ReviseRequest m c preserve) \<and> replay_previous sv r s = Inr (rc, t))"
  by (auto simp: revise_keyed_def Let_def tx_runs idempotency_Inr split: option.splits)

lemma revise_in_transaction_Inr:
  "revise_in_transaction sv i m c key preserve s = Inr (rc, t) \<longleftrightarrow>
     (\<exists>row. memory_row i m (reviewer_of i m s) s = Inr (row, s)
        \<and> authorized s (id_principal i) (m_space row) 10 \<and> authorized s (id_principal i) (m_space row) 20
        \<and> map_of (db_fences s) (m_space row) = None
        \<and> revise_keyed sv i (m_space row) m c key preserve (reviewer_of i m s) s = Inr (rc, t))"
  by (auto simp: revise_in_transaction_def tx_runs memory_row_Inr)

lemma wf_revise:
  assumes wf: "wf s" and run: "revise_in_transaction sv i m c key preserve s = Inr (rc, t)"
  shows "wf t"
proof -
  have locked: "wf t" if "revise_locked sv i space m c slot preserve rv s = Inr (rc, t)" for space slot rv
    using that wf_revise_apply [OF wf] by (auto simp: revise_locked_Inr memory_row_Inr dest: select_memory_Some)
  have replayed: "wf t" if "replay_previous sv r s = Inr (rc, t)" for r
    using that wf by (auto elim: replay_previous_run)
  from run obtain space rv where k: "revise_keyed sv i space m c key preserve rv s = Inr (rc, t)"
    unfolding revise_in_transaction_Inr by blast
  show ?thesis
  proof (cases key)
    case None
    with k locked show ?thesis by (simp add: revise_keyed_def)
  next
    case (Some x)
    with k locked replayed show ?thesis
      by (cases "map_of (db_receipts s) (space, id_principal i, x)") (auto simp: revise_keyed_Inr)
  qed
qed

text \<open>A change of the memory table alone that keeps every row's identity and raises versions.\<close>

lemma wf_retitle:
  assumes wf: "wf s" and n: "db_next s \<le> n"
    and row: "map_of (db_memories s) m = Some row" "\<And>r. m_space (f r) = m_space r" "\<And>r. m_current (f r) = m_current r"
      "\<And>r. m_deleted_at (f r) = m_deleted_at r" "m_version row \<le> m_version (f row)"
  shows "wf (s\<lparr>db_memories := t_update (\<lambda>k r. k = m) f (db_memories s), db_next := n\<rparr>)"
proof -
  let ?t = "s\<lparr>db_memories := t_update (\<lambda>k r. k = m) f (db_memories s), db_next := n\<rparr>"
  have mems: "map_of (db_memories ?t) k = (if k = m then Some (f row) else map_of (db_memories s) k)" for k
    using row(1) by simp
  have "wf_keys ?t" using wf n by (auto simp: wf_def wf_keys_def intro: keys_below_widen)
  moreover have "wf_revisions ?t"
  proof -
    have "\<exists>y. map_of (db_memories ?t) (r_memory r) = Some y \<and> m_space y = r_space r \<and> 1 \<le> r_version r
        \<and> r_version r \<le> m_version y" if "map_of (db_revisions s) k = Some r" for k r
      using revision_owner [OF wf that] row unfolding mems by (cases "r_memory r = m") (auto intro: order_trans)
    then show ?thesis using wf by (simp add: wf_def wf_revisions_def del: map_of_t_update)
  qed
  moreover have "wf_current ?t"
    unfolding wf_current_def mems
  proof (intro allI impI conjI)
    fix k x assume x: "(if k = m then Some (f row) else map_of (db_memories s) k) = Some x"
    obtain y where y: "map_of (db_memories s) k = Some y" "m_current y = m_current x" "m_deleted_at y = m_deleted_at x"
      using x row by (cases "k = m") auto
    show "m_current x = None \<Longrightarrow> m_deleted_at x \<noteq> None" using live_has_current [OF wf y(1)] y by auto
    fix rid assume "m_current x = Some rid"
    with current_newest [OF wf y(1)] y
    show "\<exists>r. map_of (db_revisions ?t) rid = Some r \<and> r_memory r = k
        \<and> (\<forall>j r'. map_of (db_revisions ?t) j = Some r' \<and> r_memory r' = k \<longrightarrow> r_version r' \<le> r_version r)"
      by simp
  qed
  moreover have "wf_operations ?t"
  proof -
    have "\<exists>x. map_of (db_memories ?t) (o_memory op) = Some x \<and> m_space x = o_space op
        \<and> (m_deleted_at x \<noteq> None \<and> live_op (o_state op) \<longrightarrow> o_kind op = Delete)"
      if "map_of (db_operations s) k = Some op" for k op
      using operation_owner [OF wf that] row unfolding mems by (cases "o_memory op = m") auto
    moreover have "\<exists>op. map_of (db_operations s) (j_operation j) = Some op \<and> o_space op = j_space j
        \<and> (o_kind op = Delete \<longleftrightarrow> j_kind j = Purge)
        \<and> (live_job (j_state j) \<longrightarrow> (\<forall>x. map_of (db_memories ?t) (o_memory op) = Some x \<and> m_deleted_at x \<noteq> None
             \<longrightarrow> j_kind j = Purge))"
      if "map_of (db_jobs s) k = Some j" for k j
      using job_owner [OF wf that] row unfolding mems by fastforce
    ultimately show ?thesis by (simp add: wf_operations_def del: map_of_t_update)
  qed
  moreover have "wf_deleted ?t"
  proof -
    have "(\<exists>x. map_of (db_memories ?t) k = Some x \<and> m_deleted_at x \<noteq> None) \<longleftrightarrow>
        (\<exists>x. map_of (db_memories s) k = Some x \<and> m_deleted_at x \<noteq> None)" for k
      using row unfolding mems by auto
    then show ?thesis using wf by (simp add: wf_def wf_deleted_def del: map_of_t_update)
  qed
  ultimately show ?thesis by (simp add: wf_def)
qed

lemma wf_review:
  assumes wf: "wf s" and run: "review_in_transaction sv i m c s = Inr (res, t)"
  shows "wf t"
proof -
  from run obtain row where row: "map_of (db_memories s) m = Some row"
    and r: "review_apply sv i m c row s = Inr (res, t)"
    by (auto simp: review_in_transaction_def tx_runs memory_row_Inr require_version_def dest!: select_memory_Some)
  let ?mems = "t_update (\<lambda>k r. k = m) (\<lambda>r. r\<lparr>m_review := rv_state c,
       m_version := m_version row + 1, m_updated_at := db_now s\<rparr>) (db_memories s)"
  from review_apply_run [OF r] have "core t = core (s\<lparr>db_memories := ?mems, db_next := db_next t\<rparr>)" "db_next s \<le> db_next t"
    by (auto simp: reviewed_def core_def)
  moreover have "wf (s\<lparr>db_memories := ?mems, db_next := db_next t\<rparr>)"
    by (rule wf_retitle [OF wf \<open>db_next s \<le> db_next t\<close> row]) simp_all
  ultimately show ?thesis using wf_core by blast
qed

section \<open>Forgetting\<close>

definition may_withdraw :: "identity \<Rightarrow> uuid \<Rightarrow> db \<Rightarrow> memory \<Rightarrow> bool" where
  "may_withdraw i m s row \<longleftrightarrow> select_memory i m s = Some row
     \<and> authorized s (id_principal i) (m_space row) 20
     \<and> (m_review row = Ordinary \<or> authorized s (id_principal i) (m_space row) 30)
     \<and> withdrawal_allowed i m row s"

lemma withdrawal_target_Inr:
  "withdrawal_target i m s = Inr (row, t) \<longleftrightarrow> t = s \<and> may_withdraw i m s row"
  by (auto simp: withdrawal_target_def tx_runs may_withdraw_def split: option.splits
      intro: authorized_mono)

lemma forget_with_Inr:
  "forget_with withdraw sv i m expected key s = Inr (rc, t) \<longleftrightarrow>
     (\<exists>row previous. may_withdraw i m s row \<and> map_of (db_fences s) (m_space row) = None \<and> key_ok key
        \<and> identity_ok i s
        \<and> map_of (db_receipts s) (m_space row, id_principal i, key) =
            map_option (Pair (sv_request sv (DeleteRequest m expected))) previous
        \<and> forget_row withdraw sv i m expected key row previous s = Inr (rc, t))"
proof -
  have one: "may_withdraw i m s r \<Longrightarrow> may_withdraw i m s r' \<Longrightarrow> r = r'" for r r'
    by (simp add: may_withdraw_def)
  have up: "may_withdraw i m s row \<Longrightarrow> authorized s (id_principal i) (m_space row) 10
      \<and> authorized s (id_principal i) (m_space row) 20" for row
    by (auto simp: may_withdraw_def intro: authorized_mono)
  let ?inner = "\<lambda>row previous. forget_row withdraw sv i m expected key row previous"
  have "forget_with withdraw sv i m expected key s = Inr (rc, t) \<longleftrightarrow>
     (\<exists>visible. may_withdraw i m s visible \<and> map_of (db_fences s) (m_space visible) = None
       \<and> authorized s (id_principal i) (m_space visible) 10 \<and> authorized s (id_principal i) (m_space visible) 20
       \<and> (\<exists>previous. key_ok key \<and> map_of (db_receipts s) (m_space visible, id_principal i, key) =
            map_option (Pair (sv_request sv (DeleteRequest m expected))) previous
         \<and> (\<exists>row. may_withdraw i m s row \<and> identity_ok i s \<and> ?inner row previous s = Inr (rc, t))))"
    by (auto simp: forget_with_def Let_def tx_bind_runs tx_then_runs withdrawal_target_Inr
        idempotency_Inr)
  also have "\<dots> \<longleftrightarrow> (\<exists>row previous. may_withdraw i m s row \<and> map_of (db_fences s) (m_space row) = None \<and> key_ok key
        \<and> identity_ok i s
        \<and> map_of (db_receipts s) (m_space row, id_principal i, key) =
            map_option (Pair (sv_request sv (DeleteRequest m expected))) previous
        \<and> ?inner row previous s = Inr (rc, t))" (is "?L = ?R")
  proof
    assume ?L
    then obtain visible previous row where "may_withdraw i m s visible" "map_of (db_fences s) (m_space visible) = None"
      "key_ok key" "map_of (db_receipts s) (m_space visible, id_principal i, key) =
            map_option (Pair (sv_request sv (DeleteRequest m expected))) previous"
      "may_withdraw i m s row" "identity_ok i s" "?inner row previous s = Inr (rc, t)"
      by (elim exE conjE)
    with one have "visible = row" by blast
    with \<open>may_withdraw i m s visible\<close> \<open>map_of (db_fences s) (m_space visible) = None\<close> \<open>key_ok key\<close>
      \<open>map_of (db_receipts s) (m_space visible, id_principal i, key) = _\<close> \<open>identity_ok i s\<close>
      \<open>?inner row previous s = Inr (rc, t)\<close>
    show ?R by (intro exI [of _ row] exI [of _ previous]) simp
  next
    assume ?R
    then obtain row previous where "may_withdraw i m s row" "map_of (db_fences s) (m_space row) = None"
      "key_ok key" "identity_ok i s" "map_of (db_receipts s) (m_space row, id_principal i, key) =
            map_option (Pair (sv_request sv (DeleteRequest m expected))) previous"
      "?inner row previous s = Inr (rc, t)"
      by (elim exE conjE)
    with up show ?L by (intro exI [of _ row] exI [of _ previous] conjI) simp_all
  qed
  finally show ?thesis .
qed

section \<open>Append-only evolution\<close>

text \<open>
  What no operation of the service undoes: a memory keeps its space and author, its version never
  decreases, and once deleted it stays deleted; revisions and receipts are never changed or
  removed, denials are never lifted and the audit trail only grows.
\<close>

definition row_evolves :: "memory \<Rightarrow> memory \<Rightarrow> bool" where
  "row_evolves r r' \<longleftrightarrow> m_space r' = m_space r \<and> m_created_by r' = m_created_by r
     \<and> m_created_at r' = m_created_at r \<and> m_version r \<le> m_version r'
     \<and> (m_deleted_at r \<noteq> None \<longrightarrow> r' = r)"

text \<open>A deleted memory gets no new revision.\<close>

definition is_deleted :: "db \<Rightarrow> uuid \<Rightarrow> bool" where
  "is_deleted s m = (case map_of (db_memories s) m of None \<Rightarrow> False | Some r \<Rightarrow> m_deleted_at r \<noteq> None)"

definition revises_live :: "db \<Rightarrow> db \<Rightarrow> bool" where
  "revises_live s t \<longleftrightarrow> (\<forall>k r. map_of (db_revisions t) k = Some r \<longrightarrow>
     map_of (db_revisions s) k = Some r \<or> \<not> is_deleted s (r_memory r))"

text \<open>A job keeps its place: only its state, lease, schedule and revision change.\<close>

definition job_identity where
  "job_identity j = (j_space j, j_operation j, j_kind j, j_generation j, j_run j, j_created_at j)"

definition same_jobs :: "(uuid, job) table \<Rightarrow> (uuid, job) table \<Rightarrow> bool" where
  "same_jobs js js' \<longleftrightarrow> (\<forall>k j. map_of js k = Some j \<longrightarrow>
     (\<exists>j'. map_of js' k = Some j' \<and> job_identity j' = job_identity j))"

definition evolves :: "db \<Rightarrow> db \<Rightarrow> bool" where
  "evolves s t \<longleftrightarrow>
     (\<forall>m r. map_of (db_memories s) m = Some r \<longrightarrow> (\<exists>r'. map_of (db_memories t) m = Some r' \<and> row_evolves r r'))
   \<and> map_of (db_revisions s) \<subseteq>\<^sub>m map_of (db_revisions t)
   \<and> map_of (db_receipts s) \<subseteq>\<^sub>m map_of (db_receipts t)
   \<and> dom (map_of (db_denials s)) \<subseteq> dom (map_of (db_denials t))
   \<and> suffix (db_audit s) (db_audit t)
   \<and> access_view t = access_view s
   \<and> db_embeddings t = db_embeddings s \<and> same_jobs (db_jobs s) (db_jobs t) \<and> revises_live s t"

definition safe :: "db \<Rightarrow> db \<Rightarrow> bool" where
  "safe s t \<longleftrightarrow> (wf s \<longrightarrow> wf t \<and> evolves s t)"

lemma row_evolves_refl [simp]: "row_evolves r r"
  by (simp add: row_evolves_def)

lemma row_evolves_trans: "row_evolves a b \<Longrightarrow> row_evolves b c \<Longrightarrow> row_evolves a c"
  by (auto simp: row_evolves_def)

lemma revises_live_same [simp]: "db_revisions t = db_revisions s \<Longrightarrow> revises_live s t"
  by (simp add: revises_live_def)

lemma evolves_deleted:
  "(\<And>m r. map_of (db_memories s) m = Some r \<Longrightarrow> \<exists>r'. map_of (db_memories t) m = Some r' \<and> row_evolves r r')
   \<Longrightarrow> is_deleted s m \<Longrightarrow> is_deleted t m"
  by (force simp: is_deleted_def row_evolves_def split: option.splits)

lemma same_jobs_refl [simp]: "same_jobs js js"
  by (simp add: same_jobs_def)

lemma same_jobs_trans: "same_jobs s t \<Longrightarrow> same_jobs t u \<Longrightarrow> same_jobs s u"
  unfolding same_jobs_def by metis

lemma same_jobs_update: "(\<And>j. job_identity (f j) = job_identity j) \<Longrightarrow> same_jobs js (t_update p f js)"
  by (simp add: same_jobs_def)

lemma same_jobs_fresh:
  assumes "keys_below n js" "allocated n n' new" "same_jobs js js'" "map fst js' = map fst js"
  shows "same_jobs js (new @ js')"
proof -
  have "keys_below n js'" using assms(1,4) by (simp add: keys_below_def flip: set_map)
  with assms(2,3) show ?thesis
    unfolding same_jobs_def map_of_append by (metis (no_types, lifting) map_of_fresh_append option.simps(5))
qed

lemma evolves_refl [simp]: "evolves s s"
  by (simp add: evolves_def revises_live_same)

lemma evolves_memory:
  "evolves s t \<Longrightarrow> map_of (db_memories s) m = Some r \<Longrightarrow>
   \<exists>r'. map_of (db_memories t) m = Some r' \<and> row_evolves r r'"
  by (simp add: evolves_def)

lemma evolves_revision:
  "evolves s t \<Longrightarrow> map_of (db_revisions t) k = Some r \<Longrightarrow>
   map_of (db_revisions s) k = Some r \<or> \<not> is_deleted s (r_memory r)"
  by (simp add: evolves_def revises_live_def)

lemma evolves_trans:
  assumes st: "evolves s t" and tu: "evolves t u"
  shows "evolves s u"
proof -
  have "revises_live s u"
    unfolding revises_live_def
    using evolves_deleted [of s t, OF evolves_memory [OF st]] evolves_revision [OF st] evolves_revision [OF tu] by blast
  moreover have "\<exists>r'. map_of (db_memories u) m = Some r' \<and> row_evolves r r'" if "map_of (db_memories s) m = Some r" for m r
    using evolves_memory [OF st that] evolves_memory [OF tu] row_evolves_trans by blast
  moreover have "same_jobs (db_jobs s) (db_jobs u)"
    using st tu same_jobs_trans unfolding evolves_def by blast
  ultimately show ?thesis
    using st tu unfolding evolves_def by (intro conjI) (blast intro: map_le_trans suffix_order.trans | simp)+
qed

interpretation safe: kept_relation safe
  by unfold_locales (auto simp: safe_def intro: evolves_trans)

lemma evolves_same:
  assumes "db_memories t = db_memories s" "db_revisions t = db_revisions s" "db_receipts t = db_receipts s"
    "db_denials t = db_denials s" "suffix (db_audit s) (db_audit t)" "access_view t = access_view s"
    "db_embeddings t = db_embeddings s" "same_jobs (db_jobs s) (db_jobs t)"
  shows "evolves s t"
  using assms by (simp add: evolves_def revises_live_same)

lemma map_le_fresh: "keys_below n t \<Longrightarrow> allocated n n' xs \<Longrightarrow> map_of t \<subseteq>\<^sub>m map_of (xs @ t)"
  by (auto simp: map_le_def map_of_fresh_append)

lemma replay_safe: "replay_previous sv r s = Inr (rc, t) \<Longrightarrow> safe s t"
  by (auto simp: safe_def access_view_def elim!: replay_previous_run intro!: evolves_same)

lemma wrote_evolves:
  assumes wf: "wf s" and w: "wrote s t mems revs so sr ops jobs rcs"
    and mems: "\<And>m r. map_of (db_memories s) m = Some r \<Longrightarrow> \<exists>r'. map_of mems m = Some r' \<and> row_evolves r r'"
    and rcs: "\<forall>k\<in>fst ` set rcs. map_of (db_receipts s) k = None"
    and live: "\<And>k r. (k, r) \<in> set revs \<Longrightarrow> \<not> is_deleted s (r_memory r)"
  shows "evolves s t"
proof -
  note c = wrote_core [OF w]
  have "keys_below (db_next s) (db_revisions s)" using wf by (simp add: wf_def wf_keys_def)
  then have "map_of (db_revisions s) \<subseteq>\<^sub>m map_of (revs @ db_revisions s)"
    using c(8) by (rule map_le_fresh)
  moreover have "map_of (db_receipts s) \<subseteq>\<^sub>m map_of (rcs @ db_receipts s)"
    using rcs by (auto simp: map_le_def map_add_def map_of_eq_None_iff split: option.splits dest!: map_of_SomeD) force
  moreover have "suffix (db_audit s) (db_audit t)"
    using w unfolding wrote_def by (elim exE conjE) (simp add: suffix_def)
  moreover have "same_jobs (db_jobs s) (jobs @ db_jobs s)"
    using wf c(10) by (intro same_jobs_fresh [where n = "db_next s"]) (auto simp: wf_def wf_keys_def)
  moreover have "revises_live s t"
    using live by (auto simp: revises_live_def c map_add_Some_iff dest!: map_of_SomeD)
       (metis map_of_SomeD map_of_eq_None_iff)?
  ultimately show ?thesis using mems by (simp add: evolves_def c)
qed

lemma save_safe: "stays safe (save_in_transaction sv i space c key)"
proof
  fix s rc t assume run: "save_in_transaction sv i space c key s = Inr (rc, t)"
  show "safe s t"
  proof (cases "map_of (db_receipts s) (space, id_principal i, key)")
    case (Some p)
    with run have "\<exists>r. replay_previous sv r s = Inr (rc, t)"
      by (auto simp: save_in_transaction_Inr split: prod.splits)
    then show ?thesis using replay_safe by blast
  next
    case None
    with run have "save_new sv i space c key (sv_request sv (IngestRequest c)) s = Inr (rc, t)"
      by (simp add: save_in_transaction_Inr)
    then show ?thesis
    proof (cases rule: save_new_run)
      case (1 row rid r so sr ops jobs)
      have "evolves s t" if wf: "wf s"
      proof (rule wrote_evolves [OF wf 1(2)])
        have new: "map_of (db_memories s) (db_next s) = None"
          using wf by (force simp: wf_def wf_keys_def keys_below_def map_of_eq_None_iff)
        then show "\<not> is_deleted s (r_memory x)" if "(k, x) \<in> set [(rid, r)]" for k x
          using that 1 by (simp add: is_deleted_def)
        fix k x assume x: "map_of (db_memories s) k = Some x"
        moreover have "k \<noteq> db_next s" using new x by auto
        ultimately show "\<exists>r'. map_of ((db_next s, row) # t_update (\<lambda>k r. k = db_next s)
            (\<lambda>r. r\<lparr>m_current := Some rid, m_version := 1\<rparr>) (db_memories s)) k = Some r' \<and> row_evolves x r'"
          by simp
      qed (simp add: 1(1))
      with wf_save [OF _ run] show ?thesis by (simp add: safe_def)
    qed
  qed
qed

lemma revise_apply_safe:
  assumes run: "revise_apply sv i m c row ev reason slot s = Inr (rc, t)"
    and row: "map_of (db_memories s) m = Some row" "m_deleted_at row = None"
  shows "safe s t"
  using run
proof (cases rule: revise_apply_run)
  case (1 rid r so sr ops jobs now rcs)
  have "evolves s t" if wf: "wf s"
  proof (rule wrote_evolves [OF wf 1(1)])
    fix k x assume "map_of (db_memories s) k = Some x"
    with row show "\<exists>r'. map_of (t_update (\<lambda>k r. k = m) (\<lambda>r. r\<lparr>m_current := Some rid, m_version := m_version row + 1,
                 m_subject := in_subject c, m_kind := in_kind c, m_updated_at := now\<rparr>) (db_memories s)) k = Some r' \<and> row_evolves x r'"
      by (auto simp: row_evolves_def)
  next
    show "\<forall>k\<in>fst ` set rcs. map_of (db_receipts s) k = None"
      using 1(2,3) by (auto split: option.splits)
  next
    show "\<not> is_deleted s (r_memory x)" if "(k, x) \<in> set [(rid, r)]" for k x
      using that 1 row by (simp add: is_deleted_def)
  qed
  with wf_revise_apply [OF _ run row] show ?thesis by (simp add: safe_def)
qed

lemma revise_safe: "stays safe (revise_in_transaction sv i m c key preserve)"
proof
  fix s rc t assume run: "revise_in_transaction sv i m c key preserve s = Inr (rc, t)"
  then obtain row :: memory and rv where k: "revise_keyed sv i (m_space row) m c key preserve rv s = Inr (rc, t)"
    unfolding revise_in_transaction_Inr by blast
  have locked: "safe s t" if "revise_locked sv i space m c slot preserve rv s = Inr (rc, t)" for space slot rv
    using that revise_apply_safe by (auto simp: revise_locked_Inr memory_row_Inr dest: select_memory_Some)
  show "safe s t"
  proof (cases key)
    case None
    with k locked show ?thesis by (simp add: revise_keyed_def)
  next
    case (Some x)
    with k locked replay_safe show ?thesis
      by (cases "map_of (db_receipts s) (m_space row, id_principal i, x)") (auto simp: revise_keyed_Inr)
  qed
qed

lemma review_safe: "stays safe (review_in_transaction sv i m c)"
proof
  fix s res t assume run: "review_in_transaction sv i m c s = Inr (res, t)"
  then obtain row where row: "map_of (db_memories s) m = Some row" "m_deleted_at row = None"
    and r: "review_apply sv i m c row s = Inr (res, t)"
    by (auto simp: review_in_transaction_def tx_runs memory_row_Inr require_version_def dest!: select_memory_Some)
  from review_apply_run [OF r] have
    "db_memories t = t_update (\<lambda>k r. k = m) (\<lambda>r. r\<lparr>m_review := rv_state c,
       m_version := m_version row + 1, m_updated_at := db_now s\<rparr>) (db_memories s)"
    "db_revisions t = db_revisions s" "db_receipts t = db_receipts s" "db_denials t = db_denials s"
    "suffix (db_audit s) (db_audit t)" "access_view t = access_view s"
    "db_embeddings t = db_embeddings s" "db_jobs t = db_jobs s"
    unfolding reviewed_def by (elim exE conjE, simp add: access_view_def suffix_def)+
  then have "evolves s t" using row by (auto simp: evolves_def row_evolves_def)
  with wf_review [OF _ run] show "safe s t" by (simp add: safe_def)
qed

section \<open>Deletion is safe\<close>

lemma forget_record_safe:
  assumes run: "forget_record sv i m row s = Inr (rc, t)"
    and row: "map_of (db_memories s) m = Some row0" "m_space row0 = m_space row"
  shows "safe s t"
proof -
  from run obtain ops jobs where f: "forgot i (m_space row) m s t ops jobs (rc_operation rc)"
    and new: "new_rows (m_space row) m None Delete ops jobs" "rc_operation rc \<in> fst ` set ops"
    by (rule forget_record_run)
  note c = forgot_core [OF f]
  have "evolves s t" if wf: "wf s"
  proof -
    have live: "m_deleted_at row0 = None" using deletion_iff [OF wf, of m] c(12) row(1) by auto
    have "suffix (db_audit s) (db_audit t)"
      using f unfolding forgot_def by (elim exE conjE) (simp add: suffix_def)
    moreover have "same_jobs (db_jobs s) (jobs @ cancelled_jobs s m)"
      using wf c(9) unfolding cancelled_jobs_def
      by (intro same_jobs_fresh [where n = "db_next s"] same_jobs_update)
         (auto simp: wf_def wf_keys_def job_identity_def)
    moreover have "db_embeddings t = db_embeddings s"
      using f unfolding forgot_def by (elim exE conjE) simp
    ultimately show ?thesis
      using row live by (auto simp: evolves_def c deleted_row_def row_evolves_def)
  qed
  with wf_forgot [OF _ f row new] show ?thesis by (simp add: safe_def)
qed

lemma forget_again_safe: "forget_again i m key d row s = Inr (rc, t) \<Longrightarrow> safe s t"
  by (auto simp: forget_again_def tx_runs remember_receipt_Inr safe_def evolves_def access_view_def map_le_def
      split: option.splits)

lemma receipt_safe: "remember_receipt i space key d r s = Inr (rc, t) \<Longrightarrow> safe s t"
  by (auto simp: remember_receipt_Inr safe_def evolves_def access_view_def map_le_def)

lemma forget_with_safe:
  assumes w: "stays safe (withdraw m)"
  shows "stays safe (forget_with withdraw sv i m expected key)"
proof
  fix s rc t assume "forget_with withdraw sv i m expected key s = Inr (rc, t)"
  then obtain row previous where row: "map_of (db_memories s) m = Some row"
    and r: "forget_row withdraw sv i m expected key row previous s = Inr (rc, t)"
    unfolding forget_with_Inr may_withdraw_def by (blast dest: select_memory_Some)
  show "safe s t"
  proof (cases previous)
    case (Some p)
    with r show ?thesis by (simp add: forget_row_def replay_safe)
  next
    case None
    show ?thesis
    proof (cases "m_deleted_at row")
      case (Some x)
      with r None show ?thesis by (simp add: forget_row_def forget_again_safe)
    next
      case live: None
      with r None obtain cf s1 rc0 s2 where 1: "withdraw m s = Inr (cf, s1)"
        and 2: "forget_record sv i m row s1 = Inr (rc0, s2)"
        and 3: "\<exists>d x. remember_receipt i (m_space row) key d x s2 = Inr (rc, t)"
        by (clarsimp simp: forget_row_def forget_live_def tx_runs require_version_def) blast
      have a: "safe s s1" using staysD [OF w 1] .
      have b: "safe s1 s2" if wf: "wf s"
      proof -
        from a wf row obtain row1 where "map_of (db_memories s1) m = Some row1" "m_space row1 = m_space row"
          by (auto simp: safe_def row_evolves_def dest!: evolves_memory)
        then show ?thesis by (rule forget_record_safe [OF 2])
      qed
      have c: "safe s2 t" using 3 receipt_safe by blast
      from a b c show ?thesis unfolding safe_def by (blast intro: evolves_trans)
    qed
  qed
qed

lemma forget_plain_safe: "stays safe (forget_plain sv i m expected key)"
  unfolding forget_plain_def by (rule forget_with_safe) (rule safe.kept_return)

lemma forget_siblings_safe: "stays safe (forget_siblings sv i fk m)"
proof -
  have "stays safe (forget_sibling sv i m fk k)" for k
    unfolding forget_sibling_def
    by (intro safe.kept_bind safe.kept_read stays_option stays_if safe.kept_return forget_plain_safe)
  then show ?thesis
    unfolding forget_siblings_def
    by (intro safe.kept_bind safe.kept_read stays_option safe.kept_return safe.kept_then safe.kept_each)
qed

lemma forget_safe: "stays safe (forget_in_transaction sv i fk m expected key)"
  unfolding forget_in_transaction_def by (rule forget_with_safe) (rule forget_siblings_safe)

lemma transaction_safe: "stays safe body \<Longrightarrow> stays safe (transaction i body)"
proof
  fix s a t assume b: "stays safe body" and "transaction i body s = Inr (a, t)"
  then have "safe (s\<lparr>db_callbacks := []\<rparr>) t" by (auto simp: transaction_Inr dest: staysD)
  moreover have "evolves (s\<lparr>db_callbacks := []\<rparr>) t = evolves s t"
    by (simp add: evolves_def revises_live_def is_deleted_def)
  ultimately show "safe s t" by (simp add: safe_def)
qed

section \<open>Jobs and operations change state\<close>

text \<open>
  A job that is alive may change its state, lease and schedule, and its operation its state and
  error: this is all the worker and the retry do.
\<close>

definition only_state :: "(operation \<Rightarrow> operation) \<Rightarrow> bool" where
  "only_state g \<longleftrightarrow> (\<forall>op. o_space (g op) = o_space op \<and> o_memory (g op) = o_memory op \<and> o_kind (g op) = o_kind op)"

lemma wf_settle:
  assumes wf: "wf s"
    and jobs: "\<And>k j. p k j \<Longrightarrow> map_of (db_jobs s) k = Some j \<Longrightarrow> live_job (j_state j)"
      "\<And>j. job_identity (f j) = job_identity j"
    and ops: "\<And>k op. q k op \<Longrightarrow> map_of (db_operations s) k = Some op \<Longrightarrow>
        live_op (o_state op) \<or> (\<exists>x j. map_of (db_jobs s) x = Some j \<and> j_operation j = k \<and> live_job (j_state j))
        \<or> (\<forall>op. \<not> live_op (o_state (g op)))"
      "only_state g"
  shows "wf (s\<lparr>db_jobs := t_update p f (db_jobs s), db_operations := t_update q g (db_operations s)\<rparr>)"
proof -
  let ?t = "s\<lparr>db_jobs := t_update p f (db_jobs s), db_operations := t_update q g (db_operations s)\<rparr>"
  have f: "j_space (f j) = j_space j" "j_operation (f j) = j_operation j" "j_kind (f j) = j_kind j" for j
    using jobs(2) [of j] by (simp_all add: job_identity_def)
  have g: "o_space (g op) = o_space op" "o_memory (g op) = o_memory op" "o_kind (g op) = o_kind op" for op
    using ops(2) by (simp_all add: only_state_def)
  have op: "\<exists>row. map_of (db_memories s) (o_memory op') = Some row \<and> m_space row = o_space op'
       \<and> (m_deleted_at row \<noteq> None \<and> live_op (o_state op') \<longrightarrow> o_kind op' = Delete)"
    if op': "map_of (db_operations ?t) k = Some op'" for k op'
  proof -
    from op' obtain op where op: "map_of (db_operations s) k = Some op" and "op' = (if q k op then g op else op)"
      by auto
    from operation_owner [OF wf op] obtain row where row: "map_of (db_memories s) (o_memory op) = Some row"
      "m_space row = o_space op" "m_deleted_at row \<noteq> None \<and> live_op (o_state op) \<longrightarrow> o_kind op = Delete" by blast
    have "o_kind op = Delete" if "m_deleted_at row \<noteq> None" "live_op (o_state op')"
    proof (cases "q k op")
      case True
      with ops(1) [OF True op] that \<open>op' = _\<close> have "live_op (o_state op)
          \<or> (\<exists>x j. map_of (db_jobs s) x = Some j \<and> j_operation j = k \<and> live_job (j_state j))" by auto
      then show ?thesis
      proof
        assume "\<exists>x j. map_of (db_jobs s) x = Some j \<and> j_operation j = k \<and> live_job (j_state j)"
        then obtain x j where "map_of (db_jobs s) x = Some j" "j_operation j = k" "live_job (j_state j)" by blast
        with job_owner [OF wf this(1)] op row that show ?thesis by auto
      qed (use row that in blast)
    qed (use that row \<open>op' = _\<close> in auto)
    with row g \<open>op' = _\<close> show ?thesis by auto
  qed
  have jb: "\<exists>op. map_of (db_operations ?t) (j_operation j') = Some op \<and> o_space op = j_space j'
       \<and> (o_kind op = Delete \<longleftrightarrow> j_kind j' = Purge)
       \<and> (live_job (j_state j') \<longrightarrow> (\<forall>row. map_of (db_memories s) (o_memory op) = Some row \<and> m_deleted_at row \<noteq> None
            \<longrightarrow> j_kind j' = Purge))"
    if j': "map_of (db_jobs ?t) k = Some j'" for k j'
  proof -
    from j' obtain j where j: "map_of (db_jobs s) k = Some j" and e: "j' = (if p k j then f j else j)" by auto
    have same: "j_space j' = j_space j" "j_operation j' = j_operation j" "j_kind j' = j_kind j"
      using e f by auto
    have live: "live_job (j_state j') \<Longrightarrow> live_job (j_state j)" using e jobs(1) [OF _ j] by (cases "p k j") auto
    from job_owner [OF wf j] obtain op where "map_of (db_operations s) (j_operation j) = Some op" "o_space op = j_space j"
      "o_kind op = Delete \<longleftrightarrow> j_kind j = Purge"
      "live_job (j_state j) \<longrightarrow> (\<forall>row. map_of (db_memories s) (o_memory op) = Some row \<and> m_deleted_at row \<noteq> None
            \<longrightarrow> j_kind j = Purge)" by blast
    with live g show ?thesis unfolding same
      by (cases "q (j_operation j) op") auto
  qed
  have "wf_keys ?t" using wf by (simp add: wf_def wf_keys_def)
  moreover have "wf_revisions ?t" "wf_current ?t" using wf by (simp_all add: wf_def wf_revisions_def wf_current_def)
  moreover have "wf_operations ?t" unfolding wf_operations_def using op jb by simp
  moreover have "wf_deleted ?t"
  proof -
    have "\<exists>op. map_of (db_operations ?t) (d_operation d) = Some op \<and> o_memory op = m \<and> o_kind op = Delete"
      if "map_of (db_deletions s) m = Some d" for m d
      using deletion_operation [OF wf that] g by (auto simp: split: if_splits) (metis g)
    with wf show ?thesis by (simp add: wf_def wf_deleted_def)
  qed
  ultimately show ?thesis by (simp add: wf_def)
qed

lemma wf_next: "wf s \<Longrightarrow> db_next s \<le> n \<Longrightarrow> wf (s\<lparr>db_next := n\<rparr>)"
  by (auto simp: wf_def wf_keys_def wf_revisions_def wf_current_def wf_operations_def wf_deleted_def
      intro: keys_below_widen)

lemma t_update_none [simp]: "t_update (\<lambda>k r. False) f t = t"
  by (simp add: t_update_def case_prod_beta')

lemma retry_safe: "stays safe (retry_operation i k)"
proof
  fix s u t assume "retry_operation i k s = Inr (u, t)"
  then obtain op ae where op: "map_of (db_operations s) k = Some op" "o_state op = OpFailed"
    and t: "t = s\<lparr>db_callbacks := [],
        db_jobs := t_update (\<lambda>_ j. j_operation j = k \<and> j_state j = Failed)
          (\<lambda>j. j\<lparr>j_state := Pending, j_attempts := 0, j_available_at := db_now s, j_error := None\<rparr>) (db_jobs s),
        db_operations := t_update (\<lambda>x _. x = k) (\<lambda>op. op\<lparr>o_state := Accepted, o_error := None\<rparr>) (db_operations s),
        db_next := db_next s + 1, db_audit := ae # db_audit s\<rparr>"
    by (auto simp: retry_operation_def transaction_Inr tx_runs split: option.splits if_splits elim!: audit_run)
  let ?u = "s\<lparr>db_jobs := db_jobs t, db_operations := db_operations t\<rparr>"
  have "wf t" if wf: "wf s"
  proof -
    have "db_jobs t = t_update (\<lambda>_ j. j_operation j = k \<and> j_state j = Failed)
          (\<lambda>j. j\<lparr>j_state := Pending, j_attempts := 0, j_available_at := db_now s, j_error := None\<rparr>) (db_jobs s)"
      "db_operations t = t_update (\<lambda>x _. x = k) (\<lambda>op. op\<lparr>o_state := Accepted, o_error := None\<rparr>) (db_operations s)"
      by (simp_all add: t)
    then have "wf ?u"
      using op by (simp only:, intro wf_settle [OF wf])
        (auto simp: live_job_def live_op_def job_identity_def only_state_def)
    then have "wf (?u\<lparr>db_next := db_next t\<rparr>)" by (rule wf_next) (simp add: t)
    moreover have "core t = core (?u\<lparr>db_next := db_next t\<rparr>)" by (simp add: core_def t)
    ultimately show ?thesis using wf_core by blast
  qed
  moreover have "evolves s t"
    by (rule evolves_same) (simp_all add: t suffix_def access_view_def same_jobs_update job_identity_def)
  ultimately show "safe s t" by (simp add: safe_def)
qed

end
