(* ===== verification/Memory_Examples.thy ===== *)
theory Memory_Examples
  imports Memory_Theorems
begin

text \<open>
  A small tenant on which the properties of the memory service are exercised: one space, a
  contributor, a reviewer and an administrator, no journal destination.
\<close>

definition demo_sv :: svc where
  "demo_sv = \<lparr>sv_generation = ''g1'', sv_sha = (\<lambda>c. c),
     sv_request = (\<lambda>r. case r of IngestRequest c \<Rightarrow> ''i'' @ in_content c
        | ReviseRequest m c p \<Rightarrow> ''r'' @ ri_content c
        | DeleteRequest m e \<Rightarrow> ''d'' @ decimal e),
     sv_times = (\<lambda>_ _ _ _. []), sv_writeback = None\<rparr>"

definition demo_fk :: "uuid \<Rightarrow> uuid \<Rightarrow> string" where
  "demo_fk m k = CHR ''f'' # replicate k CHR ''x''"

definition demo_db :: db where
  "demo_db = \<lparr>db_tenant = 1, db_now = 100, db_next = 50,
     db_principals = [(2, \<lparr>p_disabled = False, p_administrator = False\<rparr>),
                      (3, \<lparr>p_disabled = False, p_administrator = False\<rparr>),
                      (4, \<lparr>p_disabled = False, p_administrator = True\<rparr>)],
     db_keys = [(12, \<lparr>k_principal = 2, k_revoked = False, k_expires = None\<rparr>),
                (13, \<lparr>k_principal = 3, k_revoked = False, k_expires = Some 900\<rparr>),
                (14, \<lparr>k_principal = 4, k_revoked = False, k_expires = None\<rparr>)],
     db_grants = [((7, 2), Contributor), ((7, 3), Reviewer), ((7, 4), Administrator)],
     db_connectors = [], db_scopes = [], db_capture_sources = [], db_bindings = [], db_withheld = [],
     db_fences = [], db_importing = [], db_memories = [], db_revisions = [], db_sources = [],
     db_source_revisions = [], db_attachments = [], db_operations = [], db_jobs = [], db_embeddings = [], db_settings = [],
     db_runs = [], db_receipts = [], db_denials = [], db_deletions = [], db_audit = [], db_notes = [],
     db_blocks = [], db_block_revisions = [], db_proposals = [], db_dependencies = [],
     db_observations = [], db_capture_events = [], db_aliases = [], db_wb_settings = [],
     db_wb_events = [], db_callbacks = [],
     db_spaces = [(7, \<lparr>sp_created_at = 1, sp_turn = None\<rparr>)], db_turn = 0, db_connector_proposals = [],
     db_datasets = [], db_eval_dependencies = [], db_eval_runs = [], db_eval_results = [],
     db_generations = [''g1'', ''g2''], db_model_receipts = []\<rparr>"

definition alice :: identity where
  "alice = \<lparr>id_principal = 2, id_key = 12, id_expires = None\<rparr>"

definition rita :: identity where
  "rita = \<lparr>id_principal = 3, id_key = 13, id_expires = Some 500\<rparr>"

definition adam :: identity where
  "adam = \<lparr>id_principal = 4, id_key = 14, id_expires = None\<rparr>"

definition demo_input :: memory_input where
  "demo_input = \<lparr>in_content = ''tea'', in_kind = ''note'', in_subject = None, in_metadata = [],
     in_source = None, in_claim = Observed, in_valid_from = None, in_valid_to = None\<rparr>"

definition demo_revision :: revision_input where
  "demo_revision = \<lparr>ri_content = ''green tea'', ri_kind = None, ri_subject = None, ri_metadata = None,
     ri_source = None, ri_claim = None, ri_valid_from = None, ri_valid_to = None, ri_expected = 1,
     ri_reason = ''colour''\<rparr>"

definition demo_receipt :: receipt where
  "demo_receipt = \<lparr>rc_operation = 40, rc_memory = 41, rc_revision = Some 42, rc_space = 7, rc_state = Accepted,
     rc_lexical = True, rc_generation = Some ''g1'', rc_version = 1, rc_deleted = False, rc_purged = None,
     rc_writeback = None, rc_capture = None\<rparr>"

lemma demo_wf: "wf demo_db"
  by (simp add: wf_def wf_parts demo_db_def keys_below_def)

lemmas demo_defs = demo_db_def demo_sv_def alice_def rita_def adam_def demo_input_def demo_revision_def

lemmas run_defs = transaction_def check_identity_def identity_ok_def require_space_def write_boundary_def
  authorized_def principal_enabled_def scope_open_def capture_open_def idempotency_def key_ok_def
  remember_receipt_def audit_def tx_bind_at tx_then_at tx_guard_at

lemmas save_defs = save_def save_in_transaction_def save_new_def revision_tx_def captured_revision_def
  latest_revision_def add_revision_def add_source_def add_source_revision_def put_memory_def update_memory_def
  operation_tx_def settings_def add_operation_def add_job_def new_operation_def new_job_def route_candidate_def
  capture_write_def

lemmas revise_defs = revise_def revise_in_transaction_def reviewer_of_def memory_row_def select_memory_def
  sees_memory_def withheld_def revise_keyed_def revise_locked_def require_version_def hydrate_def hydrate_view_def
  merged_def memory_input_ok_def blank_def py_space_def substring_def revise_apply_def finish_receipt_def

lemmas forget_defs = forget_def forget_in_transaction_def forget_with_def withdrawal_target_def withdrawal_allowed_def
  forget_row_def forget_live_def forget_siblings_def capture_preview_of_def family_def forget_record_def
  purge_librarian_dependencies_def cancel_jobs_def cancel_operations_def job_of_def live_job_def live_op_def
  add_denial_def add_deletion_def select_memory_def sees_memory_def withheld_def require_version_def

lemma saved_run: "\<exists>rc t. save demo_sv alice 7 demo_input ''k1'' demo_db = Inr (rc, t)"
  by (simp add: demo_defs run_defs save_defs Let_def)

lemma revised_run:
  "\<exists>rc t rc' u. save demo_sv alice 7 demo_input ''k1'' demo_db = Inr (rc, t)
     \<and> revise demo_sv alice 50 demo_revision ''k2'' t = Inr (rc', u)"
  by (simp add: demo_defs run_defs save_defs revise_defs Let_def)

lemma forgotten_run:
  "\<exists>rc t rc' u. save demo_sv alice 7 demo_input ''k1'' demo_db = Inr (rc, t)
     \<and> forget demo_sv alice demo_fk 50 1 ''k3'' t = Inr (rc', u)"
  by (simp add: demo_defs run_defs save_defs forget_defs Let_def)

text \<open>Two records that one capture took from the same lineage.\<close>

definition demo_family :: "(uuid, capture_event) table" where
  "demo_family = [(50, \<lparr>ce_space = 7, ce_source = 9, ce_lineage = ''mail''\<rparr>),
                  (57, \<lparr>ce_space = 7, ce_source = 9, ce_lineage = ''mail''\<rparr>)]"

lemma list_all_replicated: "list_all P (replicate n x) \<longleftrightarrow> n = 0 \<or> P x"
  by (induction n) auto

lemmas family_defs = list_all_replicated demo_family_def demo_fk_def forget_sibling_def forget_plain_def siblings_def
  family_def retained_def

lemma family_run:
  "\<exists>rc t rc' u rc2 v. save demo_sv alice 7 demo_input ''k1'' demo_db = Inr (rc, t)
     \<and> save demo_sv alice 7 demo_input ''k4'' t = Inr (rc', u)
     \<and> forget demo_sv alice demo_fk 50 1 ''k3'' (u\<lparr>db_capture_events := demo_family\<rparr>) = Inr (rc2, v)
     \<and> retained u 50 \<and> list_all (\<lambda>((space, p, k), x). k = ''k1'' \<or> k = ''k4'') (db_receipts u)
     \<and> (\<exists>row. map_of (db_memories u) 50 = Some row \<and> m_space row = 7)"
  by (simp add: demo_defs run_defs save_defs forget_defs family_defs Let_def)

end
