(* ===== verification/Memory_Commands.thy ===== *)
theory Memory_Commands
  imports Memory_Examples
begin

text \<open>
  The three keyed commands of the memory service seen from a client that retries: a key answers one
  request for ever, a repeated request is answered by its stored receipt and changes nothing but
  the after-commit notifications. The properties of single operations that a client relies on
  follow: version checks, withdrawal, deletion.
\<close>

section \<open>Commands\<close>

datatype command =
    SaveCommand uuid memory_input
  | ReviseCommand uuid revision_input
  | ForgetCommand uuid nat

fun keyed_call :: "svc \<Rightarrow> (uuid \<Rightarrow> uuid \<Rightarrow> string) \<Rightarrow> identity \<Rightarrow> command \<Rightarrow> string \<Rightarrow> receipt act" where
  "keyed_call sv fk i (SaveCommand space c) key = save sv i space c key"
| "keyed_call sv fk i (ReviseCommand m c) key = revise sv i m c key"
| "keyed_call sv fk i (ForgetCommand m expected) key = forget sv i fk m expected key"

fun command_request :: "command \<Rightarrow> request" where
  "command_request (SaveCommand space c) = IngestRequest c"
| "command_request (ReviseCommand m c) = ReviseRequest m c False"
| "command_request (ForgetCommand m expected) = DeleteRequest m expected"

fun command_space :: "db \<Rightarrow> command \<Rightarrow> uuid option" where
  "command_space s (SaveCommand space c) = Some space"
| "command_space s (ReviseCommand m c) = map_option m_space (map_of (db_memories s) m)"
| "command_space s (ForgetCommand m expected) = map_option m_space (map_of (db_memories s) m)"

text \<open>The slot of the receipt table that the command uses.\<close>

definition slot_of :: "db \<Rightarrow> identity \<Rightarrow> command \<Rightarrow> string \<Rightarrow> (digest \<times> receipt) option" where
  "slot_of s i c key = (case command_space s c of None \<Rightarrow> None
     | Some space \<Rightarrow> map_of (db_receipts s) (space, id_principal i, key))"

lemma keyed_call_safe: "stays safe (keyed_call sv fk i c key)"
  by (cases c) (simp_all add: save_def revise_def forget_def transaction_safe save_safe revise_safe forget_safe)

section \<open>Replays\<close>

lemma replay_at: "\<exists>cb. replay_previous sv r s = Inr (r, s\<lparr>db_callbacks := cb\<rparr>)"
proof (cases "replay_previous sv r s")
  case (Inl e)
  then show ?thesis
    by (auto simp: replay_previous_def wb_replay_def after_commit_def tx_then_at split: option.splits sum.splits)
next
  case (Inr p)
  then show ?thesis by (metis replay_previous_run surj_pair)
qed

lemma save_slot:
  assumes "save_in_transaction sv i space c key s = Inr (rc, t)"
  shows "map_of (db_receipts t) (space, id_principal i, key) = Some (sv_request sv (IngestRequest c), rc)"
    and "map_of (db_receipts s) (space, id_principal i, key) \<in> {None, Some (sv_request sv (IngestRequest c), rc)}"
  using assms unfolding save_in_transaction_Inr
  by (auto simp: wrote_core(11) split: option.splits elim!: replay_previous_run elim: save_new_run)

lemma revise_slot:
  assumes run: "revise_in_transaction sv i m c (Some key) preserve s = Inr (rc, t)"
  shows "\<exists>row. map_of (db_memories s) m = Some row
    \<and> map_of (db_receipts t) (m_space row, id_principal i, key) = Some (sv_request sv (ReviseRequest m c preserve), rc)
    \<and> map_of (db_receipts s) (m_space row, id_principal i, key)
        \<in> {None, Some (sv_request sv (ReviseRequest m c preserve), rc)}"
proof -
  from run obtain row where row: "map_of (db_memories s) m = Some row"
    and k: "revise_keyed sv i (m_space row) m c (Some key) preserve (reviewer_of i m s) s = Inr (rc, t)"
    unfolding revise_in_transaction_Inr by (auto simp: memory_row_Inr dest: select_memory_Some)
  let ?d = "sv_request sv (ReviseRequest m c preserve)"
  have "map_of (db_receipts t) (m_space row, id_principal i, key) = Some (?d, rc)
    \<and> map_of (db_receipts s) (m_space row, id_principal i, key) \<in> {None, Some (?d, rc)}"
  proof (cases "map_of (db_receipts s) (m_space row, id_principal i, key)")
    case None
    with k obtain row' ev cmd rv where r': "select_memory i m s = Some row'"
      and a: "revise_apply sv i m cmd row' ev (ri_reason c) (Some (key, ?d)) s = Inr (rc, t)"
      by (auto simp: revise_keyed_Inr revise_locked_Inr memory_row_Inr)
    from r' row have [simp]: "row' = row" by (auto dest: select_memory_Some)
    from a None show ?thesis by (cases rule: revise_apply_run) (auto simp: wrote_core(11))
  next
    case (Some p)
    with k show ?thesis by (auto simp: revise_keyed_Inr elim!: replay_previous_run)
  qed
  with row show ?thesis by blast
qed

lemma forget_with_slot:
  assumes run: "forget_with w sv i m expected key s = Inr (rc, t)"
  shows "\<exists>row. may_withdraw i m s row
    \<and> map_of (db_receipts t) (m_space row, id_principal i, key) = Some (sv_request sv (DeleteRequest m expected), rc)
    \<and> map_of (db_receipts s) (m_space row, id_principal i, key)
        \<in> {None, Some (sv_request sv (DeleteRequest m expected), rc)}"
proof -
  from run obtain row previous where row: "may_withdraw i m s row"
    and prev: "map_of (db_receipts s) (m_space row, id_principal i, key) =
       map_option (Pair (sv_request sv (DeleteRequest m expected))) previous"
    and r: "forget_row w sv i m expected key row previous s = Inr (rc, t)"
    unfolding forget_with_Inr by blast
  have "map_of (db_receipts t) (m_space row, id_principal i, key) = Some (sv_request sv (DeleteRequest m expected), rc)
    \<and> (previous = None \<or> previous = Some rc)"
  proof (cases previous)
    case None
    with r show ?thesis
      by (cases "m_deleted_at row")
        (auto simp: forget_row_def forget_again_def forget_live_def tx_runs remember_receipt_Inr split: option.splits)
  next
    case (Some p)
    with r prev show ?thesis by (auto simp: forget_row_def elim!: replay_previous_run)
  qed
  with row prev show ?thesis by auto
qed

text \<open>The same request finds the state that its first run left as permissive as it was.\<close>

lemma save_again:
  assumes run: "save_in_transaction sv i space c key s = Inr (rc, t)" and acc: "access_view t = access_view s"
  shows "\<exists>cb. save_in_transaction sv i space c key (t\<lparr>db_callbacks := x\<rparr>) = Inr (rc, t\<lparr>db_callbacks := cb\<rparr>)"
proof -
  obtain cb where "replay_previous sv rc (t\<lparr>db_callbacks := x\<rparr>) = Inr (rc, t\<lparr>db_callbacks := cb\<rparr>)"
    using replay_at [of sv rc "t\<lparr>db_callbacks := x\<rparr>"] by auto
  with run save_slot(1) [OF run] have "save_in_transaction sv i space c key (t\<lparr>db_callbacks := x\<rparr>) = Inr (rc, t\<lparr>db_callbacks := cb\<rparr>)"
    by (simp add: save_in_transaction_Inr access_view_eq [OF acc])
  then show ?thesis by blast
qed

lemma revise_row:
  assumes run: "revise_in_transaction sv i m c key preserve s = Inr (rc, t)"
    and row: "map_of (db_memories s) m = Some row"
  shows "\<exists>row'. map_of (db_memories t) m = Some row' \<and> m_space row' = m_space row
    \<and> m_review row' = m_review row \<and> m_deleted_at row' = m_deleted_at row"
proof -
  have locked: "\<exists>row'. map_of (db_memories t) m = Some row' \<and> m_space row' = m_space row
      \<and> m_review row' = m_review row \<and> m_deleted_at row' = m_deleted_at row"
    if "revise_locked sv i space m c slot preserve rv s = Inr (rc, t)" for space slot rv
  proof -
    from that obtain cmd row' ev where r: "select_memory i m s = Some row'"
      and a: "revise_apply sv i m cmd row' ev (ri_reason c) slot s = Inr (rc, t)"
      by (auto simp: revise_locked_Inr memory_row_Inr)
    from r row have [simp]: "row' = row" by (auto dest: select_memory_Some)
    from a show ?thesis by (cases rule: revise_apply_run) (simp add: wrote_core(2) row)
  qed
  from run obtain space rv where k: "revise_keyed sv i space m c key preserve rv s = Inr (rc, t)"
    unfolding revise_in_transaction_Inr by blast
  show ?thesis
  proof (cases key)
    case None
    with k locked show ?thesis by (simp add: revise_keyed_def)
  next
    case (Some x)
    with k locked row show ?thesis
      by (cases "map_of (db_receipts s) (space, id_principal i, x)")
        (auto simp: revise_keyed_Inr elim!: replay_previous_run)
  qed
qed

lemma revise_again:
  assumes run: "revise_in_transaction sv i m c (Some key) preserve s = Inr (rc, t)"
    and acc: "access_view t = access_view s"
  shows "\<exists>cb. revise_in_transaction sv i m c (Some key) preserve (t\<lparr>db_callbacks := x\<rparr>) = Inr (rc, t\<lparr>db_callbacks := cb\<rparr>)"
proof -
  obtain cb where re: "replay_previous sv rc (t\<lparr>db_callbacks := x\<rparr>) = Inr (rc, t\<lparr>db_callbacks := cb\<rparr>)"
    using replay_at [of sv rc "t\<lparr>db_callbacks := x\<rparr>"] by auto
  from run obtain row where row: "memory_row i m (reviewer_of i m s) s = Inr (row, s)"
    and ok: "authorized s (id_principal i) (m_space row) 10" "authorized s (id_principal i) (m_space row) 20"
      "map_of (db_fences s) (m_space row) = None"
    and k: "revise_keyed sv i (m_space row) m c (Some key) preserve (reviewer_of i m s) s = Inr (rc, t)"
    unfolding revise_in_transaction_Inr by blast
  from row have sel: "select_memory i m s = Some row" and live: "m_deleted_at row = None" by (auto simp: memory_row_Inr)
  from sel have mem: "map_of (db_memories s) m = Some row" by (rule select_memory_Some)
  from revise_row [OF run mem] obtain row' where r': "map_of (db_memories t) m = Some row'"
    "m_space row' = m_space row" "m_review row' = m_review row" "m_deleted_at row' = None"
    using live by auto
  have sel': "select_memory i m t = Some row'"
    using sel mem r' by (simp add: select_memory_def access_view_eq [OF acc] split: if_splits)
  have rev: "reviewer_of i m (t\<lparr>db_callbacks := x\<rparr>) = reviewer_of i m s"
    using sel sel' r' by (simp add: reviewer_of_def access_view_eq [OF acc])
  have row2: "memory_row i m (reviewer_of i m s) (t\<lparr>db_callbacks := x\<rparr>) = Inr (row', t\<lparr>db_callbacks := x\<rparr>)"
    using row sel' r' by (simp add: memory_row_Inr access_view_eq [OF acc])
  from revise_slot [OF run] mem have "map_of (db_receipts t) (m_space row, id_principal i, key)
      = Some (sv_request sv (ReviseRequest m c preserve), rc)" by auto
  moreover have "key_ok key" using k by (simp add: revise_keyed_Inr)
  ultimately have "revise_in_transaction sv i m c (Some key) preserve (t\<lparr>db_callbacks := x\<rparr>) = Inr (rc, t\<lparr>db_callbacks := cb\<rparr>)"
    using row2 ok re r'(2) by (auto simp: revise_in_transaction_Inr revise_keyed_Inr rev access_view_eq [OF acc])
  then show ?thesis by blast
qed

section \<open>Repeating a deletion\<close>

text \<open>Forgetting changes no review state and no author, neither of the memory nor of another.\<close>

definition standing :: "db \<Rightarrow> uuid \<Rightarrow> (review_state \<times> uuid \<times> uuid) option" where
  "standing s m = map_option (\<lambda>r. (m_review r, m_created_by r, m_space r)) (map_of (db_memories s) m)"

lemma forget_record_standing: "stays (same standing) (forget_record sv i m row)"
  by (auto simp: stays_def standing_def fun_eq_iff forgot_core(2) deleted_row_def option.map_comp comp_def
      elim!: forget_record_run intro!: option.map_cong0)

text \<open>A part of the database that neither a deletion nor a receipt touches is kept by the whole command.\<close>

definition untouched :: "(db \<Rightarrow> 'p) \<Rightarrow> bool" where
  "untouched f \<longleftrightarrow> (\<forall>s x y. f (s\<lparr>db_receipts := x\<rparr>) = f s \<and> f (s\<lparr>db_callbacks := y\<rparr>) = f s)
     \<and> (\<forall>sv i m row. stays (same f) (forget_record sv i m row))"

lemma forget_with_keeps:
  assumes f: "untouched f" and w: "\<And>m. stays (same f) (w m)"
  shows "stays (same f) (forget_with w sv i m e key)"
proof
  fix s a t assume "forget_with w sv i m e key s = Inr (a, t)"
  then obtain row previous where "forget_row w sv i m e key row previous s = Inr (a, t)"
    unfolding forget_with_Inr by blast
  moreover have "stays (same f) (forget_row w sv i m e key row previous)"
  proof -
    have rem: "stays (same f) (remember_receipt i space key d x)" for space d x
      using f by (auto simp: stays_def untouched_def remember_receipt_Inr)
    have "stays (same f) (forget_again i m key d row)" for d
      unfolding forget_again_def by (intro kept_part.kept_bind kept_part.kept_read stays_option stays_raise rem)
    moreover have "stays (same f) (forget_live w sv i m e key d row)" for d
      unfolding forget_live_def require_version_def using f
      by (intro kept_part.kept_bind kept_part.kept_then kept_part.kept_guard w rem) (auto simp: untouched_def)
    moreover have "stays (same f) (replay_previous sv r)" for r
      using f by (auto simp: stays_def untouched_def elim!: replay_previous_run)
    ultimately show ?thesis unfolding forget_row_def by (intro stays_option stays_if) auto
  qed
  ultimately show "same f s t" by (rule staysD [rotated])
qed

lemma forget_siblings_keeps:
  assumes "untouched f"
  shows "stays (same f) (forget_siblings sv i fk m)"
proof -
  have "stays (same f) (forget_sibling sv i m fk k)" for m k
    unfolding forget_sibling_def forget_plain_def
    by (intro kept_part.kept_bind kept_part.kept_read stays_option stays_if kept_part.kept_return
        forget_with_keeps assms)
  then show ?thesis unfolding forget_siblings_def
    by (intro kept_part.kept_bind kept_part.kept_then kept_part.kept_read stays_option kept_part.kept_return kept_part.kept_each)
qed

lemma forget_keeps: "untouched f \<Longrightarrow> stays (same f) (forget_in_transaction sv i fk m e key)"
  unfolding forget_in_transaction_def by (intro forget_with_keeps forget_siblings_keeps)

lemma untouched_standing: "untouched standing"
  using forget_record_standing by (auto simp: untouched_def standing_def fun_eq_iff)

lemma untouched_revisions: "untouched db_revisions"
  by (auto simp: untouched_def stays_def forgot_core(3) elim!: forget_record_run)

lemmas forget_with_standing = forget_with_keeps [OF untouched_standing]
lemmas forget_siblings_standing = forget_siblings_keeps [OF untouched_standing]

lemma may_withdraw_eq:
  assumes "access_view t = access_view s" "db_memories t = db_memories s" "db_deletions t = db_deletions s"
    "db_revisions t = db_revisions s"
  shows "may_withdraw i m t row = may_withdraw i m s row"
  using assms by (simp add: may_withdraw_def withdrawal_allowed_def access_view_eq [OF assms(1)]
      select_memory_eq [OF assms(1,2)] cong: option.case_cong if_cong)

lemma may_withdraw_callbacks [simp]: "may_withdraw i m (s\<lparr>db_callbacks := x\<rparr>) row = may_withdraw i m s row"
  by (rule may_withdraw_eq) simp_all

lemma may_withdraw_after:
  assumes wf: "wf s" and run: "forget_with (forget_siblings sv i fk) sv i m expected key s = Inr (rc, t)"
    and row: "may_withdraw i m s row"
  shows "\<exists>row'. may_withdraw i m t row' \<and> m_space row' = m_space row"
proof -
  let ?w = "forget_siblings sv i fk"
  have safe: "wf t" "evolves s t"
    using forget_safe wf run unfolding forget_in_transaction_def stays_def safe_def by blast+
  then have acc: "access_view t = access_view s" by (simp add: evolves_def)
  from run obtain previous where prev: "map_of (db_receipts s) (m_space row, id_principal i, key) =
       map_option (Pair (sv_request sv (DeleteRequest m expected))) previous"
    and r: "forget_row ?w sv i m expected key row previous s = Inr (rc, t)"
    using row unfolding forget_with_Inr may_withdraw_def by auto
  show ?thesis
  proof (cases "previous = None \<and> m_deleted_at row = None")
    case False
    then have "db_memories t = db_memories s \<and> db_deletions t = db_deletions s \<and> db_revisions t = db_revisions s"
      using r by (cases previous) (auto simp: forget_row_def forget_again_def tx_runs remember_receipt_Inr
          split: option.splits elim!: replay_previous_run)
    with acc row may_withdraw_eq show ?thesis by blast
  next
    case True
    with r obtain cf s1 rc0 s2 x where 1: "?w m s = Inr (cf, s1)" and 2: "forget_record sv i m row s1 = Inr (rc0, s2)"
      and t: "t = s2\<lparr>db_receipts := x\<rparr>"
      by (clarsimp simp: forget_row_def forget_live_def tx_runs require_version_def remember_receipt_Inr)
    from 2 obtain d where d: "map_of (db_deletions t) m = Some d" "d_requested_by d = id_principal i"
      by (auto simp: t forgot_core(6) elim!: forget_record_run)
    from deletion_iff [OF safe(1), of m] d obtain row' where r': "map_of (db_memories t) m = Some row'" "m_deleted_at row' \<noteq> None"
      by auto
    from row have mem: "map_of (db_memories s) m = Some row"
      unfolding may_withdraw_def by (blast dest: select_memory_Some)
    have "standing t = standing s"
      using staysD [OF forget_with_standing run] forget_siblings_standing by blast
    then have "standing t m = standing s m" by (rule fun_cong)
    then have st: "m_review row' = m_review row" "m_created_by row' = m_created_by row" "m_space row' = m_space row"
      by (simp_all add: standing_def r'(1) mem)
    have "select_memory i m t = Some row'"
      using row r' st by (simp add: may_withdraw_def select_memory_def access_view_eq [OF acc] split: option.splits if_splits)
    with row r' d st have "may_withdraw i m t row'"
      by (auto simp: may_withdraw_def withdrawal_allowed_def access_view_eq [OF acc])
    with st show ?thesis by blast
  qed
qed

lemma forget_again_same:
  assumes wf: "wf s" and run: "forget_in_transaction sv i fk m expected key s = Inr (rc, t)"
  shows "\<exists>cb. forget_in_transaction sv i fk m expected key (t\<lparr>db_callbacks := x\<rparr>) = Inr (rc, t\<lparr>db_callbacks := cb\<rparr>)"
proof -
  let ?w = "forget_siblings sv i fk"
  have acc: "access_view t = access_view s"
    using forget_safe wf run unfolding stays_def safe_def evolves_def by blast
  note run = run [unfolded forget_in_transaction_def]
  from forget_with_slot [OF run] obtain row where row: "may_withdraw i m s row"
    and slot: "map_of (db_receipts t) (m_space row, id_principal i, key) = Some (sv_request sv (DeleteRequest m expected), rc)"
    by blast
  from may_withdraw_after [OF wf run row] obtain row' where r': "may_withdraw i m t row'" "m_space row' = m_space row"
    by blast
  obtain cb where re: "replay_previous sv rc (t\<lparr>db_callbacks := x\<rparr>) = Inr (rc, t\<lparr>db_callbacks := cb\<rparr>)"
    using replay_at [of sv rc "t\<lparr>db_callbacks := x\<rparr>"] by auto
  have "key_ok key" "identity_ok i s" "map_of (db_fences s) (m_space row) = None"
    using run row unfolding forget_with_Inr may_withdraw_def by auto
  with r' slot re have "forget_with ?w sv i m expected key (t\<lparr>db_callbacks := x\<rparr>) = Inr (rc, t\<lparr>db_callbacks := cb\<rparr>)"
    unfolding forget_with_Inr
    by (intro exI [of _ row'] exI [of _ "Some rc"]) (simp add: access_view_eq [OF acc] forget_row_def)
  then show ?thesis unfolding forget_in_transaction_def by blast
qed

lemma transaction_again:
  assumes run: "transaction i body s = Inr (rc, t)" and acc: "access_view t = access_view s"
    and again: "\<exists>cb. body (t\<lparr>db_callbacks := []\<rparr>) = Inr (rc, t\<lparr>db_callbacks := cb\<rparr>)"
  shows "\<exists>cb. transaction i body t = Inr (rc, t\<lparr>db_callbacks := cb\<rparr>)"
  using run again by (simp add: transaction_Inr access_view_eq [OF acc])

section \<open>What a retrying client sees\<close>

text \<open>
  C17. A repeated request is idempotent: when a save, a revision or a withdrawal has been answered,
  sending it again with the same key, by the same caller and over the resulting database, returns
  the very same receipt, and the database is unchanged but for the after-commit notifications.
\<close>

theorem repeated_request_same_receipt:
  assumes "wf s" and "keyed_call sv fk i c key s = Inr (rc, t)"
  shows "\<exists>cb. keyed_call sv fk i c key t = Inr (rc, t\<lparr>db_callbacks := cb\<rparr>)"
proof -
  have acc: "access_view t = access_view s"
    using staysD [OF keyed_call_safe assms(2)] assms(1) by (simp add: safe_def evolves_def)
  have wf0: "wf (s\<lparr>db_callbacks := []\<rparr>)" and acc0: "access_view t = access_view (s\<lparr>db_callbacks := []\<rparr>)"
    using assms(1) acc by simp_all
  show ?thesis
  proof (cases c)
    case (SaveCommand space cmd)
    with assms(2) have "transaction i (save_in_transaction sv i space cmd key) s = Inr (rc, t)" by (simp add: save_def)
    note run = this this [unfolded transaction_Inr]
    from transaction_again [OF run(1) acc] save_again [OF conjunct2 [OF run(2)] acc0] SaveCommand
    show ?thesis by (simp add: save_def)
  next
    case (ReviseCommand m cmd)
    with assms(2) have "transaction i (revise_in_transaction sv i m cmd (Some key) False) s = Inr (rc, t)"
      by (simp add: revise_def)
    note run = this this [unfolded transaction_Inr]
    from transaction_again [OF run(1) acc] revise_again [OF conjunct2 [OF run(2)] acc0] ReviseCommand
    show ?thesis by (simp add: revise_def)
  next
    case (ForgetCommand m e)
    with assms(2) have "transaction i (forget_in_transaction sv i fk m e key) s = Inr (rc, t)"
      by (simp add: forget_def)
    note run = this this [unfolded transaction_Inr]
    from transaction_again [OF run(1) acc] forget_again_same [OF wf0 conjunct2 [OF run(2)]] ForgetCommand
    show ?thesis by (simp add: forget_def)
  qed
qed

theorem repeated_request_same_receipt_witness:
  "\<exists>rc t cb. keyed_call demo_sv demo_fk alice (SaveCommand 7 demo_input) ''k1'' demo_db = Inr (rc, t)
     \<and> keyed_call demo_sv demo_fk alice (SaveCommand 7 demo_input) ''k1'' t = Inr (rc, t\<lparr>db_callbacks := cb\<rparr>)"
proof -
  obtain rc t where r: "keyed_call demo_sv demo_fk alice (SaveCommand 7 demo_input) ''k1'' demo_db = Inr (rc, t)"
    using saved_run by auto
  from repeated_request_same_receipt [OF demo_wf r] r show ?thesis by blast
qed

text \<open>
  A key answers one request for ever: a keyed call commits only when its key is unused or already
  holds the receipt of this very request, and afterwards the key holds this request's digest with
  the returned receipt.
\<close>

theorem key_answers_one_request:
  assumes "wf s" and "keyed_call sv fk i c key s = Inr (rc, t)"
  shows "slot_of t i c key = Some (sv_request sv (command_request c), rc)
    \<and> slot_of s i c key \<in> {None, Some (sv_request sv (command_request c), rc)}"
proof -
  have keep: "\<exists>row'. map_of (db_memories t) m = Some row' \<and> m_space row' = m_space row"
    if "map_of (db_memories s) m = Some row" for m row
    using staysD [OF keyed_call_safe assms(2)] assms(1) that
    by (auto simp: safe_def row_evolves_def dest!: evolves_memory)
  show ?thesis
  proof (cases c)
    case (SaveCommand space cmd)
    with assms(2) show ?thesis
      using save_slot [of sv i space cmd key "s\<lparr>db_callbacks := []\<rparr>" rc t]
      by (simp add: save_def transaction_Inr slot_of_def)
  next
    case (ReviseCommand m cmd)
    with assms(2) obtain row where "map_of (db_memories s) m = Some row"
      and "map_of (db_receipts t) (m_space row, id_principal i, key) = Some (sv_request sv (ReviseRequest m cmd False), rc)"
      and "map_of (db_receipts s) (m_space row, id_principal i, key)
        \<in> {None, Some (sv_request sv (ReviseRequest m cmd False), rc)}"
      using revise_slot [of sv i m cmd key False "s\<lparr>db_callbacks := []\<rparr>" rc t]
      by (auto simp: revise_def transaction_Inr)
    with keep ReviseCommand show ?thesis by (fastforce simp: slot_of_def)
  next
    case (ForgetCommand m e)
    with assms(2) obtain row where "map_of (db_memories s) m = Some row"
      and "map_of (db_receipts t) (m_space row, id_principal i, key) = Some (sv_request sv (DeleteRequest m e), rc)"
      and "map_of (db_receipts s) (m_space row, id_principal i, key)
        \<in> {None, Some (sv_request sv (DeleteRequest m e), rc)}"
      using forget_with_slot [of "forget_siblings sv i fk" sv i m e key "s\<lparr>db_callbacks := []\<rparr>" rc t]
      by (fastforce simp: forget_def forget_in_transaction_def transaction_Inr may_withdraw_def dest: select_memory_Some)
    with keep ForgetCommand show ?thesis by (fastforce simp: slot_of_def)
  qed
qed

theorem key_answers_one_request_witness:
  "\<exists>rc t. keyed_call demo_sv demo_fk alice (SaveCommand 7 demo_input) ''k1'' demo_db = Inr (rc, t)
     \<and> slot_of t alice (SaveCommand 7 demo_input) ''k1'' = Some (''itea'', rc)"
proof -
  obtain rc t where r: "keyed_call demo_sv demo_fk alice (SaveCommand 7 demo_input) ''k1'' demo_db = Inr (rc, t)"
    using saved_run by auto
  from key_answers_one_request [OF demo_wf r] r show ?thesis by (auto simp: demo_sv_def demo_input_def)
qed

end
