(* ===== verification/Memory_Properties.thy ===== *)
theory Memory_Properties
  imports Memory_Commands
begin

text \<open>
  What a caller of the memory service may rely on, operation by operation: conflicts on reused keys
  and stale versions, the effect of a revision and of a deletion, who may write and who may
  withdraw, the deletion of a whole capture family, the version chain of core blocks.
\<close>

section \<open>Conflicts\<close>

text \<open>
  C5. Reusing a key for a different save is refused with 409 \<open>idempotency_conflict\<close>, for every caller
  who could otherwise write, and nothing is stored.
\<close>

theorem reused_key_conflicts:
  assumes "identity_ok i s" "authorized s (id_principal i) space 20" "map_of (db_fences s) space = None"
    and "in_claim c = Observed \<or> authorized s (id_principal i) space 30" and "key_ok key"
    and "map_of (db_receipts s) (space, id_principal i, key) = Some (d, r)" and "d \<noteq> sv_request sv (IngestRequest c)"
  shows "save sv i space c key s = Inl (ServiceError 409 ''idempotency_conflict'')"
proof -
  have a: "authorized s (id_principal i) space 10" using assms(2) by (rule authorized_mono) simp
  have claim: "(if in_claim c \<noteq> Observed then require_space i space 30 False else tx_return ()) (s\<lparr>db_callbacks := []\<rparr>)
      = Inr ((), s\<lparr>db_callbacks := []\<rparr>)"
    using assms(4) a by auto
  show ?thesis
    using assms a claim
    by (simp add: save_def save_in_transaction_def transaction_def check_identity_def Let_def idempotency_def)
qed

theorem reused_key_conflicts_witness:
  "save demo_sv alice 7 demo_input ''k1'' (demo_db\<lparr>db_receipts := [((7, 2, ''k1''), (''imate'', demo_receipt))]\<rparr>)
     = Inl (ServiceError 409 ''idempotency_conflict'')"
  by (rule reused_key_conflicts) (simp_all add: demo_defs run_defs, code_simp)

section \<open>Revisions\<close>

text \<open>
  C18. A revision that commits under a fresh key was made against the current version: the version it
  expected is the stored one, the memory is now at the next version with the new content as its
  current revision, and every earlier revision is still there unchanged.
\<close>

theorem revision_advances_by_one:
  assumes wf: "wf s" and run: "revise sv i m c key s = Inr (rc, t)"
    and fresh_key: "slot_of s i (ReviseCommand m c) key = None"
  shows "\<exists>row row' rid r. map_of (db_memories s) m = Some row \<and> m_version row = ri_expected c
    \<and> map_of (db_memories t) m = Some row' \<and> m_version row' = ri_expected c + 1 \<and> m_current row' = Some rid
    \<and> map_of (db_revisions s) rid = None \<and> map_of (db_revisions t) rid = Some r
    \<and> r_memory r = m \<and> r_version r = ri_expected c + 1 \<and> r_content r = ri_content c
    \<and> map_of (db_revisions s) \<subseteq>\<^sub>m map_of (db_revisions t)
    \<and> rc_version rc = ri_expected c + 1 \<and> rc_revision rc = Some rid"
proof -
  let ?s = "s\<lparr>db_callbacks := []\<rparr>"
  have wf0: "wf ?s" using wf by simp
  from run have r: "revise_in_transaction sv i m c (Some key) False ?s = Inr (rc, t)"
    by (simp add: revise_def transaction_Inr)
  then obtain row where sel: "select_memory i m s = Some row"
    and k: "revise_keyed sv i (m_space row) m c (Some key) False (reviewer_of i m ?s) ?s = Inr (rc, t)"
    unfolding revise_in_transaction_Inr by (auto simp: memory_row_Inr)
  from sel have mem: "map_of (db_memories s) m = Some row" by (rule select_memory_Some)
  have "map_of (db_receipts s) (m_space row, id_principal i, key) = None"
    using fresh_key by (simp add: slot_of_def mem)
  with k have "revise_locked sv i (m_space row) m c (Some (key, sv_request sv (ReviseRequest m c False))) False
      (reviewer_of i m ?s) ?s = Inr (rc, t)"
    by (simp add: revise_keyed_Inr)
  then obtain row2 current where "memory_row i m (reviewer_of i m ?s) ?s = Inr (row2, ?s)"
    and v: "m_version row2 = ri_expected c"
    and a: "revise_apply sv i m (merged current c) row2 None (ri_reason c)
        (Some (key, sv_request sv (ReviseRequest m c False))) ?s = Inr (rc, t)"
    unfolding revise_locked_Inr by auto
  then have [simp]: "row2 = row" by (simp add: memory_row_Inr sel)
  have content: "in_content (merged current c) = ri_content c" by (simp add: merged_def)
  have "map_of (db_revisions s) \<subseteq>\<^sub>m map_of (db_revisions t)"
    using staysD [OF revise_safe r] wf0 by (simp add: safe_def evolves_def)
  with a show ?thesis
  proof (cases rule: revise_apply_run)
    case (1 rid r so sr ops jobs now rcs)
    have "map_of (db_revisions s) rid = None"
      using wf wrote_core(8) [OF 1(1)]
      by (force simp: wf_def wf_keys_def keys_below_def allocated_def map_of_eq_None_iff)
    with 1 v content mem \<open>map_of (db_revisions s) \<subseteq>\<^sub>m map_of (db_revisions t)\<close> show ?thesis
      by (simp add: wrote_core(2,3))
  qed
qed

theorem revision_advances_by_one_witness:
  "\<exists>t rc u row. revise demo_sv alice 50 demo_revision ''k2'' t = Inr (rc, u)
     \<and> map_of (db_memories u) 50 = Some row \<and> m_version row = 2"
proof -
  obtain rc t rc' u where s: "keyed_call demo_sv demo_fk alice (SaveCommand 7 demo_input) ''k1'' demo_db = Inr (rc, t)"
    and r: "revise demo_sv alice 50 demo_revision ''k2'' t = Inr (rc', u)"
    using revised_run by auto
  have "wf t" using staysD [OF keyed_call_safe s] demo_wf by (simp add: safe_def)
  moreover have "map_of (db_receipts t) (m, 2, ''k2'') = None" for m
    using s by (auto simp: demo_defs run_defs save_defs Let_def split: if_splits)
  then have "slot_of t alice (ReviseCommand 50 demo_revision) ''k2'' = None"
    by (simp add: slot_of_def alice_def split: option.splits)
  ultimately obtain row where "map_of (db_memories u) 50 = Some row" "m_version row = 2"
    using revision_advances_by_one [OF _ r] by (auto simp: demo_revision_def)
  with r show ?thesis by blast
qed

text \<open>
  C6. A revision made against any other version than the stored one is refused with 409
  \<open>version_conflict\<close>, if it comes from a live caller who sees the memory and may write to its space,
  under a fresh key, while no fence is on the space.
\<close>

theorem stale_revision_conflicts:
  assumes "identity_ok i s" "memory_row i m (reviewer_of i m s) s = Inr (row, s)"
    and "authorized s (id_principal i) (m_space row) 20" "map_of (db_fences s) (m_space row) = None" "key_ok key"
    and "map_of (db_receipts s) (m_space row, id_principal i, key) = None" and "m_version row \<noteq> ri_expected c"
  shows "revise sv i m c key s = Inl version_conflict"
proof -
  let ?s = "s\<lparr>db_callbacks := []\<rparr>"
  have rev: "reviewer_of i m ?s = reviewer_of i m s" by (simp add: reviewer_of_def split: option.split)
  have row: "memory_row i m (reviewer_of i m s) ?s = Inr (row, ?s)"
    using assms(2) by (simp add: memory_row_Inr)
  then have "authorized s (id_principal i) (m_space row) 10" by (simp add: memory_row_Inr)
  with assms(3,4) have "require_space i (m_space row) 20 True ?s = Inr ((), ?s)" by simp
  with row assms show ?thesis
    by (simp add: revise_def transaction_def check_identity_def revise_in_transaction_def rev revise_keyed_def Let_def
        idempotency_def revise_locked_def require_version_def)
qed

theorem stale_revision_conflicts_witness:
  "\<exists>t. revise demo_sv alice 50 (demo_revision\<lparr>ri_expected := 4\<rparr>) ''k2'' t = Inl version_conflict"
proof -
  obtain rc t where s: "save demo_sv alice 7 demo_input ''k1'' demo_db = Inr (rc, t)"
    using saved_run by auto
  have "revise demo_sv alice 50 (demo_revision\<lparr>ri_expected := 4\<rparr>) ''k2'' t = Inl version_conflict"
  proof (rule stale_revision_conflicts)
    show "memory_row alice 50 (reviewer_of alice 50 t) t = Inr (the (map_of (db_memories t) 50), t)"
      "identity_ok alice t" "key_ok ''k2''"
      "authorized t (id_principal alice) (m_space (the (map_of (db_memories t) 50))) 20"
      "map_of (db_fences t) (m_space (the (map_of (db_memories t) 50))) = None"
      "map_of (db_receipts t) (m_space (the (map_of (db_memories t) 50)), id_principal alice, ''k2'') = None"
      "m_version (the (map_of (db_memories t) 50)) \<noteq> ri_expected (demo_revision\<lparr>ri_expected := 4\<rparr>)"
      using s by (auto simp: demo_defs run_defs save_defs revise_defs Let_def)
  qed
  then show ?thesis by blast
qed

section \<open>Deletion\<close>

lemma slot_free:
  "slot_of s i (ForgetCommand m e) key = None \<Longrightarrow> map_of (db_memories s) m = Some row \<Longrightarrow>
   map_of (db_receipts s) (m_space row, id_principal i, key) = None"
  by (simp add: slot_of_def)

lemma forget_deletes:
  assumes wf: "wf s" and run: "forget_with w sv i m expected key s = Inr (rc, t)" and w: "stays safe (w m)"
    and fresh_key: "\<And>row. map_of (db_memories s) m = Some row \<Longrightarrow>
       map_of (db_receipts s) (m_space row, id_principal i, key) = None"
  shows "rc_deleted rc \<and> map_of (db_deletions t) m \<noteq> None"
proof -
  from run obtain row previous where row: "map_of (db_memories s) m = Some row"
    and prev: "map_of (db_receipts s) (m_space row, id_principal i, key) =
       map_option (Pair (sv_request sv (DeleteRequest m expected))) previous"
    and r: "forget_row w sv i m expected key row previous s = Inr (rc, t)"
    unfolding forget_with_Inr may_withdraw_def by (blast dest: select_memory_Some)
  have none: "previous = None" using fresh_key [OF row] prev by simp
  show ?thesis
  proof (cases "m_deleted_at row")
    case None
    with r none obtain cf s1 rc0 s2 x where "forget_record sv i m row s1 = Inr (rc0, s2)"
      and t: "t = s2\<lparr>db_receipts := x\<rparr>" and rc: "rc = rc0\<lparr>rc_capture := cf\<rparr>"
      by (clarsimp simp: forget_row_def forget_live_def tx_runs require_version_def remember_receipt_Inr)
    then show ?thesis by (auto simp: forgot_core(6) elim!: forget_record_run)
  next
    case (Some x)
    with r none have "deleted_receipt m row s = Some rc" "db_deletions t = db_deletions s"
      by (auto simp: forget_row_def forget_again_def tx_runs remember_receipt_Inr split: option.splits)
    then show ?thesis by (auto simp: deleted_receipt_def split: option.splits)
  qed
qed

text \<open>
  C4. A withdrawal that commits under a fresh key is a denial that takes effect at once: the memory is
  marked deleted, it is on the denial list, no reader or reviewer can fetch it any more, and none of
  its jobs is left alive except its own purge.
\<close>

theorem forget_is_denial:
  assumes wf: "wf s" and run: "forget sv i fk m expected key s = Inr (rc, t)"
    and fresh_key: "slot_of s i (ForgetCommand m expected) key = None"
  shows "rc_deleted rc \<and> (\<exists>row. map_of (db_memories t) m = Some row \<and> m_deleted_at row \<noteq> None)
    \<and> map_of (db_denials t) m \<noteq> None
    \<and> (\<forall>reader review. memory_row reader m review t = Inl not_found)
    \<and> (\<forall>k j. map_of (db_jobs t) k = Some j \<and> job_of t m j \<and> live_job (j_state j) \<longrightarrow> j_kind j = Purge)"
proof -
  let ?s = "s\<lparr>db_callbacks := []\<rparr>"
  from run have r: "forget_with (forget_siblings sv i fk) sv i m expected key ?s = Inr (rc, t)"
    by (simp add: forget_def forget_in_transaction_def transaction_Inr)
  have wft: "wf t" using staysD [OF keyed_call_safe, of sv fk i "ForgetCommand m expected"] run wf
    by (auto simp: safe_def)
  have d: "rc_deleted rc" "map_of (db_deletions t) m \<noteq> None"
    using forget_deletes [OF _ r forget_siblings_safe] wf slot_free [OF fresh_key] by simp_all
  from deletion_iff [OF wft] d obtain row where row: "map_of (db_memories t) m = Some row" "m_deleted_at row \<noteq> None"
    by blast
  have "memory_row reader m review t = Inl not_found" for reader review
    using row by (auto simp: memory_row_def tx_bind_at select_memory_def)
  moreover have "j_kind j = Purge" if "map_of (db_jobs t) k = Some j" "job_of t m j" "live_job (j_state j)" for k j
    using job_owner [OF wft that(1)] that row by (auto simp: job_of_def)
  ultimately show ?thesis using d row deletion_denied [OF wft d(2)] by blast
qed

theorem forget_is_denial_witness:
  "\<exists>t rc u. forget demo_sv alice demo_fk 50 1 ''k3'' t = Inr (rc, u) \<and> map_of (db_denials u) 50 \<noteq> None
     \<and> memory_row rita 50 True u = Inl not_found"
proof -
  obtain rc t rc' u where s: "keyed_call demo_sv demo_fk alice (SaveCommand 7 demo_input) ''k1'' demo_db = Inr (rc, t)"
    and r: "forget demo_sv alice demo_fk 50 1 ''k3'' t = Inr (rc', u)"
    using forgotten_run by auto
  have wf: "wf t" using staysD [OF keyed_call_safe s] demo_wf by (simp add: safe_def)
  have "map_of (db_receipts t) (m, 2, ''k3'') = None" for m
    using s by (auto simp: demo_defs run_defs save_defs Let_def split: if_splits)
  then have "slot_of t alice (ForgetCommand 50 1) ''k3'' = None"
    by (simp add: slot_of_def alice_def split: option.splits)
  from forget_is_denial [OF wf r this] r show ?thesis by blast
qed

section \<open>The capture family\<close>

lemma deleted_not_retained: "wf s \<Longrightarrow> map_of (db_deletions s) m \<noteq> None \<Longrightarrow> \<not> retained s m"
  using deletion_iff [of s m] by (auto simp: retained_def)

lemma not_retained_later:
  assumes "evolves s t" "standing t = standing s" "\<not> retained s k"
  shows "\<not> retained t k"
proof (cases "map_of (db_memories s) k")
  case None
  with fun_cong [OF assms(2), of k] show ?thesis by (simp add: standing_def retained_def)
next
  case (Some r)
  with assms evolves_memory [OF assms(1) Some] show ?thesis
    by (auto simp: retained_def row_evolves_def)
qed

lemma forget_plain_receipts:
  assumes run: "forget_plain sv i k e key s = Inr (rc, t)"
    and free: "map_of (db_receipts s) (space, p, key') = None" and other: "key' \<noteq> key"
  shows "map_of (db_receipts t) (space, p, key') = None"
proof -
  from run obtain row :: memory and previous where
    r: "forget_row (\<lambda>m. tx_return None) sv i k e key row previous s = Inr (rc, t)"
    unfolding forget_plain_def forget_with_Inr by blast
  show ?thesis
  proof (cases "previous = None \<and> m_deleted_at row = None")
    case True
    with r obtain rc0 s2 d where f: "forget_record sv i k row s = Inr (rc0, s2)"
      and t: "t = s2\<lparr>db_receipts := ((m_space row, id_principal i, key), d) # db_receipts s2\<rparr>"
      by (clarsimp simp: forget_row_def forget_live_def tx_runs require_version_def remember_receipt_Inr)
    from f have "db_receipts s2 = db_receipts s" by (auto simp: forgot_core(10) elim!: forget_record_run)
    with free other t show ?thesis by simp
  next
    case False
    with r free other show ?thesis
      by (cases previous) (auto simp: forget_row_def forget_again_def tx_runs remember_receipt_Inr
          split: option.splits elim!: replay_previous_run)
  qed
qed

lemma forget_sibling_effect:
  assumes wf: "wf s" and run: "forget_sibling sv i m fk k s = Inr (u, t)"
    and keys: "\<And>space. map_of (db_receipts s) (space, id_principal i, fk m k) = None"
  shows "wf t \<and> evolves s t \<and> standing t = standing s \<and> \<not> retained t k
    \<and> (\<forall>space x. fk m x \<noteq> fk m k \<longrightarrow> map_of (db_receipts s) (space, id_principal i, fk m x) = None \<longrightarrow>
         map_of (db_receipts t) (space, id_principal i, fk m x) = None)"
proof (cases "retained s k")
  case False
  with run wf show ?thesis
    by (auto simp: forget_sibling_def tx_runs retained_def split: option.splits if_splits)
next
  case True
  then obtain row where "map_of (db_memories s) k = Some row" "m_deleted_at row = None"
    by (auto simp: retained_def split: option.splits)
  with run obtain rc where r: "forget_plain sv i k (m_version row) (fk m k) s = Inr (rc, t)"
    by (auto simp: forget_sibling_def tx_runs)
  have "wf t" "evolves s t" using staysD [OF forget_plain_safe r] wf by (simp_all add: safe_def)
  moreover have "standing t = standing s"
    by (rule staysD [OF forget_with_standing r [unfolded forget_plain_def]]) (rule kept_part.kept_return)
  moreover have "\<not> retained t k"
    using forget_deletes [OF wf r [unfolded forget_plain_def] safe.kept_return] keys \<open>wf t\<close> deleted_not_retained by blast
  ultimately show ?thesis using forget_plain_receipts [OF r] by blast
qed

lemma siblings_forgotten:
  assumes "wf s" "tx_each (forget_sibling sv i m fk) ks s = Inr (u, t)" "distinct ks"
    and "\<And>k k'. fk m k = fk m k' \<Longrightarrow> k = k'"
    and "\<And>k space. k \<in> set ks \<Longrightarrow> map_of (db_receipts s) (space, id_principal i, fk m k) = None"
  shows "wf t \<and> evolves s t \<and> standing t = standing s \<and> (\<forall>k\<in>set ks. \<not> retained t k)"
  using assms
proof (induction ks arbitrary: s)
  case Nil
  then show ?case by simp
next
  case (Cons k ks)
  from Cons.prems(2) obtain s1 where s1: "forget_sibling sv i m fk k s = Inr ((), s1)"
    and rest: "tx_each (forget_sibling sv i m fk) ks s1 = Inr (u, t)"
    by (auto simp: tx_runs)
  have e: "wf s1 \<and> evolves s s1 \<and> standing s1 = standing s \<and> \<not> retained s1 k
    \<and> (\<forall>space x. fk m x \<noteq> fk m k \<longrightarrow> map_of (db_receipts s) (space, id_principal i, fk m x) = None \<longrightarrow>
         map_of (db_receipts s1) (space, id_principal i, fk m x) = None)"
    using forget_sibling_effect [OF Cons.prems(1) s1] Cons.prems(5) by simp
  have "wf t \<and> evolves s1 t \<and> standing t = standing s1 \<and> (\<forall>k\<in>set ks. \<not> retained t k)"
  proof (rule Cons.IH [OF _ rest])
    show "map_of (db_receipts s1) (space, id_principal i, fk m x) = None" if "x \<in> set ks" for x space
      using e Cons.prems(3-5) that by (metis distinct.simps(2) list.set_intros(2))
  qed (use e Cons.prems in auto)
  with e show ?case by (auto intro: evolves_trans dest: not_retained_later)
qed

text \<open>
  C19. Withdrawing one member of a capture family withdraws the family: when the family keys are unused
  and distinct, every record that the same source captured under the same lineage is deleted in the
  same transaction.
\<close>

theorem forget_withdraws_family:
  assumes wf: "wf s" and run: "forget sv i fk m expected key s = Inr (rc, t)"
    and live: "retained s m" and fresh_key: "slot_of s i (ForgetCommand m expected) key = None"
    and keys: "\<And>k k'. fk m k = fk m k' \<Longrightarrow> k = k'"
      "\<And>k space. map_of (db_receipts s) (space, id_principal i, fk m k) = None"
    and family: "family m s = Some (lineage, ms)" and k: "k \<in> set ms"
  shows "\<not> retained t k"
proof -
  let ?s = "s\<lparr>db_callbacks := []\<rparr>"
  from run have r: "forget_with (forget_siblings sv i fk) sv i m expected key ?s = Inr (rc, t)"
    by (simp add: forget_def forget_in_transaction_def transaction_Inr)
  have wf0: "wf ?s" using wf by simp
  have m: "\<not> retained t m"
  proof -
    have "wf t" using staysD [OF forget_with_safe [OF forget_siblings_safe] r] wf0 by (simp add: safe_def)
    moreover have "map_of (db_deletions t) m \<noteq> None"
      using forget_deletes [OF wf0 r forget_siblings_safe] slot_free [OF fresh_key] by simp
    ultimately show ?thesis by (rule deleted_not_retained)
  qed
  from r obtain row where row: "map_of (db_memories s) m = Some row"
    and rr: "forget_row (forget_siblings sv i fk) sv i m expected key row None ?s = Inr (rc, t)"
    using fresh_key unfolding forget_with_Inr may_withdraw_def by (auto simp: slot_of_def dest!: select_memory_Some)
  from live row have "m_deleted_at row = None" by (simp add: retained_def)
  with rr obtain cf s1 rc0 s2 x where w: "forget_siblings sv i fk m ?s = Inr (cf, s1)"
    and f: "forget_record sv i m row s1 = Inr (rc0, s2)" and t: "t = s2\<lparr>db_receipts := x\<rparr>"
    by (clarsimp simp: forget_row_def forget_live_def tx_runs require_version_def remember_receipt_Inr)
  have fam: "family m ?s = Some (lineage, ms)" using family by (simp add: family_def cong: option.case_cong)
  then have "capture_preview_of m ?s \<noteq> None" by (simp add: capture_preview_of_def)
  with w obtain u where each: "tx_each (forget_sibling sv i m fk) (siblings m ?s) ?s = Inr (u, s1)"
    by (auto simp: forget_siblings_def tx_runs split: option.splits)
  have loop: "wf s1 \<and> evolves ?s s1 \<and> standing s1 = standing ?s \<and> (\<forall>k\<in>set (siblings m ?s). \<not> retained s1 k)"
    by (rule siblings_forgotten [OF wf0 each]) (use keys fam in \<open>auto simp: siblings_def\<close>)
  show ?thesis
  proof (cases "k = m")
    case True
    with m show ?thesis by simp
  next
    case False
    have gone: "\<not> retained s1 k"
    proof (cases "retained ?s k")
      case True
      with False k fam have "k \<in> set (siblings m ?s)" by (simp add: siblings_def)
      with loop show ?thesis by blast
    next
      case no: False
      with loop show ?thesis using not_retained_later by blast
    qed
    have "db_memories t = deleted_row s1 m" using f by (auto simp: t forgot_core(2) elim!: forget_record_run)
    with gone False show ?thesis by (auto simp: retained_def deleted_row_def split: option.splits)
  qed
qed

theorem forget_withdraws_family_witness:
  "\<exists>u rc v. forget demo_sv alice demo_fk 50 1 ''k3'' u = Inr (rc, v) \<and> \<not> retained v 57"
proof -
  obtain rc t rc' u rc2 v where s: "keyed_call demo_sv demo_fk alice (SaveCommand 7 demo_input) ''k1'' demo_db = Inr (rc, t)"
    and s2: "keyed_call demo_sv demo_fk alice (SaveCommand 7 demo_input) ''k4'' t = Inr (rc', u)"
    and f: "forget demo_sv alice demo_fk 50 1 ''k3'' (u\<lparr>db_capture_events := demo_family\<rparr>) = Inr (rc2, v)"
    and live: "retained u 50" and rcs: "list_all (\<lambda>((space, p, k), x). k = ''k1'' \<or> k = ''k4'') (db_receipts u)"
    using family_run by auto
  let ?u = "u\<lparr>db_capture_events := demo_family\<rparr>"
  have "wf t" using staysD [OF keyed_call_safe s] demo_wf by (simp add: safe_def)
  then have "wf u" using staysD [OF keyed_call_safe s2] by (simp add: safe_def)
  then have wf: "wf ?u" by (simp add: wf_core [of ?u u] core_def)
  have none: "map_of (db_receipts u) (space, p, k) = None" if "k \<noteq> ''k1''" "k \<noteq> ''k4''" for space p k
    using rcs that by (fastforce simp: list_all_iff map_of_eq_None_iff)
  show ?thesis
  proof (intro exI conjI)
    show "forget demo_sv alice demo_fk 50 1 ''k3'' ?u = Inr (rc2, v)" by (rule f)
    show "\<not> retained v 57"
    proof (rule forget_withdraws_family [OF wf f])
      show "family 50 ?u = Some (''mail'', [50, 57])" by (simp add: family_def demo_family_def)
      show "slot_of ?u alice (ForgetCommand 50 1) ''k3'' = None"
        by (simp add: slot_of_def none split: option.split)
    qed (use live none in \<open>auto simp: demo_fk_def retained_def replicate_eq_replicate\<close>)
  qed
qed

end
