(* ===== verification/Memory_Authority.thy ===== *)
theory Memory_Authority
  imports Memory_Properties
begin

text \<open>
  Who may do what: every committed write was authorised in an open space, a claim beyond observation
  needs a reviewer, an author withdraws only what is wholly theirs. The core blocks and their
  gapless history close the service.
\<close>

section \<open>Writers\<close>

text \<open>
  C20. Nothing is written without authority: a keyed call commits only for a live identity that holds
  the contributor level in the space of the command, while no fence pauses that space, and under a
  well-formed key.
\<close>

theorem writes_are_authorized:
  assumes "keyed_call sv fk i c key s = Inr (rc, t)"
  shows "\<exists>space. command_space s c = Some space \<and> identity_ok i s \<and> authorized s (id_principal i) space 20
    \<and> map_of (db_fences s) space = None \<and> key_ok key"
proof (cases c)
  case (SaveCommand space cmd)
  with assms show ?thesis
    by (cases "map_of (db_receipts s) (space, id_principal i, key)")
      (auto simp: save_def transaction_Inr save_in_transaction_Inr)
next
  case (ReviseCommand m cmd)
  with assms show ?thesis
    by (auto simp: revise_def transaction_Inr revise_in_transaction_Inr memory_row_Inr revise_keyed_Inr
        dest!: select_memory_Some)
next
  case (ForgetCommand m e)
  with assms show ?thesis
    by (auto simp: forget_def forget_in_transaction_def transaction_Inr forget_with_Inr may_withdraw_def
        dest!: select_memory_Some)
qed

theorem writes_are_authorized_witness:
  "\<exists>rc t. save demo_sv alice 7 demo_input ''k1'' demo_db = Inr (rc, t) \<and> authorized demo_db 2 7 20"
proof -
  obtain rc t where r: "keyed_call demo_sv demo_fk alice (SaveCommand 7 demo_input) ''k1'' demo_db = Inr (rc, t)"
    using saved_run by auto
  from writes_are_authorized [OF r] r show ?thesis by (auto simp: alice_def)
qed

text \<open>
  Claims need a reviewer: a revision that a keyed call adds with any other claim than "observed" was
  written by a principal with the reviewer level in its space.
\<close>

theorem claims_need_reviewer:
  assumes wf: "wf s" and run: "keyed_call sv fk i c key s = Inr (rc, t)"
    and r: "map_of (db_revisions t) k = Some r" "map_of (db_revisions s) k = None" "r_claim r \<noteq> Observed"
  shows "authorized s (id_principal i) (r_space r) 30 \<and> r_created_by r = id_principal i"
proof (cases c)
  case (SaveCommand space cmd)
  with run have sv: "save_in_transaction sv i space cmd key (s\<lparr>db_callbacks := []\<rparr>) = Inr (rc, t)"
    by (simp add: save_def transaction_Inr)
  show ?thesis
  proof (cases "map_of (db_receipts s) (space, id_principal i, key)")
    case None
    with sv have "save_new sv i space cmd key (sv_request sv (IngestRequest cmd)) (s\<lparr>db_callbacks := []\<rparr>) = Inr (rc, t)"
      and claim: "in_claim cmd \<noteq> Observed \<longrightarrow> authorized s (id_principal i) space 30"
      by (simp_all add: save_in_transaction_Inr)
    from this(1) show ?thesis
      by (cases rule: save_new_run) (use r claim in \<open>auto simp: wrote_core(3) split: if_splits\<close>)
  next
    case (Some p)
    with sv r show ?thesis by (auto simp: save_in_transaction_Inr elim!: replay_previous_run split: prod.splits)
  qed
next
  case (ReviseCommand m cmd)
  with run obtain row rv where sel: "select_memory i m s = Some row"
    and k: "revise_keyed sv i (m_space row) m cmd (Some key) False rv (s\<lparr>db_callbacks := []\<rparr>) = Inr (rc, t)"
    by (auto simp: revise_def transaction_Inr revise_in_transaction_Inr memory_row_Inr)
  show ?thesis
  proof (cases "map_of (db_receipts s) (m_space row, id_principal i, key)")
    case None
    with k obtain current slot where a: "revise_apply sv i m (merged current cmd) row None (ri_reason cmd) slot (s\<lparr>db_callbacks := []\<rparr>) = Inr (rc, t)"
      and claim: "in_claim (merged current cmd) \<noteq> Observed \<longrightarrow> authorized s (id_principal i) (m_space row) 30"
      unfolding revise_keyed_Inr revise_locked_Inr memory_row_Inr by (simp add: sel) metis
    from a show ?thesis
      by (cases rule: revise_apply_run) (use r claim in \<open>auto simp: wrote_core(3) split: if_splits\<close>)
  next
    case (Some p)
    with k r show ?thesis by (auto simp: revise_keyed_Inr elim!: replay_previous_run split: prod.splits)
  qed
next
  case (ForgetCommand m e)
  have "stays (same db_revisions) (forget_in_transaction sv i fk m e key)"
    by (rule forget_keeps [OF untouched_revisions])
  with ForgetCommand run have "db_revisions t = db_revisions s"
    by (auto simp: forget_def transaction_Inr dest!: staysD)
  with r show ?thesis by simp
qed

theorem claims_need_reviewer_witness:
  "\<exists>rc t k r. save demo_sv rita 7 (demo_input\<lparr>in_claim := Verified\<rparr>) ''k1'' demo_db = Inr (rc, t)
     \<and> map_of (db_revisions t) k = Some r \<and> r_claim r = Verified \<and> authorized demo_db 3 7 30"
proof -
  obtain rc t r where s: "keyed_call demo_sv demo_fk rita (SaveCommand 7 (demo_input\<lparr>in_claim := Verified\<rparr>)) ''k1'' demo_db = Inr (rc, t)"
    and r: "map_of (db_revisions t) 53 = Some r" "r_claim r = Verified" "r_space r = 7"
    by (simp add: demo_defs run_defs save_defs Let_def)
  have "authorized demo_db (id_principal rita) (r_space r) 30"
    using claims_need_reviewer [OF demo_wf s r(1)] r(2) by (simp add: demo_db_def)
  with s r show ?thesis by (auto simp: rita_def)
qed

section \<open>Withdrawal\<close>

text \<open>
  C9. Without the reviewer level a principal withdraws only what is wholly its own: the memory is in
  ordinary review, was created by the caller, every one of its revisions was written by the caller,
  and its current claim is not verified. A memory that is already deleted can be withdrawn again
  only by the principal that asked for its deletion.
\<close>

theorem authors_withdraw_their_own:
  assumes run: "forget sv i fk m expected key s = Inr (rc, t)"
    and row: "map_of (db_memories s) m = Some row" and author: "\<not> authorized s (id_principal i) (m_space row) 30"
  shows "m_review row = Ordinary \<and> m_created_by row = id_principal i
    \<and> (m_deleted_at row = None \<longrightarrow>
         (\<forall>(k, r)\<in>set (db_revisions s). r_memory r = m \<longrightarrow> r_created_by r = id_principal i)
       \<and> (\<exists>rid r. m_current row = Some rid \<and> map_of (db_revisions s) rid = Some r \<and> r_claim r \<noteq> Verified))
    \<and> (m_deleted_at row \<noteq> None \<longrightarrow>
         (\<exists>d. map_of (db_deletions s) m = Some d \<and> d_requested_by d = id_principal i))"
proof -
  from run obtain row2 where "may_withdraw i m (s\<lparr>db_callbacks := []\<rparr>) row2"
    unfolding forget_def forget_in_transaction_def transaction_Inr forget_with_Inr by blast
  then have "may_withdraw i m s row2" by simp
  moreover from this row have "row2 = row" by (auto simp: may_withdraw_def dest!: select_memory_Some)
  ultimately have "may_withdraw i m s row" by simp
  with author show ?thesis
    by (auto simp: may_withdraw_def withdrawal_allowed_def list_all_iff split: if_splits option.splits)
qed

theorem authors_withdraw_their_own_witness:
  "\<exists>t rc u row. forget demo_sv alice demo_fk 50 1 ''k3'' t = Inr (rc, u)
     \<and> map_of (db_memories t) 50 = Some row \<and> m_created_by row = 2"
proof -
  obtain rc t rc' u where s: "save demo_sv alice 7 demo_input ''k1'' demo_db = Inr (rc, t)"
    and r: "forget demo_sv alice demo_fk 50 1 ''k3'' t = Inr (rc', u)"
    using forgotten_run by auto
  obtain row where row: "map_of (db_memories t) 50 = Some row" "m_space row = 7"
    using s by (auto simp: demo_defs run_defs save_defs Let_def)
  have "\<not> authorized t 2 7 30"
    using s by (auto simp: demo_defs run_defs save_defs Let_def)
  with authors_withdraw_their_own [OF r row(1)] row(2) have "m_created_by row = 2" by (simp add: alice_def)
  with r row show ?thesis by blast
qed

section \<open>Core blocks\<close>

text \<open>Every block has exactly the revisions 1, 2, ..., up to its version, and nothing else.\<close>

definition gapless :: "db \<Rightarrow> bool" where
  "gapless s \<longleftrightarrow> (\<forall>space key v. map_of (db_block_revisions s) (space, key, v) \<noteq> None \<longleftrightarrow>
     (\<exists>b. map_of (db_blocks s) (space, key) = Some b \<and> 1 \<le> v \<and> v \<le> bk_version b))"

definition block_version :: "db \<Rightarrow> uuid \<Rightarrow> string \<Rightarrow> nat" where
  "block_version s space key = (case map_of (db_blocks s) (space, key) of None \<Rightarrow> 0 | Some b \<Rightarrow> bk_version b)"

lemma put_block_run:
  assumes "put_block alnum i space key c s = Inr (r, t)"
  obtains row where "r = (bi_content c, bi_expected c + 1)" "block_version s space key = bi_expected c"
    "bk_version row = bi_expected c + 1" "bk_content row = bi_content c" "bk_updated_by row = id_principal i"
    "map_of (db_block_revisions s) (space, key, bi_expected c + 1) = None"
    "db_blocks t = AList.update (space, key) row (db_blocks s)"
    "db_block_revisions t = ((space, key, bi_expected c + 1), row) # db_block_revisions s"
    "authorized s (id_principal i) space 30" "map_of (db_fences s) space = None" "identity_ok i s"
    "core t = core (s\<lparr>db_next := db_next s + 1\<rparr>)" "access_view t = access_view s"
    "db_receipts t = db_receipts s" "suffix (db_audit s) (db_audit t)"
proof -
  let ?row = "\<lparr>bk_content = bi_content c, bk_version = bi_expected c + 1, bk_updated_by = id_principal i,
     bk_updated_at = db_now s\<rparr>"
  show ?thesis
    using assms
    by (intro that [where row = ?row])
       (auto simp: put_block_def Let_def tx_runs transaction_Inr block_version_def core_def access_view_def
          suffix_def elim!: audit_run)
qed

text \<open>The history of a core block is gapless: an update commits only against the current version and
  moves the block to the next one, the new content is recorded as that revision, no earlier revision
  is changed, and the revisions of every block stay exactly 1 to its version.
\<close>

theorem block_history_gapless:
  assumes "gapless s" and run: "put_block alnum i space key c s = Inr ((content, v), t)"
  shows "gapless t \<and> block_version s space key = bi_expected c \<and> v = bi_expected c + 1
    \<and> block_version t space key = v \<and> content = bi_content c
    \<and> (\<exists>b. map_of (db_block_revisions t) (space, key, v) = Some b \<and> bk_content b = content)
    \<and> map_of (db_block_revisions s) \<subseteq>\<^sub>m map_of (db_block_revisions t)"
  using run
proof (rule put_block_run)
  fix row assume r: "(content, v) = (bi_content c, bi_expected c + 1)" "block_version s space key = bi_expected c"
    "bk_version row = bi_expected c + 1" "bk_content row = bi_content c"
    "map_of (db_block_revisions s) (space, key, bi_expected c + 1) = None"
    "db_blocks t = AList.update (space, key) row (db_blocks s)"
    "db_block_revisions t = ((space, key, bi_expected c + 1), row) # db_block_revisions s"
  have blocks: "map_of (db_blocks t) = (map_of (db_blocks s))((space, key) \<mapsto> row)"
    by (simp add: r(6) update_conv')
  note r = r(1-5,7)
  have "gapless t"
    unfolding gapless_def
  proof (intro allI)
    fix sp k n
    show "map_of (db_block_revisions t) (sp, k, n) \<noteq> None \<longleftrightarrow>
        (\<exists>b. map_of (db_blocks t) (sp, k) = Some b \<and> 1 \<le> n \<and> n \<le> bk_version b)"
      using assms(1) [unfolded gapless_def, rule_format, of sp k n] r
      by (cases "sp = space \<and> k = key") (auto simp: blocks block_version_def split: option.splits)
  qed
  with r blocks show ?thesis
    by (auto simp: block_version_def map_le_def)
qed

theorem block_history_gapless_witness:
  "\<exists>t. put_block (\<lambda>c. True) rita 7 ''persona'' \<lparr>bi_content = ''calm'', bi_expected = 0\<rparr> demo_db = Inr ((''calm'', 1), t)
     \<and> gapless t"
proof -
  obtain r t where r: "put_block (\<lambda>c. True) rita 7 ''persona'' \<lparr>bi_content = ''calm'', bi_expected = 0\<rparr> demo_db = Inr (r, t)"
    by (simp add: put_block_def block_key_ok_def demo_defs run_defs Let_def)
  moreover have "gapless demo_db" by (simp add: gapless_def demo_db_def)
  ultimately show ?thesis using block_history_gapless [of demo_db] by (cases r) fastforce
qed

end
