(* ===== verification/Worker.thy ===== *)
theory Worker
  imports Memory_Theorems "HOL-Library.Product_Lexorder"
begin

text \<open>
  The indexing worker (\<open>service/worker.py\<close>) with the job policy of \<open>service/model_state.py\<close>, the
  erasure of \<open>service/lifecycle.py\<close> and \<open>service/evaluations.py\<close>, and the SQL functions that the
  worker calls (\<open>claim_job\<close>, \<open>embedding_source_current\<close>, \<open>embedding_revision_current\<close> of the
  migrations). A job is claimed under a lease; inference happens between two transactions, each of
  which checks the lease again; what others do in between is an argument of a turn. The embedding model is a parameter; vectors are lists of reals.
\<close>

section \<open>The worker\<close>

record worker =
  wk_generation :: string
  wk_default :: string
  wk_lease_seconds :: nat
  wk_max_attempts :: nat
  wk_dimensions :: nat
  wk_document :: "string \<Rightarrow> error + (nat \<times> nat \<times> real list) list"
  wk_error_name :: "error \<Rightarrow> string"

type_synonym claimed = "uuid \<times> job"

definition seconds :: "nat \<Rightarrow> time" where
  "seconds n = 1000000 * int n"

text \<open>Each database transaction commits or rolls back on its own.\<close>

definition commit :: "'a act \<Rightarrow> db \<Rightarrow> (error + 'a) \<times> db" where
  "commit m s = (case m s of Inl e \<Rightarrow> (Inl e, s) | Inr (a, t) \<Rightarrow> (Inr a, t))"

definition update_job :: "uuid \<Rightarrow> (job \<Rightarrow> job) \<Rightarrow> unit act" where
  "update_job jid f = tx_modify (\<lambda>s. s\<lparr>db_jobs := t_update (\<lambda>k j. k = jid) f (db_jobs s)\<rparr>)"

definition update_operation :: "uuid \<Rightarrow> (operation \<Rightarrow> operation) \<Rightarrow> unit act" where
  "update_operation k f = tx_modify (\<lambda>s. s\<lparr>db_operations := t_update (\<lambda>x op. x = k) f (db_operations s)\<rparr>)"

section \<open>Claiming\<close>

definition due :: "db \<Rightarrow> job \<Rightarrow> bool" where
  "due s j \<longleftrightarrow> (j_state j = Pending \<and> j_available_at j \<le> db_now s)
     \<or> (j_state j = Leased \<and> (case j_lease_until j of None \<Rightarrow> False | Some t \<Rightarrow> t < db_now s))"

definition first_job :: "(uuid \<times> job) list \<Rightarrow> (uuid \<times> job) option" where
  "first_job js = (case sort_key (\<lambda>(k, j). (j_available_at j, j_created_at j, k)) js of
     [] \<Rightarrow> None | c # _ \<Rightarrow> Some c)"

definition due_purge :: "db \<Rightarrow> (uuid \<times> job) option" where
  "due_purge s = first_job (filter (\<lambda>(k, j). j_kind j = Purge \<and> due s j) (db_jobs s))"

text \<open>The job's index is active and not paused, or its run is the running candidate of the space.\<close>

definition routed :: "db \<Rightarrow> string \<Rightarrow> job \<Rightarrow> bool" where
  "routed s gen j \<longleftrightarrow>
     (case j_run j of
        None \<Rightarrow> (case map_of (db_settings s) (j_space j) of
                   None \<Rightarrow> True | Some st \<Rightarrow> \<not> es_paused st \<and> es_generation st = gen)
      | Some run \<Rightarrow> (case map_of (db_runs s) run of
                       None \<Rightarrow> False
                     | Some r \<Rightarrow> rr_space r = j_space j \<and> rr_state r = Running
                         \<and> (case map_of (db_settings s) (j_space j) of None \<Rightarrow> False | Some st \<Rightarrow> es_run st = Some run)))"

definition claimable :: "db \<Rightarrow> string \<Rightarrow> job \<Rightarrow> bool" where
  "claimable s gen j \<longleftrightarrow> j_kind j = Embed \<and> j_generation j = Some gen \<and> due s j \<and> routed s gen j"

definition due_space :: "string \<Rightarrow> db \<Rightarrow> uuid option" where
  "due_space gen s =
     (case sort_key (\<lambda>(k, sp). (case sp_turn sp of None \<Rightarrow> 0 | Some n \<Rightarrow> Suc n, sp_created_at sp, k))
             (filter (\<lambda>(k, sp). list_ex (\<lambda>(x, j). j_space j = k \<and> claimable s gen j) (db_jobs s)) (db_spaces s)) of
        [] \<Rightarrow> None | (k, sp) # _ \<Rightarrow> Some k)"

definition due_embed :: "string \<Rightarrow> uuid \<Rightarrow> db \<Rightarrow> (uuid \<times> job) option" where
  "due_embed gen space s = first_job (filter (\<lambda>(k, j). j_space j = space \<and> claimable s gen j) (db_jobs s))"

definition leased :: "worker \<Rightarrow> uuid \<Rightarrow> time \<Rightarrow> job \<Rightarrow> job" where
  "leased w lease now j = j\<lparr>j_state := Leased, j_lease := Some lease,
     j_lease_until := Some (now + seconds (max 5 (min (wk_lease_seconds w) 3600))),
     j_attempts := j_attempts j + 1\<rparr>"

definition lease_job :: "worker \<Rightarrow> uuid \<Rightarrow> claimed \<Rightarrow> claimed option act" where
  "lease_job w lease c =
     tx_bind (tx_read db_now) (\<lambda>now.
     tx_then (update_job (fst c) (leased w lease now)) (tx_return (Some (fst c, leased w lease now (snd c)))))"

definition take_turn :: "uuid \<Rightarrow> unit act" where
  "take_turn space = tx_modify (\<lambda>s. s\<lparr>db_turn := db_turn s + 1,
     db_spaces := t_update (\<lambda>k sp. k = space) (\<lambda>sp. sp\<lparr>sp_turn := Some (db_turn s + 1)\<rparr>) (db_spaces s)\<rparr>)"

definition claim_embed :: "worker \<Rightarrow> uuid \<Rightarrow> string \<Rightarrow> claimed option act" where
  "claim_embed w lease gen =
     tx_bind (tx_read (due_space gen)) (\<lambda>chosen.
     case chosen of
       None \<Rightarrow> tx_return None
     | Some space \<Rightarrow>
         tx_bind (tx_read (due_embed gen space)) (\<lambda>found.
         case found of
           None \<Rightarrow> tx_return None
         | Some c \<Rightarrow> tx_bind (lease_job w lease c) (\<lambda>r. tx_then (take_turn space) (tx_return r))))"

definition claim_job :: "worker \<Rightarrow> uuid \<Rightarrow> string option \<Rightarrow> claimed option act" where
  "claim_job w lease gen =
     tx_bind (tx_read due_purge) (\<lambda>purge.
     case purge of
       Some c \<Rightarrow> lease_job w lease c
     | None \<Rightarrow> (case gen of None \<Rightarrow> tx_return None | Some g \<Rightarrow> claim_embed w lease g))"

text \<open>\<open>schedulable\<close>: the memory budget admits the embedder; a purge is claimed in any case.\<close>

definition claim :: "worker \<Rightarrow> bool \<Rightarrow> claimed option act" where
  "claim w schedulable =
     tx_bind fresh (\<lambda>lease. claim_job w lease (if schedulable then Some (wk_generation w) else None))"

section \<open>The lease\<close>

definition owned :: "claimed \<Rightarrow> db \<Rightarrow> bool" where
  "owned c s \<longleftrightarrow>
     (case map_of (db_jobs s) (fst c) of
        None \<Rightarrow> False
      | Some r \<Rightarrow> j_space r = j_space (snd c) \<and> j_state r = Leased
          \<and> j_lease r \<noteq> None \<and> j_lease r = j_lease (snd c)
          \<and> (case j_lease_until r of None \<Rightarrow> False | Some t \<Rightarrow> t > db_now s))"

text \<open>One beat of \<open>_keep_lease\<close>; \<open>False\<close> ends the heartbeat.\<close>

definition keep_lease :: "worker \<Rightarrow> claimed \<Rightarrow> bool act" where
  "keep_lease w c =
     tx_bind (tx_read (owned c)) (\<lambda>own.
     if \<not> own then tx_return False
     else tx_bind (tx_read db_now) (\<lambda>now.
          tx_then (update_job (fst c) (\<lambda>j. j\<lparr>j_lease_until := Some (now + seconds (wk_lease_seconds w))\<rparr>))
                  (tx_return True)))"

fun op_after :: "job_state \<Rightarrow> op_state" where
  "op_after Ready = OpReady"
| "op_after JobCancelled = OpCancelled"
| "op_after Failed = OpFailed"
| "op_after Pending = Accepted"
| "op_after Leased = Indexing"

definition finish :: "claimed \<Rightarrow> job_state \<Rightarrow> unit act" where
  "finish c st =
     tx_then (update_job (fst c) (\<lambda>j. j\<lparr>j_state := st, j_lease := None, j_lease_until := None, j_error := None\<rparr>))
             (update_operation (j_operation (snd c)) (\<lambda>op. op\<lparr>o_state := op_after st, o_error := None\<rparr>))"

section \<open>Policy\<close>

datatype policy = PolicyAllowed | PolicyPaused | PolicyBlocked | PolicyObsolete

definition job_policy :: "string \<Rightarrow> job \<Rightarrow> db \<Rightarrow> policy" where
  "job_policy fallback j s =
     (let state = settings fallback (j_space j) s in
      case j_run j of
        Some run \<Rightarrow> if ro_run state \<noteq> Some run then PolicyObsolete
                    else if ro_candidate_state state = Some RunPaused then PolicyPaused else PolicyAllowed
      | None \<Rightarrow> if Some (ro_generation state) \<noteq> j_generation j then PolicyObsolete
                else if ro_paused state then PolicyBlocked else PolicyAllowed)"

definition barred :: "db \<Rightarrow> uuid \<Rightarrow> bool" where
  "barred s p = (case map_of (db_principals s) p of None \<Rightarrow> False | Some r \<Rightarrow> p_disabled r \<or> p_administrator r)"

definition source_current :: "uuid \<Rightarrow> db \<Rightarrow> bool" where
  "source_current space s \<longleftrightarrow> map_of (db_spaces s) space \<noteq> None
     \<and> (case map_of (db_scopes s) space of
          None \<Rightarrow> True
        | Some sc \<Rightarrow>
            (case map_of (db_connectors s) (cs_connector sc) of
               None \<Rightarrow> True
             | Some c \<Rightarrow> map_of (db_principals s) (cn_principal c) = None
                 \<or> \<not> (cs_paused sc \<or> cs_suspended sc \<or> cs_valid_until sc \<le> db_now s \<or> cn_disabled c
                      \<or> barred s (cn_principal c))))
     \<and> \<not> list_ex (\<lambda>(k, ca). ca_space ca = space \<and>
          (case map_of (db_connectors s) (ca_connector ca) of
             None \<Rightarrow> False
           | Some c \<Rightarrow> map_of (db_principals s) (cn_principal c) \<noteq> None
               \<and> (ca_revoked ca \<or> cn_disabled c \<or> barred s (cn_principal c)))) (db_capture_sources s)"

definition revision_current :: "uuid option \<Rightarrow> db \<Rightarrow> bool" where
  "revision_current rid s =
     (case rid of
        None \<Rightarrow> True
      | Some k \<Rightarrow> (case map_of (db_revisions s) k of None \<Rightarrow> True | Some r \<Rightarrow>
           (case map_of (db_withheld s) (r_memory r) of None \<Rightarrow> True | Some it \<Rightarrow> wi_deleted it)))"

definition unlease :: "job \<Rightarrow> job" where
  "unlease j = j\<lparr>j_state := Pending, j_lease := None, j_lease_until := None, j_attempts := j_attempts j - 1\<rparr>"

definition postpone :: "claimed \<Rightarrow> nat \<Rightarrow> string \<Rightarrow> unit act" where
  "postpone c wait code =
     tx_bind (tx_read db_now) (\<lambda>now.
     tx_then (update_job (fst c) (\<lambda>j. (unlease j)\<lparr>j_available_at := now + seconds wait, j_error := Some code\<rparr>))
             (update_operation (j_operation (snd c)) (\<lambda>op. op\<lparr>o_state := Accepted, o_error := Some code\<rparr>)))"

definition policy_step :: "worker \<Rightarrow> claimed \<Rightarrow> bool \<Rightarrow> bool act" where
  "policy_step w c finishing =
     tx_bind (tx_read (job_policy (wk_default w) (snd c))) (\<lambda>policy.
     if policy = PolicyObsolete then tx_then (finish c JobCancelled) (tx_return False)
     else if policy = PolicyBlocked \<or> (policy = PolicyPaused \<and> \<not> finishing)
     then tx_then (update_job (fst c) unlease) (tx_return False)
     else tx_bind (tx_read (\<lambda>s. source_current (j_space (snd c)) s \<and> revision_current (j_revision (snd c)) s)) (\<lambda>current.
          if current then tx_return True
          else tx_then (postpone c 60 ''source_access_unavailable'') (tx_return False)))"

section \<open>Indexing\<close>

text \<open>The revision's text while its memory is live and its source is retained.\<close>

definition retained_content :: "uuid option \<Rightarrow> db \<Rightarrow> string option" where
  "retained_content rid s =
     (case rid of
        None \<Rightarrow> None
      | Some k \<Rightarrow>
       (case map_of (db_revisions s) k of
          None \<Rightarrow> None
        | Some r \<Rightarrow>
         (case (map_of (db_memories s) (r_memory r), map_of (db_source_revisions s) (r_source r)) of
            (Some row, Some sr) \<Rightarrow>
              (case map_of (db_sources s) (sr_source sr) of
                 None \<Rightarrow> None
               | Some so \<Rightarrow>
                   if m_space row = r_space r \<and> m_deleted_at row = None \<and> sr_space sr = r_space r
                      \<and> s_space so = sr_space sr \<and> s_deleted_at so = None
                   then Some (r_content r) else None)
          | _ \<Rightarrow> None)))"

definition process_begin :: "worker \<Rightarrow> claimed \<Rightarrow> string option act" where
  "process_begin w c =
     tx_bind (tx_read (owned c)) (\<lambda>own.
     if \<not> own then tx_return None
     else tx_bind (policy_step w c False) (\<lambda>ok.
          if \<not> ok then tx_return None
          else tx_bind (tx_read (retained_content (j_revision (snd c)))) (\<lambda>content.
               case content of
                 None \<Rightarrow> tx_then (finish c JobCancelled) (tx_return None)
               | Some text \<Rightarrow>
                   tx_then (update_operation (j_operation (snd c)) (\<lambda>op. op\<lparr>o_state := Indexing\<rparr>))
                           (tx_return (Some text)))))"

definition vector_ok :: "nat \<Rightarrow> real list \<Rightarrow> bool" where
  "vector_ok dimensions v \<longleftrightarrow> length v = dimensions \<and> sum_list (map (\<lambda>x. x * x) v) \<ge> 1 / 1000000000000"

definition insert_chunk :: "worker \<Rightarrow> job \<Rightarrow> string \<Rightarrow> nat \<times> nat \<times> nat \<times> real list \<Rightarrow> unit act" where
  "insert_chunk w j content row = (case row of (index, start, stop, vector) \<Rightarrow>
     tx_then (tx_guard (\<lambda>_. start < stop \<and> stop \<le> length content) ValueError)
    (tx_then (tx_guard (\<lambda>_. vector_ok (wk_dimensions w) vector) ValueError)
     (case (j_revision j, j_generation j) of
        (Some rid, Some gen) \<Rightarrow> tx_modify (\<lambda>s. s\<lparr>db_embeddings :=
            ((rid, gen, index), \<lparr>c_start = start, c_end = stop, c_vector = vector\<rparr>) # db_embeddings s\<rparr>)
      | _ \<Rightarrow> tx_raise (DatabaseError ''not_null''))))"

definition drop_embeddings :: "uuid option \<Rightarrow> string option \<Rightarrow> unit act" where
  "drop_embeddings rid gen = tx_modify (\<lambda>s. s\<lparr>db_embeddings :=
     t_delete (\<lambda>(r, g, n) c. rid = Some r \<and> gen = Some g) (db_embeddings s)\<rparr>)"

definition publish :: "worker \<Rightarrow> claimed \<Rightarrow> string \<Rightarrow> (nat \<times> nat \<times> real list) list \<Rightarrow> bool act" where
  "publish w c content chunks =
     tx_bind (tx_read (retained_content (j_revision (snd c)))) (\<lambda>live.
     tx_bind (tx_read (owned c)) (\<lambda>own.
     if \<not> own then tx_return False
     else tx_bind (policy_step w c True) (\<lambda>ok.
          if \<not> ok then tx_return False
          else if live = None then tx_then (finish c JobCancelled) (tx_return False)
          else tx_then (drop_embeddings (j_revision (snd c)) (j_generation (snd c)))
              (tx_then (tx_each (insert_chunk w (snd c) content) (enumerate 0 chunks))
              (tx_then (finish c Ready) (tx_return True))))))"

section \<open>Erasure\<close>

definition erase_dataset :: "uuid \<Rightarrow> dataset_state \<Rightarrow> unit act" where
  "erase_dataset d st = tx_modify (\<lambda>s. s\<lparr>
     db_datasets := t_update (\<lambda>k r. k = d)
       (\<lambda>r. r\<lparr>ds_state := st, ds_cases := [], ds_description := [], ds_name := ''Removed dataset '' @ uuid_text d\<rparr>) (db_datasets s),
     db_eval_results := t_delete (\<lambda>(run, n) r. case map_of (db_eval_runs s) run of None \<Rightarrow> False | Some x \<Rightarrow> ev_dataset x = d)
       (db_eval_results s),
     db_eval_runs := t_update (\<lambda>k r. ev_dataset r = d)
       (\<lambda>r. r\<lparr>ev_state := EvInvalidated, ev_lease := None, ev_lease_until := None,
              ev_error := Some ''reference_unavailable'',
              ev_finished_at := (case ev_finished_at r of Some t \<Rightarrow> Some t | None \<Rightarrow> Some (db_now s)),
              ev_summary := None, ev_selected := None\<rparr>) (db_eval_runs s),
     db_eval_dependencies := filter (\<lambda>(k, m). k \<noteq> d) (db_eval_dependencies s)\<rparr>)"

definition purge_evaluation_dependencies :: "uuid \<Rightarrow> unit act" where
  "purge_evaluation_dependencies m =
     tx_bind (tx_read (\<lambda>s. remdups (map fst (filter (\<lambda>(d, x). x = m) (db_eval_dependencies s))))) (\<lambda>ds.
     tx_each (\<lambda>d. erase_dataset d DsInvalidated) ds)"

definition of_memory :: "db \<Rightarrow> uuid \<Rightarrow> uuid \<Rightarrow> bool" where
  "of_memory s m rid = (case map_of (db_revisions s) rid of None \<Rightarrow> False | Some r \<Rightarrow> r_memory r = m)"

definition purge_rows :: "uuid \<Rightarrow> unit act" where
  "purge_rows m = tx_modify (\<lambda>s. s\<lparr>
     db_connector_proposals := t_delete (\<lambda>k x. x = m) (db_connector_proposals s),
     db_notes := t_delete (\<lambda>k n. n_memory n = m) (db_notes s),
     db_embeddings := t_delete (\<lambda>(rid, g, n) c. of_memory s m rid) (db_embeddings s),
     db_jobs := t_update (\<lambda>k j. case j_revision j of None \<Rightarrow> False | Some rid \<Rightarrow> of_memory s m rid)
       (\<lambda>j. j\<lparr>j_revision := None\<rparr>) (db_jobs s),
     db_memories := t_update (\<lambda>k r. k = m) (\<lambda>r. r\<lparr>m_current := None, m_subject := None\<rparr>) (db_memories s),
     db_revisions := t_delete (\<lambda>k r. r_memory r = m) (db_revisions s)\<rparr>)"

text \<open>
  The sources of the memory's evidence, then each that nothing else cites. The attachments of a
  deleted source revision go with it (\<open>ON DELETE CASCADE\<close>).
\<close>

definition sources_of :: "uuid \<Rightarrow> db \<Rightarrow> uuid list" where
  "sources_of m s = remdups (concat (map (\<lambda>(k, r). if r_memory r \<noteq> m then []
     else (case map_of (db_source_revisions s) (r_source r) of None \<Rightarrow> [] | Some sr \<Rightarrow> [sr_source sr]))
     (db_revisions s)))"

definition uncited :: "db \<Rightarrow> uuid \<Rightarrow> uuid \<Rightarrow> source_revision \<Rightarrow> bool" where
  "uncited s so k sr \<longleftrightarrow> sr_source sr = so \<and> \<not> list_ex (\<lambda>(x, r). r_source r = k) (db_revisions s)"

definition purge_source :: "uuid \<Rightarrow> unit act" where
  "purge_source so =
     tx_then (tx_modify (\<lambda>s. s\<lparr>db_source_revisions := t_delete (uncited s so) (db_source_revisions s),
                db_attachments := t_delete (\<lambda>x a. case map_of (db_source_revisions s) (at_revision a) of
                   None \<Rightarrow> False | Some sr \<Rightarrow> uncited s so (at_revision a) sr) (db_attachments s)\<rparr>))
             (tx_modify (\<lambda>s. s\<lparr>db_sources := t_delete (\<lambda>k r. k = so
                \<and> \<not> list_ex (\<lambda>(x, sr). sr_source sr = so) (db_source_revisions s)) (db_sources s)\<rparr>))"

definition mark_purged :: "uuid \<Rightarrow> unit act" where
  "mark_purged m = tx_modify (\<lambda>s. s\<lparr>db_deletions := t_update (\<lambda>k d. k = m)
     (\<lambda>d. d\<lparr>d_purged_at := (case d_purged_at d of Some t \<Rightarrow> Some t | None \<Rightarrow> Some (db_now s))\<rparr>) (db_deletions s)\<rparr>)"

definition purge_memory :: "uuid \<Rightarrow> uuid \<Rightarrow> unit act" where
  "purge_memory space m =
     tx_then (purge_evaluation_dependencies m)
    (tx_then (purge_librarian_dependencies space m)
    (tx_bind (tx_read (sources_of m)) (\<lambda>sources.
     tx_then (purge_rows m)
    (tx_then (tx_each purge_source sources) (mark_purged m)))))"

definition purge :: "claimed \<Rightarrow> bool act" where
  "purge c =
     tx_bind (tx_read (owned c)) (\<lambda>own.
     if \<not> own then tx_return False
     else tx_bind (tx_read (\<lambda>s. map_of (db_operations s) (j_operation (snd c)))) (\<lambda>found.
          case found of
            None \<Rightarrow> tx_raise RuntimeError
          | Some op \<Rightarrow>
              tx_bind (tx_read (\<lambda>s. map_of (db_memories s) (o_memory op))) (\<lambda>row.
              if (case row of None \<Rightarrow> True | Some r \<Rightarrow> m_deleted_at r = None)
              then tx_then (finish c JobCancelled) (tx_return False)
              else tx_then (purge_memory (j_space (snd c)) (o_memory op))
                  (tx_then (finish c Ready) (tx_return True)))))"

section \<open>Failure\<close>

fun over_budget :: "error \<Rightarrow> bool" where
  "over_budget (ServiceError status code) \<longleftrightarrow> code = ''inference_memory_budget''"
| "over_budget e \<longleftrightarrow> False"

definition fail :: "worker \<Rightarrow> claimed \<Rightarrow> error \<Rightarrow> unit act" where
  "fail w c e =
     tx_bind (tx_read (owned c)) (\<lambda>own.
     if \<not> own then tx_return ()
     else if over_budget e then postpone c 2 ''inference_memory_budget''
     else let st = (if j_attempts (snd c) \<ge> wk_max_attempts w then Failed else Pending);
              code = take 100 (wk_error_name w e)
          in tx_bind (tx_read db_now) (\<lambda>now.
             tx_then (update_job (fst c) (\<lambda>j. j\<lparr>j_state := st, j_lease := None, j_lease_until := None,
                        j_available_at := now + seconds (min 300 (2 ^ j_attempts (snd c))), j_error := Some code\<rparr>))
                     (update_operation (j_operation (snd c)) (\<lambda>op. op\<lparr>o_state := op_after st, o_error := Some code\<rparr>))))"

section \<open>One turn of the worker\<close>

text \<open>
  Between two transactions of a turn the clock runs and other transactions commit: requests, other
  workers, reindexing, and the heartbeat of this worker (\<open>keep_lease\<close>). What they do to the database
  in each gap is an argument.
\<close>

datatype gap = AfterClaim | DuringInference | BeforeFailure

definition process :: "worker \<Rightarrow> claimed \<Rightarrow> (gap \<Rightarrow> db \<Rightarrow> db) \<Rightarrow> db \<Rightarrow> (error + bool) \<times> db" where
  "process w c others s =
     (if j_kind (snd c) = Purge then commit (purge c) s
      else case commit (process_begin w c) s of
             (Inl e, s1) \<Rightarrow> (Inl e, s1)
           | (Inr None, s1) \<Rightarrow> (Inr False, s1)
           | (Inr (Some content), s1) \<Rightarrow>
               if j_generation (snd c) \<noteq> Some (wk_generation w) then (Inl ValueError, s1)
               else (let s2 = others DuringInference s1 in
                     case wk_document w content of
                       Inl e \<Rightarrow> (Inl e, s2)
                     | Inr chunks \<Rightarrow> if chunks = [] then (Inl ValueError, s2)
                                     else commit (publish w c content chunks) s2))"

definition run_once :: "worker \<Rightarrow> bool \<Rightarrow> (gap \<Rightarrow> db \<Rightarrow> db) \<Rightarrow> db \<Rightarrow> claimed option \<times> db" where
  "run_once w schedulable others s =
     (case commit (claim w schedulable) s of
        (Inr (Some c), s1) \<Rightarrow>
          (case process w c others (others AfterClaim s1) of
             (Inl e, s2) \<Rightarrow> (Some c, snd (commit (fail w c e) (others BeforeFailure s2)))
           | (Inr b, s2) \<Rightarrow> (Some c, s2))
      | (_, s1) \<Rightarrow> (None, s1))"

end
