(* ===== verification/Worker_Theorems.thy ===== *)
theory Worker_Theorems
  imports Worker
begin

text \<open>
  What the worker's transactions do to a sound database: they keep it sound, they act on a job only
  while its lease is theirs, they publish only for live memories, and an erasure leaves nothing of
  a memory's text behind.
\<close>

section \<open>Soundness and persistence\<close>

text \<open>The database is well formed and every stored embedding belongs to a stored revision.\<close>

definition indexed :: "db \<Rightarrow> bool" where
  "indexed s \<longleftrightarrow> (\<forall>(k, c)\<in>set (db_embeddings s). map_of (db_revisions s) (fst k) \<noteq> None)"

definition sound :: "db \<Rightarrow> bool" where
  "sound s \<longleftrightarrow> wf s \<and> indexed s"

text \<open>What survives every step of the service and of the worker, erasure included.\<close>

definition outlives :: "memory \<Rightarrow> memory \<Rightarrow> bool" where
  "outlives r r' \<longleftrightarrow> m_space r' = m_space r \<and> m_created_by r' = m_created_by r
     \<and> m_created_at r' = m_created_at r \<and> m_version r \<le> m_version r'
     \<and> (m_deleted_at r \<noteq> None \<longrightarrow> m_deleted_at r' = m_deleted_at r)"

definition persists :: "db \<Rightarrow> db \<Rightarrow> bool" where
  "persists s t \<longleftrightarrow>
     (\<forall>m r. map_of (db_memories s) m = Some r \<longrightarrow> (\<exists>r'. map_of (db_memories t) m = Some r' \<and> outlives r r'))
   \<and> map_of (db_receipts s) \<subseteq>\<^sub>m map_of (db_receipts t)
   \<and> dom (map_of (db_denials s)) \<subseteq> dom (map_of (db_denials t))
   \<and> suffix (db_audit s) (db_audit t)
   \<and> same_jobs (db_jobs s) (db_jobs t) \<and> revises_live s t"

definition tends :: "db \<Rightarrow> db \<Rightarrow> bool" where
  "tends s t \<longleftrightarrow> (sound s \<longrightarrow> sound t \<and> persists s t)"

lemma outlives_refl [simp]: "outlives r r"
  by (simp add: outlives_def)

lemma outlives_trans: "outlives a b \<Longrightarrow> outlives b c \<Longrightarrow> outlives a c"
  by (auto simp: outlives_def)

lemma persists_memory:
  "persists s t \<Longrightarrow> map_of (db_memories s) m = Some r \<Longrightarrow> \<exists>r'. map_of (db_memories t) m = Some r' \<and> outlives r r'"
  by (simp add: persists_def)

lemma persists_deleted: "persists s t \<Longrightarrow> is_deleted s m \<Longrightarrow> is_deleted t m"
  using persists_memory [of s t m] by (auto simp: is_deleted_def outlives_def split: option.splits)

lemma persists_revision:
  "persists s t \<Longrightarrow> map_of (db_revisions t) k = Some r \<Longrightarrow>
   map_of (db_revisions s) k = Some r \<or> \<not> is_deleted s (r_memory r)"
  by (simp add: persists_def revises_live_def)

lemma persists_refl [simp]: "persists s s"
  by (simp add: persists_def)

lemma persists_trans:
  assumes st: "persists s t" and tu: "persists t u"
  shows "persists s u"
proof -
  have "revises_live s u"
    unfolding revises_live_def
    using persists_deleted [OF st] persists_revision [OF st] persists_revision [OF tu] by blast
  moreover have "\<exists>r'. map_of (db_memories u) m = Some r' \<and> outlives r r'" if "map_of (db_memories s) m = Some r" for m r
    using persists_memory [OF st that] persists_memory [OF tu] outlives_trans by blast
  moreover have "same_jobs (db_jobs s) (db_jobs u)"
    using st tu same_jobs_trans unfolding persists_def by blast
  ultimately show ?thesis
    using st tu unfolding persists_def by (intro conjI) (blast intro: map_le_trans suffix_order.trans | simp)+
qed

interpretation tends: kept_relation tends
  by unfold_locales (auto simp: tends_def intro: persists_trans)

lemma evolves_persists: "evolves s t \<Longrightarrow> persists s t"
  unfolding evolves_def persists_def by (auto simp: row_evolves_def outlives_def) metis

lemma safe_tends:
  assumes "safe s t"
  shows "tends s t"
proof -
  have "indexed t" if "indexed s" "evolves s t"
    using that unfolding indexed_def evolves_def map_le_def dom_def
    by (metis (no_types, lifting) mem_Collect_eq case_prod_beta')
  with assms show ?thesis by (auto simp: tends_def safe_def sound_def intro: evolves_persists)
qed

section \<open>Acting on an owned job\<close>

definition known :: "claimed \<Rightarrow> db \<Rightarrow> bool" where
  "known c s \<longleftrightarrow> (\<exists>j. map_of (db_jobs s) (fst c) = Some j \<and> job_identity j = job_identity (snd c))"

lemma known_persists: "persists s t \<Longrightarrow> known c s \<Longrightarrow> known c t"
  unfolding persists_def same_jobs_def known_def by metis

lemma owned_row: "owned c s \<Longrightarrow> \<exists>j. map_of (db_jobs s) (fst c) = Some j \<and> j_state j = Leased"
  by (auto simp: owned_def split: option.splits)

lemma settle_tends:
  assumes own: "owned c s" "known c s" and f: "\<And>j. job_identity (f j) = job_identity j"
    and q: "q = (\<lambda>k op. False) \<or> q = (\<lambda>k op. k = j_operation (snd c))" and g: "only_state g"
  shows "tends s (s\<lparr>db_jobs := t_update (\<lambda>k j. k = fst c) f (db_jobs s),
     db_operations := t_update q g (db_operations s)\<rparr>)" (is "tends s ?t")
proof -
  from own obtain j where j: "map_of (db_jobs s) (fst c) = Some j" "j_state j = Leased"
    "j_operation j = j_operation (snd c)"
    by (auto simp: known_def job_identity_def dest!: owned_row)
  have "wf ?t" if "wf s"
    by (rule wf_settle [OF that _ f _ g]) (use j q in \<open>auto simp: live_job_def\<close>)
  moreover have "indexed ?t = indexed s" by (simp add: indexed_def)
  moreover have "persists s ?t" using f by (simp add: persists_def same_jobs_update)
  ultimately show ?thesis by (simp add: tends_def sound_def)
qed

lemma t_update_id [simp]: "t_update p id t = t"
  by (induction t) auto

lemma update_job_at [simp]: "update_job k f s = Inr ((), s\<lparr>db_jobs := t_update (\<lambda>x j. x = k) f (db_jobs s)\<rparr>)"
  by (simp add: update_job_def)

lemma update_operation_at [simp]:
  "update_operation k f s = Inr ((), s\<lparr>db_operations := t_update (\<lambda>x op. x = k) f (db_operations s)\<rparr>)"
  by (simp add: update_operation_def)

lemma job_only_tends:
  assumes "owned c s" "known c s" "\<And>j. job_identity (f j) = job_identity j"
  shows "tends s (s\<lparr>db_jobs := t_update (\<lambda>k j. k = fst c) f (db_jobs s)\<rparr>)"
  using settle_tends [OF assms, of "\<lambda>k op. False" id] by (simp add: only_state_def)

lemma both_tends:
  assumes "owned c s" "known c s" "\<And>j. job_identity (f j) = job_identity j" "only_state g"
  shows "tends s (s\<lparr>db_jobs := t_update (\<lambda>k j. k = fst c) f (db_jobs s),
     db_operations := t_update (\<lambda>k op. k = j_operation (snd c)) g (db_operations s)\<rparr>)"
  using settle_tends [OF assms(1-3) _ assms(4)] by blast

lemma finish_tends: "finish c st s = Inr (u, t) \<Longrightarrow> owned c s \<Longrightarrow> known c s \<Longrightarrow> tends s t"
  by (auto simp: finish_def tx_runs job_identity_def only_state_def intro!: both_tends)

lemma postpone_tends: "postpone c n code s = Inr (u, t) \<Longrightarrow> owned c s \<Longrightarrow> known c s \<Longrightarrow> tends s t"
  by (auto simp: postpone_def tx_runs job_identity_def only_state_def unlease_def intro!: both_tends)

lemma policy_step_run:
  assumes "policy_step w c finishing s = Inr (ok, t)" "owned c s" "known c s"
  shows "tends s t \<and> (ok \<longrightarrow> t = s)"
  using assms
  by (auto simp: policy_step_def tx_runs tends.kept_refl unlease_def job_identity_def split: if_splits
      intro: finish_tends postpone_tends intro!: job_only_tends)

lemma keep_lease_tends: "keep_lease w c s = Inr (b, t) \<Longrightarrow> known c s \<Longrightarrow> tends s t"
  by (auto simp: keep_lease_def tx_runs tends.kept_refl job_identity_def split: if_splits intro!: job_only_tends)

lemma fail_tends: "fail w c e s = Inr (u, t) \<Longrightarrow> known c s \<Longrightarrow> tends s t"
  by (auto simp: fail_def Let_def tx_runs tends.kept_refl job_identity_def only_state_def split: if_splits
      intro: postpone_tends intro!: both_tends)

section \<open>Claiming\<close>

lemma first_job_in: "first_job js = Some c \<Longrightarrow> c \<in> set js"
  unfolding first_job_def by (cases "sort_key (\<lambda>(k, j). (j_available_at j, j_created_at j, k)) js")
    (auto simp flip: set_sort [of "\<lambda>(k, j). (j_available_at j, j_created_at j, k)" js])

lemma tends_other:
  assumes "core t = core (s\<lparr>db_next := n\<rparr>)" "db_next s \<le> n" "db_embeddings t = db_embeddings s"
    "db_receipts t = db_receipts s" "suffix (db_audit s) (db_audit t)"
  shows "tends s t"
proof -
  have "wf t" if "wf s" using wf_next [OF that assms(2)] wf_core [OF assms(1)] by simp
  moreover have "persists s t" "indexed t = indexed s"
    using assms by (simp_all add: persists_def indexed_def core_def)
  ultimately show ?thesis by (simp add: tends_def sound_def)
qed

text \<open>A claim leases a due job and returns its row; it changes no other job and no operation.\<close>

definition leases :: "worker \<Rightarrow> db \<Rightarrow> db \<Rightarrow> claimed \<Rightarrow> bool" where
  "leases w s t c \<longleftrightarrow> (\<exists>j. (fst c, j) \<in> set (db_jobs s) \<and> due s j \<and> snd c = leased w (db_next s) (db_now s) j
     \<and> db_jobs t = t_update (\<lambda>k j. k = fst c) (leased w (db_next s) (db_now s)) (db_jobs s)
     \<and> (\<exists>turn spaces. t = s\<lparr>db_next := db_next s + 1, db_jobs := db_jobs t, db_turn := turn, db_spaces := spaces\<rparr>))"

lemma leasesI:
  assumes "(k, j) \<in> set (db_jobs s)" "due s j"
    and "t = s\<lparr>db_next := db_next s + 1, db_jobs := t_update (\<lambda>x j. x = k) (leased w (db_next s) (db_now s)) (db_jobs s),
       db_turn := a, db_spaces := b\<rparr>"
  shows "leases w s t (k, leased w (db_next s) (db_now s) j)"
  using assms unfolding leases_def by auto

lemma due_purge_in: "due_purge s = Some (k, j) \<Longrightarrow> (k, j) \<in> set (db_jobs s) \<and> due s j \<and> j_kind j = Purge"
  by (auto simp: due_purge_def dest: first_job_in)

lemma due_embed_in:
  "due_embed gen space s = Some (k, j) \<Longrightarrow> (k, j) \<in> set (db_jobs s) \<and> claimable s gen j \<and> j_space j = space"
  by (auto simp: due_embed_def dest: first_job_in)

lemma due_next [simp]: "due (s\<lparr>db_next := n\<rparr>) j = due s j"
  by (simp add: due_def split: option.split)

lemma claim_run:
  assumes "claim w b s = Inr (r, t)"
  shows "case r of None \<Rightarrow> t = s\<lparr>db_next := db_next s + 1\<rparr> | Some c \<Rightarrow> leases w s t c"
proof -
  let ?s = "s\<lparr>db_next := db_next s + 1\<rparr>"
  show ?thesis
  proof (cases "due_purge ?s")
    case (Some c)
    obtain k j where c: "c = (k, j)" by (cases c)
    with due_purge_in [of ?s k j] Some have "(k, j) \<in> set (db_jobs s)" "due s j" by simp_all
    with assms Some c show ?thesis
      by (auto simp: claim_def claim_job_def lease_job_def tx_bind_at tx_then_at
          intro!: leasesI [where a = "db_turn s" and b = "db_spaces s"])
  next
    case None
    show ?thesis
    proof (cases "b \<and> due_space (wk_generation w) ?s \<noteq> None")
      case False
      with assms None show ?thesis
        by (auto simp: claim_def claim_job_def claim_embed_def tx_bind_at split: if_splits)
    next
      case True
      then obtain space where sp: "due_space (wk_generation w) ?s = Some space" and b by blast
      show ?thesis
      proof (cases "due_embed (wk_generation w) space ?s")
        case None2: None
        with assms None sp \<open>b\<close> show ?thesis
          by (auto simp: claim_def claim_job_def claim_embed_def tx_bind_at)
      next
        case (Some c)
        obtain k j where c: "c = (k, j)" by (cases c)
        with due_embed_in [of _ _ ?s k j] Some have "(k, j) \<in> set (db_jobs s)" "due s j"
          by (simp_all add: claimable_def)
        with assms None sp \<open>b\<close> Some c show ?thesis
          by (auto simp: claim_def claim_job_def claim_embed_def lease_job_def take_turn_def tx_bind_at tx_then_at
              intro!: leasesI)
      qed
    qed
  qed
qed

lemma seconds_pos: "0 < n \<Longrightarrow> 0 < seconds n"
  by (simp add: seconds_def)

lemma leases_effect:
  assumes l: "leases w s t c" and wf: "wf s"
  shows "tends s t \<and> owned c t \<and> known c t"
proof -
  from l obtain j turn spaces where j: "(fst c, j) \<in> set (db_jobs s)" "due s j" "snd c = leased w (db_next s) (db_now s) j"
    and t: "t = s\<lparr>db_next := db_next s + 1,
        db_jobs := t_update (\<lambda>k j. k = fst c) (leased w (db_next s) (db_now s)) (db_jobs s), db_turn := turn, db_spaces := spaces\<rparr>"
    unfolding leases_def by metis
  have m: "map_of (db_jobs s) (fst c) = Some j"
    using j(1) wf by (simp add: wf_def wf_keys_def keys_below_def)
  have live: "live_job (j_state j)" using j(2) by (auto simp: due_def live_job_def)
  let ?u = "s\<lparr>db_jobs := db_jobs t\<rparr>"
  have "wf (s\<lparr>db_jobs := t_update (\<lambda>k j. k = fst c) (leased w (db_next s) (db_now s)) (db_jobs s),
      db_operations := t_update (\<lambda>k op. False) id (db_operations s)\<rparr>)"
    by (rule wf_settle [OF wf]) (use m live in \<open>auto simp: job_identity_def leased_def only_state_def\<close>)
  then have "wf ?u" by (simp add: t)
  from wf_next [OF this, of "db_next s + 1"] have "wf t"
    by (rule iffD2 [OF wf_core, rotated]) (simp_all add: t core_def)
  moreover have "indexed t = indexed s" by (simp add: t indexed_def)
  moreover have "persists s t"
    by (simp add: t persists_def same_jobs_update job_identity_def leased_def)
  moreover have "owned c t" using m by (simp add: owned_def t j(3) leased_def seconds_pos)
  moreover have "known c t" using m by (simp add: known_def t j(3) job_identity_def leased_def)
  ultimately show ?thesis by (simp add: tends_def sound_def)
qed

section \<open>Indexing\<close>

lemma process_begin_tends:
  assumes "process_begin w c s = Inr (r, t)" "known c s"
  shows "tends s t"
proof (cases "owned c s")
  case False
  with assms show ?thesis by (simp add: process_begin_def tx_runs tends.kept_refl)
next
  case True
  with assms(1) obtain ok s1 where p: "policy_step w c False s = Inr (ok, s1)"
    and rest: "(if \<not> ok then tx_return None
          else tx_bind (tx_read (retained_content (j_revision (snd c)))) (\<lambda>content.
               case content of
                 None \<Rightarrow> tx_then (finish c JobCancelled) (tx_return None)
               | Some text \<Rightarrow>
                   tx_then (update_operation (j_operation (snd c)) (\<lambda>op. op\<lparr>o_state := Indexing\<rparr>))
                           (tx_return (Some text)))) s1 = Inr (r, t)"
    by (auto simp: process_begin_def tx_runs)
  note pol = policy_step_run [OF p True assms(2)]
  show ?thesis
  proof (cases ok)
    case False
    with rest pol show ?thesis by simp
  next
    case ok: True
    with pol have [simp]: "s1 = s" by simp
    have op: "tends s (s\<lparr>db_operations := t_update (\<lambda>k op. k = j_operation (snd c)) (\<lambda>op. op\<lparr>o_state := Indexing\<rparr>) (db_operations s)\<rparr>)"
      using both_tends [OF True assms(2), of id "\<lambda>op. op\<lparr>o_state := Indexing\<rparr>"]
      by (simp add: only_state_def)
    from rest ok True assms(2) show ?thesis
      by (auto simp: tx_runs op split: option.splits intro: finish_tends)
  qed
qed

lemma insert_chunk_run:
  assumes "insert_chunk w j content row s = Inr (u, t)"
  obtains rid gen chunk where "j_revision j = Some rid" "j_generation j = Some gen"
    "t = s\<lparr>db_embeddings := ((rid, gen, fst row), chunk) # db_embeddings s\<rparr>"
    "c_start chunk = fst (snd row)" "c_end chunk = fst (snd (snd row))" "c_vector chunk = snd (snd (snd row))"
    "c_start chunk < c_end chunk" "c_end chunk \<le> length content" "vector_ok (wk_dimensions w) (c_vector chunk)"
proof -
  obtain i a b v where row: "row = (i, a, b, v)" by (cases row)
  from assms show ?thesis
    by (auto simp: insert_chunk_def row tx_runs split: option.splits
        intro!: that [where chunk = "\<lparr>c_start = a, c_end = b, c_vector = v\<rparr>"])
qed

text \<open>The rows of a published document, last chunk first.\<close>

definition chunk_rows :: "uuid \<Rightarrow> string \<Rightarrow> nat \<Rightarrow> (nat \<times> nat \<times> real list) list
    \<Rightarrow> ((uuid \<times> string \<times> nat) \<times> chunk) list" where
  "chunk_rows rid gen n chunks = rev (map (\<lambda>(i, a, b, v). ((rid, gen, i), \<lparr>c_start = a, c_end = b, c_vector = v\<rparr>))
     (enumerate n chunks))"

lemma insert_chunks_run:
  assumes "tx_each (insert_chunk w j content) (enumerate n chunks) s = Inr (u, t)"
    and "j_revision j = Some rid" "j_generation j = Some gen"
  shows "t = s\<lparr>db_embeddings := chunk_rows rid gen n chunks @ db_embeddings s\<rparr>
    \<and> (\<forall>(a, b, v)\<in>set chunks. a < b \<and> b \<le> length content \<and> vector_ok (wk_dimensions w) v)"
  using assms
proof (induction chunks arbitrary: n s)
  case Nil
  then show ?case by (simp add: chunk_rows_def)
next
  case (Cons x chunks)
  obtain a b v where x: "x = (a, b, v)" by (cases x)
  from Cons.prems(1) obtain s1 where 1: "insert_chunk w j content (n, x) s = Inr ((), s1)"
    and 2: "tx_each (insert_chunk w j content) (enumerate (Suc n) chunks) s1 = Inr (u, t)"
    by (auto simp: tx_runs)
  from 1 have s1: "s1 = s\<lparr>db_embeddings := ((rid, gen, n), \<lparr>c_start = a, c_end = b, c_vector = v\<rparr>) # db_embeddings s\<rparr>"
    and ok: "a < b" "b \<le> length content" "vector_ok (wk_dimensions w) v"
    using Cons.prems(2,3) by (auto simp: insert_chunk_def x tx_runs)
  from Cons.IH [OF 2 Cons.prems(2,3)] s1 ok show ?case by (auto simp: chunk_rows_def x)
qed

lemma retained_content_Some:
  assumes "retained_content rid s = Some text"
  obtains k r row where "rid = Some k" "map_of (db_revisions s) k = Some r" "r_content r = text"
    "map_of (db_memories s) (r_memory r) = Some row" "m_deleted_at row = None"
  using assms by (auto simp: retained_content_def split: option.splits if_splits)

text \<open>Replacing the rows of one revision and generation.\<close>

lemma republish_run:
  assumes s2: "drop_embeddings (Some rid) (j_generation j) s = Inr ((), s2)"
    and s3: "tx_each (insert_chunk w j content) (enumerate 0 chunks) s2 = Inr ((), s3)"
    and rid: "j_revision j = Some rid"
  shows "(\<exists>e. s3 = s\<lparr>db_embeddings := e\<rparr> \<and> (\<forall>(k, x)\<in>set e. fst k = rid \<or> (k, x) \<in> set (db_embeddings s)))
    \<and> (chunks \<noteq> [] \<longrightarrow> (\<exists>gen. j_generation j = Some gen \<and> s3 = s\<lparr>db_embeddings :=
          chunk_rows rid gen 0 chunks @ t_delete (\<lambda>(r, g, n) x. rid = r \<and> gen = g) (db_embeddings s)\<rparr>
          \<and> (\<forall>(x, y, v)\<in>set chunks. x < y \<and> y \<le> length content \<and> vector_ok (wk_dimensions w) v)))"
proof -
  have s2': "s2 = s\<lparr>db_embeddings := t_delete (\<lambda>(r, g, n) x. rid = r \<and> j_generation j = Some g) (db_embeddings s)\<rparr>"
    using s2 by (auto simp: drop_embeddings_def)
  show ?thesis
  proof (cases "chunks = []")
    case True
    with s3 show ?thesis by (auto simp: s2')
  next
    case False
    then obtain gen where gen: "j_generation j = Some gen"
      using s3 by (cases chunks) (auto simp: tx_runs elim!: insert_chunk_run)
    from insert_chunks_run [OF s3 rid gen] have "s3 = s\<lparr>db_embeddings :=
          chunk_rows rid gen 0 chunks @ t_delete (\<lambda>(r, g, n) x. rid = r \<and> gen = g) (db_embeddings s)\<rparr>
        \<and> (\<forall>(x, y, v)\<in>set chunks. x < y \<and> y \<le> length content \<and> vector_ok (wk_dimensions w) v)"
      by (simp add: s2' gen)
    with gen show ?thesis by (auto simp: chunk_rows_def)
  qed
qed

text \<open>The whole effect of a publication that went through.\<close>

lemma publish_run:
  assumes run: "publish w c content chunks s = Inr (b, t)" and known: "known c s"
  shows "tends s t \<and> (\<not> owned c s \<longrightarrow> \<not> b \<and> t = s) \<and>
    (b \<longrightarrow> owned c s \<and> (\<exists>rid gen text. j_revision (snd c) = Some rid \<and> retained_content (Some rid) s = Some text
        \<and> (chunks \<noteq> [] \<longrightarrow> j_generation (snd c) = Some gen
            \<and> db_embeddings t = chunk_rows rid gen 0 chunks @ t_delete (\<lambda>(r, g, n) x. rid = r \<and> gen = g) (db_embeddings s)
            \<and> (\<forall>(x, y, v)\<in>set chunks. x < y \<and> y \<le> length content \<and> vector_ok (wk_dimensions w) v))
        \<and> (\<exists>j. map_of (db_jobs t) (fst c) = Some j \<and> j_state j = Ready)))"
proof (cases "owned c s")
  case False
  with run show ?thesis by (simp add: publish_def tx_runs tends.kept_refl)
next
  case own: True
  from run own obtain ok s1 where p: "policy_step w c True s = Inr (ok, s1)"
    and rest: "(if \<not> ok then tx_return False
          else if retained_content (j_revision (snd c)) s = None then tx_then (finish c JobCancelled) (tx_return False)
          else tx_then (drop_embeddings (j_revision (snd c)) (j_generation (snd c)))
              (tx_then (tx_each (insert_chunk w (snd c) content) (enumerate 0 chunks))
              (tx_then (finish c Ready) (tx_return True)))) s1 = Inr (b, t)"
    by (auto simp: publish_def tx_runs)
  note pol = policy_step_run [OF p own known]
  show ?thesis
  proof (cases "ok \<and> retained_content (j_revision (snd c)) s \<noteq> None")
    case False
    show ?thesis
    proof (cases ok)
      case True
      with False pol rest own known have "tends s t \<and> \<not> b" by (auto simp: tx_runs intro: finish_tends)
      with own show ?thesis by simp
    qed (use pol rest own in simp)
  next
    case True
    with pol have [simp]: "s1 = s" by simp
    from True obtain body where body: "retained_content (j_revision (snd c)) s = Some body" by blast
    then obtain rid r row where rid: "j_revision (snd c) = Some rid" and r: "map_of (db_revisions s) rid = Some r"
      by (rule retained_content_Some) blast
    obtain s2 s3 where s2: "drop_embeddings (Some rid) (j_generation (snd c)) s = Inr ((), s2)"
      and s3: "tx_each (insert_chunk w (snd c) content) (enumerate 0 chunks) s2 = Inr ((), s3)"
      and fin: "finish c Ready s3 = Inr ((), t)" and [simp]: "b"
      using rest True rid by (auto simp: tx_runs)
    note emb = republish_run [OF s2 s3 rid]
    from conjunct1 [OF emb] obtain e where e: "s3 = s\<lparr>db_embeddings := e\<rparr>" "\<forall>(k, x)\<in>set e. fst k = rid \<or> (k, x) \<in> set (db_embeddings s)"
      by blast
    have "tends s s3" using e r by (auto simp: tends_def sound_def persists_def indexed_def)
    moreover have own3: "owned c s3" "known c s3" using own known by (simp_all add: e owned_def known_def cong: option.case_cong)
    ultimately have "tends s t" using finish_tends [OF fin own3] tends.kept_trans by blast
    moreover have "\<exists>j. map_of (db_jobs t) (fst c) = Some j \<and> j_state j = Ready"
      using fin owned_row [OF own3(1)] by (auto simp: finish_def tx_runs)
    moreover have "db_embeddings t = db_embeddings s3" using fin by (auto simp: finish_def tx_runs)
    ultimately show ?thesis using own rid body conjunct2 [OF emb] by auto
  qed
qed

section \<open>Erasure\<close>

text \<open>The parts of an erasure outside the memory tables.\<close>

definition but_evaluations :: "db \<Rightarrow> db" where
  "but_evaluations s = s\<lparr>db_datasets := [], db_eval_results := [], db_eval_runs := [], db_eval_dependencies := []\<rparr>"

definition but_sources :: "db \<Rightarrow> db" where
  "but_sources s = s\<lparr>db_sources := [], db_source_revisions := [], db_attachments := []\<rparr>"

lemma but_evaluations_frame:
  "but_evaluations t = but_evaluations s \<Longrightarrow>
   t = s\<lparr>db_datasets := db_datasets t, db_eval_results := db_eval_results t,
         db_eval_runs := db_eval_runs t, db_eval_dependencies := db_eval_dependencies t\<rparr>"
  by (cases s; cases t) (simp add: but_evaluations_def)

lemma but_sources_frame:
  "but_sources t = but_sources s \<Longrightarrow>
   t = s\<lparr>db_sources := db_sources t, db_source_revisions := db_source_revisions t, db_attachments := db_attachments t\<rparr>"
  by (cases s; cases t) (simp add: but_sources_def)

lemma purge_evaluations_same: "stays (same but_evaluations) (purge_evaluation_dependencies m)"
proof -
  have "stays (same but_evaluations) (erase_dataset d st)" for d st
    by (auto simp: stays_def erase_dataset_def but_evaluations_def)
  then show ?thesis
    unfolding purge_evaluation_dependencies_def by (intro kept_part.kept_bind kept_part.kept_read kept_part.kept_each)
qed

lemma purge_source_same: "stays (same but_sources) (purge_source so)"
  by (auto simp: stays_def purge_source_def tx_runs but_sources_def)

lemma purge_sources_same: "stays (same but_sources) (tx_each purge_source sos)"
  by (rule kept_part.kept_each) (rule purge_source_same)

text \<open>After its turn a source keeps only revisions that something still cites.\<close>

definition cited :: "db \<Rightarrow> uuid \<Rightarrow> bool" where
  "cited s k \<longleftrightarrow> (\<exists>x r. (x, r) \<in> set (db_revisions s) \<and> r_source r = k)"

lemma list_ex_cited: "list_ex (\<lambda>(x, r). r_source r = k) (db_revisions s) \<longleftrightarrow> cited s k"
  by (force simp: list_ex_iff cited_def)

lemma sources_of_eq:
  "db_revisions t = db_revisions s \<Longrightarrow> db_source_revisions t = db_source_revisions s \<Longrightarrow> sources_of m t = sources_of m s"
  by (simp add: sources_of_def cong: if_cong option.case_cong)

lemma purge_source_effect:
  assumes "purge_source so s = Inr (u, t)"
  shows "db_revisions t = db_revisions s \<and> set (db_source_revisions t) =
      {(k, sr) \<in> set (db_source_revisions s). sr_source sr = so \<longrightarrow> cited s k}"
  using assms by (auto simp: purge_source_def tx_runs list_ex_cited uncited_def)

lemma purge_sources_effect:
  assumes "tx_each purge_source sos s = Inr (u, t)"
  shows "db_revisions t = db_revisions s \<and> set (db_source_revisions t) =
      {(k, sr) \<in> set (db_source_revisions s). sr_source sr \<in> set sos \<longrightarrow> cited s k}"
  using assms
proof (induction sos arbitrary: s)
  case Nil
  then show ?case by auto
next
  case (Cons so sos)
  from Cons.prems obtain s1 where 1: "purge_source so s = Inr ((), s1)" and 2: "tx_each purge_source sos s1 = Inr (u, t)"
    by (auto simp: tx_runs)
  from purge_source_effect [OF 1] have c: "cited s1 = cited s" by (auto simp: cited_def fun_eq_iff)
  from Cons.IH [OF 2] purge_source_effect [OF 1] c show ?case by auto
qed

definition erased_tables :: "uuid \<Rightarrow> db \<Rightarrow> db \<Rightarrow> bool" where
  "erased_tables m s t \<longleftrightarrow>
     db_memories t = t_update (\<lambda>k r. k = m) (\<lambda>r. r\<lparr>m_current := None, m_subject := None\<rparr>) (db_memories s)
   \<and> db_revisions t = t_delete (\<lambda>k r. r_memory r = m) (db_revisions s)
   \<and> db_embeddings t = t_delete (\<lambda>(rid, g, n) c. of_memory s m rid) (db_embeddings s)
   \<and> db_jobs t = t_update (\<lambda>k j. case j_revision j of None \<Rightarrow> False | Some rid \<Rightarrow> of_memory s m rid)
        (\<lambda>j. j\<lparr>j_revision := None\<rparr>) (db_jobs s)
   \<and> db_deletions t = t_update (\<lambda>k d. k = m)
        (\<lambda>d. d\<lparr>d_purged_at := (case d_purged_at d of Some x \<Rightarrow> Some x | None \<Rightarrow> Some (db_now s))\<rparr>) (db_deletions s)
   \<and> db_notes t = t_delete (\<lambda>k n. n_memory n = m) (db_notes s)
   \<and> db_connector_proposals t = t_delete (\<lambda>k x. x = m) (db_connector_proposals s)
   \<and> db_next t = db_next s \<and> db_operations t = db_operations s \<and> db_denials t = db_denials s
   \<and> db_receipts t = db_receipts s \<and> db_audit t = db_audit s \<and> access_view t = access_view s
   \<and> set (db_source_revisions t) = {(k, sr) \<in> set (db_source_revisions s).
        sr_source sr \<in> set (sources_of m s) \<longrightarrow> cited t k}"

lemma purge_memory_run:
  assumes "purge_memory space m s = Inr (u, t)"
  shows "erased_tables m s t"
proof -
  from assms obtain s1 s2 s3 s4 where 1: "purge_evaluation_dependencies m s = Inr ((), s1)"
    and 2: "purge_librarian_dependencies space m s1 = Inr ((), s2)"
    and 3: "purge_rows m s2 = Inr ((), s3)"
    and 4: "tx_each purge_source (sources_of m s2) s3 = Inr ((), s4)"
    and 5: "mark_purged m s4 = Inr ((), t)"
    by (auto simp: purge_memory_def tx_runs)
  obtain a b c d where s1: "s1 = s\<lparr>db_datasets := a, db_eval_results := b,
      db_eval_runs := c, db_eval_dependencies := d\<rparr>"
    by (rule that [OF but_evaluations_frame]) (use staysD [OF purge_evaluations_same 1] in simp)
  from 2 obtain pr de ob where s2: "s2 = s1\<lparr>db_proposals := pr, db_dependencies := de, db_observations := ob\<rparr>"
    by (auto simp: purge_librarian_dependencies_def Let_def)
  obtain so sr aa where s4: "s4 = s3\<lparr>db_sources := so, db_source_revisions := sr, db_attachments := aa\<rparr>"
    by (rule that [OF but_sources_frame]) (use staysD [OF purge_sources_same 4] in simp)
  have of: "of_memory s2 m = of_memory s m" "sources_of m s2 = sources_of m s"
    by (simp add: s1 s2 of_memory_def fun_eq_iff, rule sources_of_eq, simp_all add: s1 s2)
  have s3: "s3 = s2\<lparr>db_connector_proposals := t_delete (\<lambda>k x. x = m) (db_connector_proposals s2),
     db_notes := t_delete (\<lambda>k n. n_memory n = m) (db_notes s2),
     db_embeddings := t_delete (\<lambda>(rid, g, n) c. of_memory s2 m rid) (db_embeddings s2),
     db_jobs := t_update (\<lambda>k j. case j_revision j of None \<Rightarrow> False | Some rid \<Rightarrow> of_memory s2 m rid)
       (\<lambda>j. j\<lparr>j_revision := None\<rparr>) (db_jobs s2),
     db_memories := t_update (\<lambda>k r. k = m) (\<lambda>r. r\<lparr>m_current := None, m_subject := None\<rparr>) (db_memories s2),
     db_revisions := t_delete (\<lambda>k r. r_memory r = m) (db_revisions s2)\<rparr>"
    using 3 by (simp add: purge_rows_def)
  from purge_sources_effect [OF 4] have src: "set (db_source_revisions s4) =
      {(k, sr) \<in> set (db_source_revisions s). sr_source sr \<in> set (sources_of m s) \<longrightarrow> cited s3 k}"
    unfolding of by (simp add: s3 s2 s1)
  have t: "t = s4\<lparr>db_deletions := t_update (\<lambda>k d. k = m)
     (\<lambda>d. d\<lparr>d_purged_at := (case d_purged_at d of Some x \<Rightarrow> Some x | None \<Rightarrow> Some (db_now s4))\<rparr>) (db_deletions s4)\<rparr>"
    using 5 by (simp add: mark_purged_def)
  have c: "cited t = cited s3" by (simp add: cited_def fun_eq_iff t s4)
  have src': "set (db_source_revisions t) = {(k, sr) \<in> set (db_source_revisions s).
        sr_source sr \<in> set (sources_of m s) \<longrightarrow> cited t k}"
    unfolding c src [symmetric] by (simp add: t)
  show ?thesis
    unfolding erased_tables_def
    by (intro conjI src'; simp only: t s4 s3 of; simp add: s2 s1 access_view_def cong: option.case_cong)
qed

text \<open>What an erasure leaves alone beside the tables above.\<close>

lemma map_of_t_delete_other: "(\<And>r. \<not> p k r) \<Longrightarrow> map_of (t_delete p t) k = map_of t k"
  by (induction t) (auto simp: t_delete_def)

lemma erase_datasets_spare:
  "tx_each (\<lambda>d. erase_dataset d st) ds s = Inr (u, t) \<Longrightarrow> k \<notin> set ds \<Longrightarrow>
   map_of (db_datasets t) k = map_of (db_datasets s) k"
  by (induction ds arbitrary: s) (auto simp: tx_runs erase_dataset_def option.map_ident)

text \<open>A source stays while it is not asked for or one of its revisions stays; so do cited attachments.\<close>

definition sourced :: "db \<Rightarrow> uuid \<Rightarrow> bool" where
  "sourced s k \<longleftrightarrow> (\<exists>x sr. (x, sr) \<in> set (db_source_revisions s) \<and> sr_source sr = k)"

lemma purge_source_spares:
  assumes "purge_source so s = Inr (u, t)"
  shows "k \<noteq> so \<or> sourced t k \<Longrightarrow> map_of (db_sources t) k = map_of (db_sources s) k"
    and "map_of (db_attachments s) k = Some a \<Longrightarrow> cited s (at_revision a) \<Longrightarrow> map_of (db_attachments t) k = Some a"
proof -
  show "map_of (db_sources t) k = map_of (db_sources s) k" if "k \<noteq> so \<or> sourced t k"
    using assms that
    by (auto simp: purge_source_def tx_runs sourced_def list_ex_iff case_prod_beta intro!: map_of_t_delete_other; force)
  have stays: "map_of xs k = Some a \<Longrightarrow> \<not> p k a \<Longrightarrow> map_of (t_delete p xs) k = Some a" for p and xs :: "(uuid, attachment) table"
    by (induction xs) (auto simp: t_delete_def split: if_splits)
  show "map_of (db_attachments t) k = Some a" if "map_of (db_attachments s) k = Some a" "cited s (at_revision a)"
    using assms that by (auto simp: purge_source_def tx_runs uncited_def list_ex_cited intro!: stays split: option.split)
qed

lemma purge_sources_spare:
  assumes "tx_each purge_source sos s = Inr (u, t)"
  shows "k \<notin> set sos \<or> sourced t k \<Longrightarrow> map_of (db_sources t) k = map_of (db_sources s) k"
    and "map_of (db_attachments s) k = Some a \<Longrightarrow> cited s (at_revision a) \<Longrightarrow> map_of (db_attachments t) k = Some a"
proof -
  have "(k \<notin> set sos \<or> sourced t k \<longrightarrow> map_of (db_sources t) k = map_of (db_sources s) k) \<and>
      (map_of (db_attachments s) k = Some a \<longrightarrow> cited s (at_revision a) \<longrightarrow> map_of (db_attachments t) k = Some a)"
    using assms
  proof (induction sos arbitrary: s)
    case (Cons so sos)
    from Cons.prems obtain s1 where 1: "purge_source so s = Inr ((), s1)" and 2: "tx_each purge_source sos s1 = Inr (u, t)"
      by (auto simp: tx_runs)
    have c: "cited s1 = cited s" using purge_source_effect [OF 1] by (auto simp: cited_def fun_eq_iff)
    have "sourced t k \<Longrightarrow> sourced s1 k" using purge_sources_effect [OF 2] by (auto simp: sourced_def)
    then show ?case using Cons.IH [OF 2] purge_source_spares [OF 1, of k] c by auto
  qed simp
  then show "k \<notin> set sos \<or> sourced t k \<Longrightarrow> map_of (db_sources t) k = map_of (db_sources s) k"
    and "map_of (db_attachments s) k = Some a \<Longrightarrow> cited s (at_revision a) \<Longrightarrow> map_of (db_attachments t) k = Some a"
    by blast+
qed

text \<open>The tables that an erasure has no part in.\<close>

definition bystanders where
  "bystanders s = (db_tenant s, db_importing s, db_settings s, db_runs s, db_blocks s, db_block_revisions s, db_capture_events s,
     db_aliases s, db_wb_settings s, db_wb_events s, db_callbacks s, db_spaces s, db_turn s, db_generations s, db_model_receipts s)"

lemma purge_memory_spares:
  assumes "purge_memory space m s = Inr (u, t)"
  shows "(k, m) \<notin> set (db_eval_dependencies s) \<Longrightarrow> map_of (db_datasets t) k = map_of (db_datasets s) k"
    and "(k, m) \<notin> set (db_dependencies s) \<Longrightarrow> map_of (db_proposals t) k = map_of (db_proposals s) k"
    and "k \<notin> set (sources_of m s) \<or> sourced t k \<Longrightarrow> map_of (db_sources t) k = map_of (db_sources s) k"
    and "map_of (db_attachments s) k = Some a \<Longrightarrow> cited t (at_revision a) \<Longrightarrow> map_of (db_attachments t) k = Some a"
    and "set (db_observations t) = {(k, x) \<in> set (db_observations s). x \<noteq> m}"
    and "bystanders t = bystanders s"
proof -
  from assms obtain s1 s2 s3 s4 where 1: "purge_evaluation_dependencies m s = Inr ((), s1)"
    and 2: "purge_librarian_dependencies space m s1 = Inr ((), s2)"
    and 3: "purge_rows m s2 = Inr ((), s3)"
    and 4: "tx_each purge_source (sources_of m s2) s3 = Inr ((), s4)"
    and 5: "mark_purged m s4 = Inr ((), t)"
    by (auto simp: purge_memory_def tx_runs)
  from 2 obtain pr de ob where s2: "s2 = s1\<lparr>db_proposals := pr, db_dependencies := de, db_observations := ob\<rparr>"
    and ob: "ob = t_delete (\<lambda>k m'. m' = m) (db_observations s1)"
    and pr: "pr = t_update (\<lambda>k r. k \<in> set (map fst (filter (\<lambda>(p, m'). m' = m) (db_dependencies s1))) \<and> lp_space r = space)
      (\<lambda>r. r\<lparr>lp_state := ProposalInvalidated, lp_suggestion := None, lp_version := lp_version r + 1,
             lp_previous := None, lp_applied := None, lp_applied_version := None\<rparr>) (db_proposals s1)"
    by (auto simp: purge_librarian_dependencies_def Let_def)
  obtain ea eb ec ed where s1: "s1 = s\<lparr>db_datasets := ea, db_eval_results := eb, db_eval_runs := ec, db_eval_dependencies := ed\<rparr>"
    by (rule that [OF but_evaluations_frame]) (use staysD [OF purge_evaluations_same 1] in simp)
  obtain so sr aa where s4: "s4 = s3\<lparr>db_sources := so, db_source_revisions := sr, db_attachments := aa\<rparr>"
    by (rule that [OF but_sources_frame]) (use staysD [OF purge_sources_same 4] in simp)
  have of: "sources_of m s2 = sources_of m s" by (rule sources_of_eq) (simp_all add: s1 s2)
  have t3: "db_datasets s3 = db_datasets s2" "db_proposals s3 = db_proposals s2" "db_sources s3 = db_sources s2"
    "db_attachments s3 = db_attachments s2" "db_observations s3 = db_observations s2" "bystanders s3 = bystanders s2"
    using 3 by (auto simp: purge_rows_def bystanders_def)
  have t5: "db_datasets t = db_datasets s4" "db_proposals t = db_proposals s4" "db_sources t = db_sources s4"
    "db_attachments t = db_attachments s4" "db_observations t = db_observations s4" "bystanders t = bystanders s4"
    "sourced t = sourced s4" "cited t = cited s4"
    using 5 unfolding mark_purged_def by (auto simp: bystanders_def sourced_def [abs_def] cited_def [abs_def])
  have cited: "cited s4 = cited s3"
    using purge_sources_effect [OF 4] by (simp add: cited_def fun_eq_iff)
  show "map_of (db_datasets t) k = map_of (db_datasets s) k" if "(k, m) \<notin> set (db_eval_dependencies s)"
    using 1 erase_datasets_spare [of DsInvalidated _ s "()" s1 k] that
    by (force simp: purge_evaluation_dependencies_def tx_runs t5 s4 t3 s2)
  show "map_of (db_proposals t) k = map_of (db_proposals s) k" if "(k, m) \<notin> set (db_dependencies s)"
    using that by (auto simp: t5 s4 t3 s2 pr s1 option.map_ident intro!: map_option_idI)
  show "map_of (db_sources t) k = map_of (db_sources s) k" if "k \<notin> set (sources_of m s) \<or> sourced t k"
    using purge_sources_spare(1) [OF 4, of k, unfolded of] that unfolding t5 by (simp add: t3 s2 s1)
  show "map_of (db_attachments t) k = Some a" if "map_of (db_attachments s) k = Some a" "cited t (at_revision a)"
    using purge_sources_spare(2) [OF 4, of k a] that unfolding t5 cited by (simp add: t3 s2 s1)
  show "set (db_observations t) = {(k, x) \<in> set (db_observations s). x \<noteq> m}"
    unfolding t5 s4 by (auto simp: t3 s2 s1 ob)
  have "bystanders s4 = bystanders s3" by (simp add: s4 bystanders_def)
  then show "bystanders t = bystanders s" by (simp add: t5 t3) (simp add: s2 s1 bystanders_def)
qed

lemma purge_memory_tends:
  assumes run: "purge_memory space m s = Inr (u, t)" and del: "is_deleted s m"
  shows "tends s t"
proof -
  note e = purge_memory_run [OF run, unfolded erased_tables_def]
  have R: "db_revisions t = t_delete (\<lambda>k r. r_memory r = m) (db_revisions s)"
    and E: "db_embeddings t = t_delete (\<lambda>(rid, g, n) c. of_memory s m rid) (db_embeddings s)"
    and J: "db_jobs t = t_update (\<lambda>k j. case j_revision j of None \<Rightarrow> False | Some rid \<Rightarrow> of_memory s m rid)
        (\<lambda>j. j\<lparr>j_revision := None\<rparr>) (db_jobs s)"
    using e by blast+
  have dist: "distinct (map fst (db_revisions s))" if "wf s"
    using that by (simp add: wf_def wf_keys_def keys_below_def)
  have revs: "map_of (db_revisions t) k = Some r \<longleftrightarrow> map_of (db_revisions s) k = Some r \<and> r_memory r \<noteq> m"
    if "wf s" for k r
  proof -
    have "map_of (db_revisions t) k = (case map_of (db_revisions s) k of None \<Rightarrow> None
        | Some r \<Rightarrow> if r_memory r = m then None else Some r)"
      unfolding R by (rule map_of_t_delete [OF dist [OF that]])
    then show ?thesis by (cases "map_of (db_revisions s) k") auto
  qed
  have mems: "map_of (db_memories t) k = (if k = m
      then map_option (\<lambda>r. r\<lparr>m_current := None, m_subject := None\<rparr>) (map_of (db_memories s) m)
      else map_of (db_memories s) k)" for k
    using e by (auto simp: option.map_ident intro!: map_option_idI)
  have keep: "\<exists>r'. map_of (db_memories t) k = Some r' \<and> m_space r' = m_space r \<and> m_deleted_at r' = m_deleted_at r"
    if "map_of (db_memories s) k = Some r" for k r
    using that by (auto simp: mems)
  have prior: "\<exists>r. map_of (db_memories s) k = Some r \<and> m_deleted_at r' = m_deleted_at r"
    if "map_of (db_memories t) k = Some r'" for k r'
    using that by (auto simp: mems split: if_splits)
  have O: "db_operations t = db_operations s" using e by blast
  have wft: "wf t" if wf: "wf s"
  proof -
    note dis = dist [OF wf] and revs = revs [OF wf]
    have "wf_keys t"
      using wf e distinct_t_delete [OF dis] by (auto simp: wf_def wf_keys_def keys_below_def)
    moreover have "wf_revisions t"
    proof -
      have "distinct (map (\<lambda>(k, r). (r_memory r, r_version r)) (db_revisions t))"
        using wf e by (simp add: wf_def wf_revisions_def t_delete_def distinct_map_filter)
      with wf show ?thesis unfolding wf_def wf_revisions_def revs mems by auto
    qed
    moreover have "wf_current t"
      unfolding wf_current_def
    proof (intro allI impI conjI)
      fix k x assume x: "map_of (db_memories t) k = Some x"
      show "m_current x = None \<Longrightarrow> m_deleted_at x \<noteq> None"
        using x live_has_current [OF wf, of k] del by (auto simp: mems is_deleted_def split: if_splits)
      fix rid assume c: "m_current x = Some rid"
      with x have k: "k \<noteq> m" "map_of (db_memories s) k = Some x" by (auto simp: mems split: if_splits)
      from current_newest [OF wf k(2) c] k(1)
      show "\<exists>r. map_of (db_revisions t) rid = Some r \<and> r_memory r = k \<and>
          (\<forall>j r'. map_of (db_revisions t) j = Some r' \<and> r_memory r' = k \<longrightarrow> r_version r' \<le> r_version r)"
        unfolding revs by auto
    qed
    moreover have "wf_operations t"
    proof -
      have "\<exists>row. map_of (db_memories t) (o_memory op) = Some row \<and> m_space row = o_space op
           \<and> (m_deleted_at row \<noteq> None \<and> live_op (o_state op) \<longrightarrow> o_kind op = Delete)"
        if "map_of (db_operations t) k = Some op" for k op
      proof -
        from that have "map_of (db_operations s) k = Some op" by (simp add: O)
        from operation_owner [OF wf this] obtain row where row: "map_of (db_memories s) (o_memory op) = Some row"
          "m_space row = o_space op" "m_deleted_at row \<noteq> None \<and> live_op (o_state op) \<longrightarrow> o_kind op = Delete" by blast
        from keep [OF row(1)] row(2,3) show ?thesis by auto
      qed
      moreover have "\<exists>op. map_of (db_operations t) (j_operation j) = Some op \<and> o_space op = j_space j
           \<and> (o_kind op = Delete \<longleftrightarrow> j_kind j = Purge)
           \<and> (live_job (j_state j) \<longrightarrow> (\<forall>row. map_of (db_memories t) (o_memory op) = Some row \<and> m_deleted_at row \<noteq> None
                \<longrightarrow> j_kind j = Purge))"
        if j: "map_of (db_jobs t) k = Some j" for k j
      proof -
        from j obtain j0 where j0: "map_of (db_jobs s) k = Some j0" "j_operation j = j_operation j0"
          "j_space j = j_space j0" "j_kind j = j_kind j0" "j_state j = j_state j0"
          by (auto simp: J split: if_splits)
        from job_owner [OF wf j0(1)] obtain op where "map_of (db_operations s) (j_operation j0) = Some op"
          "o_space op = j_space j0" "o_kind op = Delete \<longleftrightarrow> j_kind j0 = Purge"
          and live: "live_job (j_state j0) \<longrightarrow> (\<forall>row. map_of (db_memories s) (o_memory op) = Some row \<and> m_deleted_at row \<noteq> None
                \<longrightarrow> j_kind j0 = Purge)" by blast
        moreover have "j_kind j0 = Purge" if "live_job (j_state j0)" "map_of (db_memories t) (o_memory op) = Some row"
            "m_deleted_at row \<noteq> None" for row
          using live that(1) prior [OF that(2)] that(3) by auto
        ultimately show ?thesis by (auto simp: j0 O)
      qed
      ultimately show ?thesis by (simp add: wf_operations_def)
    qed
    moreover have "wf_deleted t"
    proof -
      have "(\<exists>row. map_of (db_memories t) k = Some row \<and> m_deleted_at row \<noteq> None) \<longleftrightarrow>
          (\<exists>row. map_of (db_memories s) k = Some row \<and> m_deleted_at row \<noteq> None)" for k
        using keep prior by metis
      moreover have "\<exists>op. map_of (db_operations t) (d_operation d) = Some op \<and> o_memory op = k \<and> o_kind op = Delete"
        if "map_of (db_deletions t) k = Some d" for k d
        using that e deletion_operation [OF wf, of k] by (auto split: if_splits)
      ultimately show ?thesis using wf e by (auto simp: wf_def wf_deleted_def)
    qed
    ultimately show ?thesis by (simp add: wf_def)
  qed
  have ind: "indexed t" if wf: "wf s" and "indexed s"
  proof -
    have "map_of (db_revisions t) (fst k) \<noteq> None" if k: "(k, c) \<in> set (db_embeddings t)" for k c
    proof -
      obtain rid g n where kk: "k = (rid, g, n)" by (cases k)
      with k have old: "(k, c) \<in> set (db_embeddings s)" and "\<not> of_memory s m rid" by (auto simp: E)
      from old \<open>indexed s\<close> obtain r where r: "map_of (db_revisions s) rid = Some r"
        by (auto simp: indexed_def kk)
      with \<open>\<not> of_memory s m rid\<close> have "map_of (db_revisions t) rid = Some r"
        using revs [OF wf] by (simp add: of_memory_def)
      then show ?thesis by (simp add: kk)
    qed
    then show ?thesis by (auto simp: indexed_def)
  qed
  have "persists s t" if wf: "wf s"
  proof -
    have "revises_live s t" unfolding revises_live_def using revs [OF wf] by blast
    moreover have "\<exists>r'. map_of (db_memories t) k = Some r' \<and> outlives r r'" if "map_of (db_memories s) k = Some r" for k r
      using that by (auto simp: mems outlives_def)
    moreover have "same_jobs (db_jobs s) (db_jobs t)"
      by (simp add: J same_jobs_update job_identity_def)
    ultimately show ?thesis using e by (simp add: persists_def)
  qed
  with wft ind show ?thesis by (simp add: tends_def sound_def)
qed

end
