(* ===== verification/Worker_Properties.thy ===== *)
theory Worker_Properties
  imports Worker_Theorems Memory_Examples
begin

text \<open>
  The properties of the worker: fencing by leases, exact publication, erasure, and that a turn of
  the worker leaves no job behind under its own lease.
\<close>

section \<open>Claims after an erasure\<close>

lemma purge_run:
  assumes run: "purge c s = Inr (b, t)" and known: "known c s"
  shows "tends s t \<and> (\<not> owned c s \<longrightarrow> \<not> b \<and> t = s) \<and>
    (owned c s \<longrightarrow> (\<exists>j. map_of (db_jobs t) (fst c) = Some j \<and> j_state j \<noteq> Leased \<and> j_lease j = None)) \<and>
    (b \<longrightarrow> owned c s \<and> (\<exists>op u. map_of (db_operations s) (j_operation (snd c)) = Some op
        \<and> is_deleted s (o_memory op) \<and> erased_tables (o_memory op) s u \<and> finish c Ready u = Inr ((), t)
        \<and> purge_memory (j_space (snd c)) (o_memory op) s = Inr ((), u)))"
proof (cases "owned c s")
  case False
  with run show ?thesis by (simp add: purge_def tx_runs tends.kept_refl)
next
  case own: True
  let ?gone = "\<lambda>op. case map_of (db_memories s) (o_memory op) of None \<Rightarrow> True | Some r \<Rightarrow> m_deleted_at r = None"
  from run own obtain op where op: "map_of (db_operations s) (j_operation (snd c)) = Some op"
    and rest: "(if ?gone op then tx_then (finish c JobCancelled) (tx_return False)
          else tx_then (purge_memory (j_space (snd c)) (o_memory op)) (tx_then (finish c Ready) (tx_return True))) s = Inr (b, t)"
    by (auto simp: purge_def tx_runs split: option.splits)
  have fin: "\<exists>j. map_of (db_jobs v) (fst c) = Some j \<and> j_state j \<noteq> Leased \<and> j_lease j = None"
    if "finish c st u = Inr ((), v)" "owned c u" "st \<noteq> Leased" for st u v
    using that owned_row [of c u] by (auto simp: finish_def tx_runs)
  show ?thesis
  proof (cases "?gone op")
    case True
    with rest have "finish c JobCancelled s = Inr ((), t)" "\<not> b" by (auto simp: tx_runs)
    with fin [of JobCancelled s t] own finish_tends [OF _ own known, of JobCancelled "()" t] show ?thesis by simp
  next
    case False
    with rest obtain u where u: "purge_memory (j_space (snd c)) (o_memory op) s = Inr ((), u)"
      and f: "finish c Ready u = Inr ((), t)" and b
      by (auto simp: tx_runs)
    from False have del: "is_deleted s (o_memory op)" by (simp add: is_deleted_def split: option.splits)
    note e = purge_memory_run [OF u] and su = purge_memory_tends [OF u del]
    from own known obtain x where x: "map_of (db_jobs s) (fst c) = Some x" "job_identity x = job_identity (snd c)"
      by (auto simp: known_def)
    define y where "y = (if case j_revision x of None \<Rightarrow> False | Some rid \<Rightarrow> of_memory s (o_memory op) rid
      then x\<lparr>j_revision := None\<rparr> else x)"
    have y: "map_of (db_jobs u) (fst c) = Some y" and now: "db_now u = db_now s"
      using e x by (simp_all add: erased_tables_def access_view_def y_def)
    have same: "j_space y = j_space x" "j_state y = j_state x" "j_lease y = j_lease x"
      "j_lease_until y = j_lease_until x" "job_identity y = job_identity x"
      by (simp_all add: y_def job_identity_def)
    have ownu: "owned c u" "known c u"
      using own x by (auto simp: owned_def known_def y now same cong: option.case_cong)
    from finish_tends [OF f ownu] su have "tends s t" using tends.kept_trans by blast
    with fin [OF f ownu(1)] own op del e f u show ?thesis by auto
  qed
qed

text \<open>No revision, note, title, embedding or exclusively cited source revision of the memory is stored.\<close>

definition erased :: "uuid \<Rightarrow> db \<Rightarrow> bool" where
  "erased m s \<longleftrightarrow>
     (\<forall>(k, r)\<in>set (db_revisions s). r_memory r \<noteq> m)
   \<and> (\<forall>(k, n)\<in>set (db_notes s). n_memory n \<noteq> m)
   \<and> (\<forall>r. map_of (db_memories s) m = Some r \<longrightarrow> m_current r = None \<and> m_subject r = None)
   \<and> (case map_of (db_deletions s) m of None \<Rightarrow> False | Some d \<Rightarrow> d_purged_at d \<noteq> None)"

lemma erased_tables_erased:
  assumes "erased_tables m s t" "map_of (db_deletions s) m \<noteq> None"
  shows "erased m t"
  using assms by (auto simp: erased_tables_def erased_def split: option.split)

lemma finish_frame:
  "finish c st s = Inr (u, t) \<Longrightarrow> t = s\<lparr>db_jobs := db_jobs t, db_operations := db_operations t\<rparr>"
  by (auto simp: finish_def tx_runs)

section \<open>A turn of the worker\<close>

definition released :: "claimed \<Rightarrow> db \<Rightarrow> bool" where
  "released c t \<longleftrightarrow> (\<exists>j. map_of (db_jobs t) (fst c) = Some j \<and> j_state j \<noteq> Leased \<and> j_lease j = None)"

lemma owned_same: "db_jobs t = db_jobs s \<Longrightarrow> db_now t = db_now s \<Longrightarrow> owned c t = owned c s"
  by (simp add: owned_def cong: option.case_cong)

lemma policy_step_releases:
  "policy_step w c finishing s = Inr (False, t) \<Longrightarrow> owned c s \<Longrightarrow> released c t"
  by (auto simp: policy_step_def finish_def postpone_def unlease_def released_def tx_runs split: if_splits
      dest!: owned_row)

lemma policy_step_allows: "policy_step w c finishing s = Inr (True, t) \<Longrightarrow> t = s"
  by (auto simp: policy_step_def tx_runs split: if_splits)

lemma finish_releases: "finish c st s = Inr (u, t) \<Longrightarrow> owned c s \<Longrightarrow> st \<noteq> Leased \<Longrightarrow> released c t"
  by (auto simp: finish_def released_def tx_runs dest!: owned_row)

lemma process_begin_settles:
  assumes "process_begin w c s = Inr (r, t)" "owned c s"
  shows "case r of None \<Rightarrow> released c t | Some body \<Rightarrow> owned c t \<and> db_now t = db_now s"
proof -
  from assms obtain ok s1 where p: "policy_step w c False s = Inr (ok, s1)"
    and rest: "(if \<not> ok then tx_return None
          else tx_bind (tx_read (retained_content (j_revision (snd c)))) (\<lambda>content.
               case content of
                 None \<Rightarrow> tx_then (finish c JobCancelled) (tx_return None)
               | Some text \<Rightarrow>
                   tx_then (update_operation (j_operation (snd c)) (\<lambda>op. op\<lparr>o_state := Indexing\<rparr>))
                           (tx_return (Some text)))) s1 = Inr (r, t)"
    by (auto simp: process_begin_def tx_runs)
  show ?thesis
  proof (cases ok)
    case False
    with p rest policy_step_releases [of w c False s t] assms(2) show ?thesis by simp
  next
    case True
    with p have "s1 = s" using policy_step_allows [of w c False s s1] by simp
    with rest True assms(2) finish_releases [of c JobCancelled s] show ?thesis
      by (auto simp: tx_runs owned_def split: option.splits)
  qed
qed

lemma publish_releases:
  assumes "publish w c content chunks s = Inr (b, t)" "owned c s"
  shows "released c t"
proof -
  from assms obtain ok s1 where p: "policy_step w c True s = Inr (ok, s1)"
    and rest: "(if \<not> ok then tx_return False
          else if retained_content (j_revision (snd c)) s = None then tx_then (finish c JobCancelled) (tx_return False)
          else tx_then (drop_embeddings (j_revision (snd c)) (j_generation (snd c)))
              (tx_then (tx_each (insert_chunk w (snd c) content) (enumerate 0 chunks))
              (tx_then (finish c Ready) (tx_return True)))) s1 = Inr (b, t)"
    by (auto simp: publish_def tx_runs)
  show ?thesis
  proof (cases ok)
    case False
    with p rest policy_step_releases [of w c True s t] assms(2) show ?thesis by simp
  next
    case True
    with p have s1: "s1 = s" using policy_step_allows [of w c True s s1] by simp
    have jobs: "stays (same (\<lambda>s. (db_jobs s, db_now s))) (insert_chunk w (snd c) content row)" for row
      by (auto simp: stays_def elim!: insert_chunk_run)
    show ?thesis
    proof (cases "retained_content (j_revision (snd c)) s = None")
      case None: True
      with rest s1 True assms(2) show ?thesis by (auto simp: tx_runs intro: finish_releases)
    next
      case False
      with rest s1 True obtain s2 s3 where s2: "drop_embeddings (j_revision (snd c)) (j_generation (snd c)) s = Inr ((), s2)"
        and s3: "tx_each (insert_chunk w (snd c) content) (enumerate 0 chunks) s2 = Inr ((), s3)"
        and fin: "finish c Ready s3 = Inr ((), t)"
        by (auto simp: tx_runs)
      from staysD [OF kept_part.kept_each [OF jobs] s3] s2 have "db_jobs s3 = db_jobs s" "db_now s3 = db_now s"
        by (auto simp: drop_embeddings_def)
      with assms(2) have "owned c s3" using owned_same by blast
      with fin show ?thesis by (rule finish_releases) simp
    qed
  qed
qed

lemma fail_releases: "fail w c e s = Inr (u, t) \<Longrightarrow> owned c s \<Longrightarrow> released c t"
  by (auto simp: fail_def Let_def postpone_def unlease_def released_def tx_runs split: if_splits dest!: owned_row)

lemma fail_returns: "\<exists>t. fail w c e s = Inr ((), t)"
  by (simp add: fail_def Let_def postpone_def tx_bind_at tx_then_at)

lemma commit_Inr: "commit m s = (Inr a, t) \<longleftrightarrow> m s = Inr (a, t)"
  by (auto simp: commit_def split: sum.splits)

lemma commit_Inl: "commit m s = (Inl e, t) \<longleftrightarrow> m s = Inl e \<and> t = s"
  by (auto simp: commit_def split: sum.splits)

lemma commit_at [simp]:
  "m s = Inr (a, t) \<Longrightarrow> commit m s = (Inr a, t)" "m s = Inl e \<Longrightarrow> commit m s = (Inl e, s)"
  by (simp_all add: commit_def)

lemma commit_cases:
  obtains e where "m s = Inl e" "commit m s = (Inl e, s)" | a t where "m s = Inr (a, t)" "commit m s = (Inr a, t)"
  by (cases "m s") (auto simp: commit_def)

text \<open>The lease of a claim, read off the stored row: the independent reading of "this worker holds the job".\<close>

definition holds_lease :: "claimed \<Rightarrow> db \<Rightarrow> bool" where
  "holds_lease c s \<longleftrightarrow> (\<exists>j until. map_of (db_jobs s) (fst c) = Some j \<and> j_space j = j_space (snd c)
     \<and> j_state j = Leased \<and> j_lease j \<noteq> None \<and> j_lease j = j_lease (snd c)
     \<and> j_lease_until j = Some until \<and> db_now s < until)"

lemma owned_holds: "owned c s \<longleftrightarrow> holds_lease c s"
  by (auto simp: owned_def holds_lease_def split: option.splits)

lemma released_unheld: "released c t \<Longrightarrow> \<not> owned c t"
  by (auto simp: released_def owned_def)

lemma purge_releases:
  assumes run: "purge c s = Inr (b, t)" and own: "owned c s"
  shows "released c t"
proof -
  let ?gone = "\<lambda>op. case map_of (db_memories s) (o_memory op) of None \<Rightarrow> True | Some r \<Rightarrow> m_deleted_at r = None"
  from run own obtain op where op: "map_of (db_operations s) (j_operation (snd c)) = Some op"
    and rest: "(if ?gone op then tx_then (finish c JobCancelled) (tx_return False)
          else tx_then (purge_memory (j_space (snd c)) (o_memory op)) (tx_then (finish c Ready) (tx_return True))) s = Inr (b, t)"
    by (auto simp: purge_def tx_runs split: option.splits)
  show ?thesis
  proof (cases "?gone op")
    case True
    with rest own finish_releases [of c JobCancelled s "()" t] show ?thesis by (simp add: tx_runs)
  next
    case False
    with rest obtain u where u: "purge_memory (j_space (snd c)) (o_memory op) s = Inr ((), u)"
      and f: "finish c Ready u = Inr ((), t)"
      by (auto simp: tx_runs)
    note e = purge_memory_run [OF u]
    from owned_row [OF own] obtain x where x: "map_of (db_jobs s) (fst c) = Some x" by blast
    define y where "y = (if case j_revision x of None \<Rightarrow> False | Some rid \<Rightarrow> of_memory s (o_memory op) rid
      then x\<lparr>j_revision := None\<rparr> else x)"
    have "map_of (db_jobs u) (fst c) = Some y" "db_now u = db_now s"
      using e x by (simp_all add: erased_tables_def access_view_def y_def)
    moreover have "j_space y = j_space x" "j_state y = j_state x" "j_lease y = j_lease x" "j_lease_until y = j_lease_until x"
      by (simp_all add: y_def)
    ultimately have "owned c u" using own x by (auto simp: owned_def cong: option.case_cong)
    with f show ?thesis by (rule finish_releases) simp
  qed
qed

text \<open>A transaction under the claim settles the job, or finds the lease lost and changes nothing.\<close>

lemma unowned_begin: "\<not> owned c s \<Longrightarrow> process_begin w c s = Inr (None, s)"
  and unowned_publish: "\<not> owned c s \<Longrightarrow> publish w c content chunks s = Inr (False, s)"
  and unowned_purge: "\<not> owned c s \<Longrightarrow> purge c s = Inr (False, s)"
  and unowned_fail: "\<not> owned c s \<Longrightarrow> fail w c e s = Inr ((), s)"
  and unowned_renewal: "\<not> owned c s \<Longrightarrow> keep_lease w c s = Inr (False, s)"
  by (simp_all add: process_begin_def publish_def purge_def fail_def keep_lease_def tx_bind_at)

text \<open>\<open>keeping\<close>: the other transactions leave the claim its lease.\<close>

definition keeping :: "claimed \<Rightarrow> (gap \<Rightarrow> db \<Rightarrow> db) \<Rightarrow> bool" where
  "keeping c others \<longleftrightarrow> (\<forall>g u. owned c u \<longrightarrow> owned c (others g u))"

lemma purge_settles: "purge c s = Inr (b, t) \<Longrightarrow> \<not> owned c t \<and> (owned c s \<longrightarrow> released c t)"
  using purge_releases [of c s b t] unowned_purge [of c s] released_unheld [of c t] by (cases "owned c s") auto

lemma publish_settles:
  "publish w c content chunks s = Inr (b, t) \<Longrightarrow> \<not> owned c t \<and> (owned c s \<longrightarrow> released c t)"
  using publish_releases [of w c content chunks s b t] unowned_publish [of c s w content chunks] released_unheld [of c t]
  by (cases "owned c s") auto

lemma begin_settles:
  "process_begin w c s = Inr (None, t) \<Longrightarrow> \<not> owned c t \<and> (owned c s \<longrightarrow> released c t)"
  using process_begin_settles [of w c s None t] unowned_begin [of c s w] released_unheld [of c t]
  by (cases "owned c s") auto

lemma fail_settles: "fail w c e s = Inr (u, t) \<Longrightarrow> \<not> owned c t \<and> (owned c s \<longrightarrow> released c t)"
  using fail_releases [of w c e s u t] unowned_fail [of c s w e] released_unheld [of c t] by (cases "owned c s") auto

lemma process_settles:
  assumes "process w c others s = (r, t)"
  shows "(\<forall>b. r = Inr b \<longrightarrow> \<not> owned c t) \<and>
    (owned c s \<and> keeping c others \<longrightarrow> (case r of Inl e \<Rightarrow> owned c t | Inr b \<Rightarrow> released c t))"
proof (cases "j_kind (snd c) = Purge")
  case True
  with assms purge_settles [of c s _ t] show ?thesis
    by (cases r) (auto simp: process_def commit_Inr commit_Inl)
next
  case False
  show ?thesis
  proof (cases rule: commit_cases [of "process_begin w c" s])
    case (1 e)
    with assms False show ?thesis by (auto simp: process_def)
  next
    case (2 a s1)
    show ?thesis
    proof (cases a)
      case None
      with assms False 2 begin_settles [of w c s t] show ?thesis by (auto simp: process_def)
    next
      case (Some body)
      let ?s2 = "others DuringInference s1"
      have own: "owned c s1 \<and> owned c ?s2" if "owned c s" "keeping c others"
        using process_begin_settles [OF 2(1) that(1)] that(2) by (simp add: Some keeping_def)
      consider (stop) e where "r = Inl e" "t = s1 \<or> t = ?s2" | (publish) chunks where "commit (publish w c body chunks) ?s2 = (r, t)"
        using assms False 2 Some by (auto simp: process_def Let_def split: if_splits sum.splits)
      then show ?thesis
      proof cases
        case stop
        with own show ?thesis by auto
      next
        case publish
        with own publish_settles [of w c body chunks ?s2 _ t] show ?thesis
          by (cases r) (auto simp: commit_Inr commit_Inl)
      qed
    qed
  qed
qed

section \<open>Properties\<close>

lemma run_once_claims:
  assumes "run_once w b others s = (Some c, t)"
  obtains u where "claim w b s = Inr (Some c, u)" "leases w s u c"
    "(\<exists>x. process w c others (others AfterClaim u) = (Inr x, t))
     \<or> (\<exists>e v. process w c others (others AfterClaim u) = (Inl e, v) \<and> fail w c e (others BeforeFailure v) = Inr ((), t))"
proof (cases rule: commit_cases [of "claim w b" s])
  case (1 e)
  with assms show ?thesis by (simp add: run_once_def)
next
  case (2 a u)
  then obtain x where a: "a = Some x" using assms by (cases a) (simp_all add: run_once_def)
  let ?p = "\<lambda>x. process w x others (others AfterClaim u)"
  have x: "x = c" using 2 assms a by (cases "?p x") (auto simp: run_once_def split: sum.splits)
  have l: "leases w s u c" using claim_run [OF 2(1)] a x by simp
  obtain r v where p: "?p c = (r, v)" by (cases "?p c")
  have "snd (commit (fail w c e) v') = t \<longleftrightarrow> fail w c e v' = Inr ((), t)" for e v'
    using fail_returns [of w c e v'] by (auto simp: commit_def)
  with 2 assms a x p show ?thesis
    by (cases r) (auto simp: run_once_def intro: that [OF _ l])
qed

text \<open>
  C28. A turn of the worker ends without the lease it took, whatever the clock and the transactions of
  others do between its own: when \<open>run_once\<close> returns, its claim holds no lease (a publication, the
  policy, a vanished source, a failing embedder, a rejected chunk and a lost lease are all covered).
  If the others leave the lease to it, the claimed job is settled or queued again.
\<close>

theorem turn_releases_its_job:
  assumes "run_once w schedulable others s = (Some c, t)"
  shows "\<not> holds_lease c t \<and>
    (wf s \<and> (\<forall>g u. holds_lease c u \<longrightarrow> holds_lease c (others g u)) \<longrightarrow>
     (\<exists>j. map_of (db_jobs t) (fst c) = Some j \<and> j_state j \<noteq> Leased \<and> j_lease j = None))"
proof -
  from assms obtain u where l: "leases w s u c" and
    p: "(\<exists>x. process w c others (others AfterClaim u) = (Inr x, t))
     \<or> (\<exists>e v. process w c others (others AfterClaim u) = (Inl e, v) \<and> fail w c e (others BeforeFailure v) = Inr ((), t))"
    by (rule run_once_claims) blast
  have own: "owned c (others AfterClaim u)" if "wf s" "keeping c others"
    using leases_effect [OF l that(1)] that(2) by (simp add: keeping_def)
  from p have "\<not> owned c t \<and> (wf s \<and> keeping c others \<longrightarrow> released c t)"
  proof
    assume "\<exists>x. process w c others (others AfterClaim u) = (Inr x, t)"
    with own show ?thesis using process_settles by fastforce
  next
    assume "\<exists>e v. process w c others (others AfterClaim u) = (Inl e, v) \<and> fail w c e (others BeforeFailure v) = Inr ((), t)"
    then obtain e v where v: "process w c others (others AfterClaim u) = (Inl e, v)"
      and f: "fail w c e (others BeforeFailure v) = Inr ((), t)" by blast
    from fail_settles [OF f] process_settles [OF v] own show ?thesis by (auto simp: keeping_def)
  qed
  then show ?thesis by (simp add: owned_holds keeping_def released_def)
qed

text \<open>How a lease is lost: the job is gone or no longer leased, another lease was written, or time ran out.\<close>

definition lease_lost :: "claimed \<Rightarrow> db \<Rightarrow> bool" where
  "lease_lost c s \<longleftrightarrow>
     (case map_of (db_jobs s) (fst c) of
        None \<Rightarrow> True
      | Some j \<Rightarrow> j_state j \<noteq> Leased \<or> j_lease j \<noteq> j_lease (snd c)
          \<or> (case j_lease_until j of None \<Rightarrow> True | Some until \<Rightarrow> until \<le> db_now s))"

lemma lease_lost_unowned: "lease_lost c s \<Longrightarrow> \<not> owned c s"
  by (auto simp: lease_lost_def owned_def split: option.splits)

text \<open>A claim whose time has passed without a renewal is lost, and so is one whose job was claimed again.\<close>

lemma expired_lease_is_lost:
  assumes "wf s" and "claim w schedulable s = Inr (Some c, t)" and "db_jobs u = db_jobs t"
    and "db_now s + seconds (max 5 (min (wk_lease_seconds w) 3600)) \<le> db_now u"
  shows "lease_lost c u"
proof -
  have "leases w s t c" using claim_run [OF assms(2)] by simp
  then obtain j where j: "(fst c, j) \<in> set (db_jobs s)"
    and t: "db_jobs t = t_update (\<lambda>k j. k = fst c) (leased w (db_next s) (db_now s)) (db_jobs s)"
    unfolding leases_def by metis
  have "map_of (db_jobs s) (fst c) = Some j"
    using j assms(1) by (simp add: wf_def wf_keys_def keys_below_def)
  with assms(3,4) t show ?thesis by (simp add: lease_lost_def leased_def)
qed

lemma retaken_lease_is_lost:
  assumes "wf s" and "claim w schedulable s = Inr (Some c', t)" and "fst c' = fst c"
    and "j_lease (snd c) \<noteq> Some (db_next s)"
  shows "lease_lost c t"
proof -
  have "leases w s t c'" using claim_run [OF assms(2)] by simp
  then obtain j where j: "(fst c', j) \<in> set (db_jobs s)"
    and t: "db_jobs t = t_update (\<lambda>k j. k = fst c') (leased w (db_next s) (db_now s)) (db_jobs s)"
    unfolding leases_def by metis
  have "map_of (db_jobs s) (fst c') = Some j"
    using j assms(1) by (simp add: wf_def wf_keys_def keys_below_def)
  with assms(3,4) t show ?thesis by (simp add: lease_lost_def leased_def)
qed

text \<open>
  C29. A worker whose lease is lost is fenced. Once the claimed job is gone or no longer leased,
  carries another lease (another worker claimed it), or the lease ran out on the database's clock,
  beginning, publishing, purging, failing and renewing return without error and change nothing, and
  so does the whole processing of the claim.
\<close>

theorem stale_claim_is_inert:
  assumes "lease_lost c s"
  shows "process_begin w c s = Inr (None, s) \<and> publish w c content chunks s = Inr (False, s)
    \<and> purge c s = Inr (False, s) \<and> fail w c e s = Inr ((), s) \<and> keep_lease w c s = Inr (False, s)
    \<and> process w c others s = (Inr False, s)"
proof -
  note lost = lease_lost_unowned [OF assms]
  have "process w c others s = (Inr False, s)"
    by (simp add: process_def unowned_begin [OF lost] unowned_purge [OF lost])
  with lost show ?thesis
    by (simp add: unowned_begin unowned_publish unowned_purge unowned_fail unowned_renewal)
qed

text \<open>
  C7. Two workers never hold one job: a claim made while another lease is still valid takes a
  different job, and the other worker still owns its own afterwards.
\<close>

theorem claims_are_exclusive:
  assumes "wf s" and "owned c s" and "claim w schedulable s = Inr (Some c', t)"
  shows "fst c' \<noteq> fst c \<and> owned c t \<and> owned c' t"
proof -
  have l: "leases w s t c'" using claim_run [OF assms(3)] by simp
  then obtain j a b where j: "(fst c', j) \<in> set (db_jobs s)" "due s j"
    and t: "t = s\<lparr>db_next := db_next s + 1,
        db_jobs := t_update (\<lambda>k j. k = fst c') (leased w (db_next s) (db_now s)) (db_jobs s), db_turn := a, db_spaces := b\<rparr>"
    unfolding leases_def by metis
  have m: "map_of (db_jobs s) (fst c') = Some j"
    using j(1) assms(1) by (simp add: wf_def wf_keys_def keys_below_def)
  have ne: "fst c' \<noteq> fst c"
    using m j(2) assms(2) by (auto simp: owned_def due_def split: option.splits)
  moreover have "owned c t" using assms(2) ne by (simp add: owned_def t cong: option.case_cong)
  ultimately show ?thesis using leases_effect [OF l assms(1)] by simp
qed

text \<open>
  C30. A publication that reports success happened under a valid lease, for a revision whose memory
  is live, and afterwards the index holds for that revision and generation exactly the embedder's
  chunks, in order, each a non-empty span inside the text with an admissible vector; all rows of
  other revisions and generations are as before, and the job is ready.
\<close>

theorem publication_is_exact:
  assumes "known c s" and "chunks \<noteq> []" and "publish w c content chunks s = Inr (True, t)"
  shows "owned c s \<and> (\<exists>rid gen r. j_revision (snd c) = Some rid \<and> j_generation (snd c) = Some gen
    \<and> map_of (db_revisions s) rid = Some r \<and> \<not> is_deleted s (r_memory r)
    \<and> db_embeddings t = chunk_rows rid gen 0 chunks @ t_delete (\<lambda>(r, g, n) x. rid = r \<and> gen = g) (db_embeddings s)
    \<and> (\<forall>(x, y, v)\<in>set chunks. x < y \<and> y \<le> length content \<and> vector_ok (wk_dimensions w) v)
    \<and> (\<exists>j. map_of (db_jobs t) (fst c) = Some j \<and> j_state j = Ready))"
  using publish_run [OF assms(3,1)] assms(2)
  by (auto elim!: retained_content_Some simp: is_deleted_def)

text \<open>
  Forgetting wins against indexing: once a memory is deleted, no indexing job of it is owned by
  anyone any more, so an inference result that arrives later is discarded without a change.
\<close>

theorem forgotten_memory_is_not_indexed:
  assumes "wf s" and "known c s" and "j_kind (snd c) = Embed"
    and "map_of (db_operations s) (j_operation (snd c)) = Some op" and "is_deleted s (o_memory op)"
  shows "\<not> owned c s \<and> publish w c content chunks s = Inr (False, s)"
proof -
  have "\<not> owned c s"
  proof
    assume own: "owned c s"
    from owned_row [OF own] assms(2) obtain j where j: "map_of (db_jobs s) (fst c) = Some j" "j_state j = Leased"
      "job_identity j = job_identity (snd c)" by (auto simp: known_def)
    then have "j_operation j = j_operation (snd c)" "j_kind j = Embed"
      using assms(3) by (simp_all add: job_identity_def)
    with job_owner [OF assms(1) j(1)] assms(4,5) j(2) show False
      by (auto simp: live_job_def is_deleted_def split: option.splits)
  qed
  then show ?thesis by (simp add: publish_def tx_bind_at)
qed

text \<open>
  What an erasure of memory \<open>m\<close> under claim \<open>c\<close> may touch: rows of \<open>m\<close>, what rests on it, and the
  claimed job with its operation. Every other row of these tables is as before.
\<close>

definition only_erases :: "uuid \<Rightarrow> claimed \<Rightarrow> db \<Rightarrow> db \<Rightarrow> bool" where
  "only_erases m c s t \<longleftrightarrow>
     (\<forall>k. k \<noteq> m \<longrightarrow> map_of (db_memories t) k = map_of (db_memories s) k
        \<and> map_of (db_deletions t) k = map_of (db_deletions s) k)
   \<and> set (db_revisions t) = {(k, r) \<in> set (db_revisions s). r_memory r \<noteq> m}
   \<and> set (db_notes t) = {(k, n) \<in> set (db_notes s). n_memory n \<noteq> m}
   \<and> set (db_embeddings t) = {(k, x) \<in> set (db_embeddings s). \<not> of_memory s m (fst k)}
   \<and> set (db_connector_proposals t) = {(k, x) \<in> set (db_connector_proposals s). x \<noteq> m}
   \<and> set (db_source_revisions t) = {(k, sr) \<in> set (db_source_revisions s).
        sr_source sr \<in> set (sources_of m s) \<longrightarrow> cited t k}
   \<and> (\<forall>k. k \<notin> set (sources_of m s) \<or> sourced t k \<longrightarrow> map_of (db_sources t) k = map_of (db_sources s) k)
   \<and> (\<forall>k a. map_of (db_attachments s) k = Some a \<and> cited t (at_revision a) \<longrightarrow> map_of (db_attachments t) k = Some a)
   \<and> set (db_observations t) = {(k, x) \<in> set (db_observations s). x \<noteq> m}
   \<and> (\<forall>k. (k, m) \<notin> set (db_dependencies s) \<longrightarrow> map_of (db_proposals t) k = map_of (db_proposals s) k)
   \<and> (\<forall>k. (k, m) \<notin> set (db_eval_dependencies s) \<longrightarrow> map_of (db_datasets t) k = map_of (db_datasets s) k)
   \<and> (\<forall>k j. k \<noteq> fst c \<and> map_of (db_jobs s) k = Some j \<and> (\<forall>rid. j_revision j = Some rid \<longrightarrow> \<not> of_memory s m rid)
        \<longrightarrow> map_of (db_jobs t) k = Some j)
   \<and> (\<forall>k. k \<noteq> j_operation (snd c) \<longrightarrow> map_of (db_operations t) k = map_of (db_operations s) k)
   \<and> db_denials t = db_denials s \<and> db_receipts t = db_receipts s \<and> db_audit t = db_audit s
   \<and> access_view t = access_view s \<and> bystanders t = bystanders s"

lemma finish_jobs:
  "finish c st s = Inr (u, t) \<Longrightarrow> k \<noteq> fst c \<Longrightarrow> map_of (db_jobs t) k = map_of (db_jobs s) k"
  "finish c st s = Inr (u, t) \<Longrightarrow> k \<noteq> j_operation (snd c) \<Longrightarrow> map_of (db_operations t) k = map_of (db_operations s) k"
  by (auto simp: finish_def tx_runs option.map_ident intro!: map_option_idI)

lemma erasure_only_erases:
  assumes p: "purge_memory space m s = Inr ((), u)" and f: "finish c st u = Inr ((), t)"
  shows "only_erases m c s t"
proof -
  note e = purge_memory_run [OF p, unfolded erased_tables_def] and sp = purge_memory_spares [OF p]
  obtain js ops where t: "t = u\<lparr>db_jobs := js, db_operations := ops\<rparr>"
    by (rule that [OF finish_frame [OF f]])
  have c: "cited t = cited u" "sourced t = sourced u" "bystanders t = bystanders u"
    by (simp_all add: t cited_def sourced_def bystanders_def fun_eq_iff)
  have "map_of (db_memories t) k = map_of (db_memories s) k" "map_of (db_deletions t) k = map_of (db_deletions s) k"
    if "k \<noteq> m" for k
    using e that by (auto simp: t option.map_ident intro!: map_option_idI)
  moreover have "map_of (db_jobs t) k = Some j"
    if "k \<noteq> fst c" "map_of (db_jobs s) k = Some j" "\<forall>rid. j_revision j = Some rid \<longrightarrow> \<not> of_memory s m rid" for k j
    using e that finish_jobs(1) [OF f that(1)] by (auto split: option.splits)
  moreover have "map_of (db_operations t) k = map_of (db_operations s) k" if "k \<noteq> j_operation (snd c)" for k
    using e finish_jobs(2) [OF f that] by simp
  moreover have "set (db_embeddings t) = {(k, x) \<in> set (db_embeddings s). \<not> of_memory s m (fst k)}"
    using e by (auto simp: t)
  moreover have "access_view t = access_view s" using e by (simp add: t access_view_def)
  ultimately show ?thesis
    using e sp unfolding only_erases_def c by (simp add: t)
qed

text \<open>
  C31. A purge that reports success erased the forgotten memory: no revision, change note or title of
  it is left, its deletion record says when, none of its revisions has an embedding, and the
  source revisions that only it cited are gone. It touches no other memory: titles, revisions, notes,
  embeddings, deletion records, evidence with its attachments, and proposals of others are as before,
  and so are the other jobs and operations, the denials, receipts, audit trail, access tables and all
  tables that no memory's erasure concerns.
\<close>

theorem purge_erases_the_memory:
  assumes "wf s" and "known c s" and "purge c s = Inr (True, t)"
  shows "\<exists>op. map_of (db_operations s) (j_operation (snd c)) = Some op \<and> is_deleted s (o_memory op)
    \<and> erased (o_memory op) t
    \<and> (\<forall>(k, x)\<in>set (db_embeddings t). \<not> of_memory s (o_memory op) (fst k))
    \<and> (\<forall>(k, sr)\<in>set (db_source_revisions t). sr_source sr \<in> set (sources_of (o_memory op) s) \<longrightarrow> cited t k)
    \<and> only_erases (o_memory op) c s t"
proof -
  from purge_run [OF assms(3,2)] obtain op u where op: "map_of (db_operations s) (j_operation (snd c)) = Some op"
    "is_deleted s (o_memory op)" and p: "purge_memory (j_space (snd c)) (o_memory op) s = Inr ((), u)"
    and f: "finish c Ready u = Inr ((), t)"
    by blast
  note only = erasure_only_erases [OF p f]
  obtain js ops where t: "t = u\<lparr>db_jobs := js, db_operations := ops\<rparr>"
    by (rule that [OF finish_frame [OF f]])
  have "map_of (db_deletions s) (o_memory op) \<noteq> None"
    using deletion_iff [OF assms(1)] op(2) by (simp add: is_deleted_def split: option.splits)
  from erased_tables_erased [OF purge_memory_run [OF p] this] have er: "erased (o_memory op) t" by (simp add: erased_def t)
  from only have "\<forall>(k, x)\<in>set (db_embeddings t). \<not> of_memory s (o_memory op) (fst k)"
    "\<forall>(k, sr)\<in>set (db_source_revisions t). sr_source sr \<in> set (sources_of (o_memory op) s) \<longrightarrow> cited t k"
    unfolding only_erases_def by auto
  with op er only show ?thesis by blast
qed

text \<open>A failing job is retried with a bounded exponential delay and at most \<open>max_attempts\<close> times:
  the failure frees the lease, makes the job wait at least a second and at most five minutes, and
  the job is \<open>failed\<close> exactly when its attempts are used up. Only a refusal of the memory budget
  costs no attempt.
\<close>

theorem failure_backs_off:
  assumes "owned c s" and "\<not> over_budget e"
  shows "\<exists>t j. fail w c e s = Inr ((), t) \<and> map_of (db_jobs t) (fst c) = Some j \<and> j_lease j = None
    \<and> j_state j = (if wk_max_attempts w \<le> j_attempts (snd c) then Failed else Pending)
    \<and> j_available_at j = db_now s + seconds (min 300 (2 ^ j_attempts (snd c)))
    \<and> db_now s + seconds 1 \<le> j_available_at j \<and> j_available_at j \<le> db_now s + seconds 300
    \<and> (\<forall>x. j_error j = Some x \<longrightarrow> length x \<le> 100)"
proof -
  obtain t where t: "fail w c e s = Inr ((), t)" using fail_returns by blast
  have "1 \<le> min 300 (2 ^ j_attempts (snd c) :: nat)" by simp
  then have "seconds 1 \<le> seconds (min 300 (2 ^ j_attempts (snd c)))" unfolding seconds_def by linarith
  moreover have "seconds (min 300 (2 ^ j_attempts (snd c))) \<le> seconds 300" by (simp add: seconds_def)
  ultimately show ?thesis
    using t assms owned_row [OF assms(1)] by (auto simp: fail_def Let_def tx_runs)
qed

end
