(* ===== verification/Worker_Examples.thy ===== *)
theory Worker_Examples
  imports Worker_Properties
begin

text \<open>A worker on the tenant of the examples, and the properties of the worker applied to its runs.\<close>

definition demo_worker :: worker where
  "demo_worker = \<lparr>wk_generation = ''g1'', wk_default = ''g1'', wk_lease_seconds = 60, wk_max_attempts = 3,
     wk_dimensions = 1, wk_document = (\<lambda>text. Inr [(0, 3, [1])]), wk_error_name = (\<lambda>e. ''TimeoutError'')\<rparr>"

lemmas claim_defs = claim_def claim_job_def claim_embed_def due_purge_def due_space_def due_embed_def first_job_def
  claimable_def due_def routed_def lease_job_def leased_def take_turn_def

lemmas index_defs = process_begin_def publish_def policy_step_def job_policy_def settings_def source_current_def
  revision_current_def retained_content_def drop_embeddings_def insert_chunk_def vector_ok_def finish_def

lemma claimed_run:
  "\<exists>rc t c u. save demo_sv alice 7 demo_input ''k1'' demo_db = Inr (rc, t) \<and> claim demo_worker True t = Inr (Some c, u)
     \<and> known c u \<and> j_kind (snd c) = Embed \<and> j_attempts (snd c) = 1
     \<and> (\<exists>v. publish demo_worker c ''tea'' [(0, 3, [1])] u = Inr (True, v))"
  by (simp add: demo_defs demo_worker_def run_defs save_defs claim_defs index_defs known_def job_identity_def owned_def seconds_def Let_def)

lemmas purge_defs = purge_def purge_memory_def purge_evaluation_dependencies_def sources_of_def purge_rows_def
  of_memory_def purge_source_def uncited_def mark_purged_def

lemma purged_run:
  "\<exists>rc t rc' u c v x op. save demo_sv alice 7 demo_input ''k1'' demo_db = Inr (rc, t)
     \<and> forget demo_sv alice demo_fk 50 1 ''k3'' t = Inr (rc', u) \<and> claim demo_worker True u = Inr (Some c, v)
     \<and> known c v \<and> purge c v = Inr (True, x)
     \<and> (\<exists>d. known d u \<and> j_kind (snd d) = Embed \<and> map_of (db_operations u) (j_operation (snd d)) = Some op
          \<and> is_deleted u (o_memory op))"
proof -
  obtain rc t rc' u where s: "save demo_sv alice 7 demo_input ''k1'' demo_db = Inr (rc, t)"
    and f: "forget demo_sv alice demo_fk 50 1 ''k3'' t = Inr (rc', u)"
    using forgotten_run by blast
  obtain c v x where "claim demo_worker True u = Inr (Some c, v) \<and> known c v \<and> purge c v = Inr (True, x)"
    using s f
    by (auto simp: demo_defs run_defs save_defs forget_defs Let_def demo_worker_def claim_defs known_def
        job_identity_def owned_def seconds_def purge_defs finish_def)
  moreover have "known (55, the (map_of (db_jobs u) 55)) u \<and> j_kind (the (map_of (db_jobs u) 55)) = Embed
      \<and> map_of (db_operations u) (j_operation (the (map_of (db_jobs u) 55))) = Some (the (map_of (db_operations u) 54))
      \<and> is_deleted u (o_memory (the (map_of (db_operations u) 54)))"
    using s f
    by (auto simp: demo_defs run_defs save_defs forget_defs Let_def known_def is_deleted_def)
  ultimately show ?thesis using s f by (metis snd_conv)
qed

lemma saved_wf: "save demo_sv alice 7 demo_input key demo_db = Inr (rc, t) \<Longrightarrow> wf t"
  using staysD [OF transaction_safe [OF save_safe]] demo_wf by (auto simp: save_def safe_def)

lemma forgotten_wf: "wf s \<Longrightarrow> forget sv i fk m n key s = Inr (rc, t) \<Longrightarrow> wf t"
  using staysD [OF transaction_safe [OF forget_safe]] by (auto simp: forget_def safe_def)

lemma saved_sound: "save demo_sv alice 7 demo_input key demo_db = Inr (rc, t) \<Longrightarrow> sound t"
  using safe_tends [OF staysD [OF transaction_safe [OF save_safe]]] demo_wf
  by (auto simp: save_def tends_def sound_def indexed_def demo_db_def)

lemma forgotten_sound: "sound s \<Longrightarrow> forget sv i fk m n key s = Inr (rc, t) \<Longrightarrow> sound t"
  using safe_tends [OF staysD [OF transaction_safe [OF forget_safe]]] by (auto simp: forget_def tends_def)

lemma claimed_wf: "wf s \<Longrightarrow> claim w b s = Inr (Some c, t) \<Longrightarrow> sound s \<Longrightarrow> wf t"
  using leases_effect [of w s t c] claim_run [of w b s "Some c" t] by (auto simp: tends_def sound_def)

section \<open>Witnesses\<close>

text \<open>One turn undisturbed, and one during which the lease runs out.\<close>

definition outlasting :: "gap \<Rightarrow> db \<Rightarrow> db" where
  "outlasting g u = (if g = DuringInference then u\<lparr>db_now := db_now u + seconds 3600\<rparr> else u)"

theorem turn_releases_its_job_witness:
  "\<exists>rc s c t c' t' j. save demo_sv alice 7 demo_input ''k1'' demo_db = Inr (rc, s)
     \<and> run_once demo_worker True (\<lambda>g u. u) s = (Some c, t)
     \<and> map_of (db_jobs t) (fst c) = Some j \<and> j_state j \<noteq> Leased \<and> j_lease j = None
     \<and> run_once demo_worker True outlasting s = (Some c', t') \<and> \<not> holds_lease c' t'"
proof -
  from claimed_run obtain rc s c u where s: "save demo_sv alice 7 demo_input ''k1'' demo_db = Inr (rc, s)"
    and c: "claim demo_worker True s = Inr (Some c, u)" by blast
  then have "\<exists>t. run_once demo_worker True others s = (Some c, t)" for others
    by (cases "process demo_worker c others (others AfterClaim u)";
        cases "fst (process demo_worker c others (others AfterClaim u))") (auto simp: run_once_def)
  then obtain t t' where t: "run_once demo_worker True (\<lambda>g u. u) s = (Some c, t)"
    and t': "run_once demo_worker True outlasting s = (Some c, t')" by blast
  from turn_releases_its_job [OF t] turn_releases_its_job [OF t'] saved_wf [OF s] s t t' show ?thesis by blast
qed

text \<open>A worker that outlives its lease, whose job another worker claimed meanwhile, publishes nothing.\<close>

theorem stale_claim_is_inert_witness:
  "\<exists>rc s c t c' v. save demo_sv alice 7 demo_input ''k1'' demo_db = Inr (rc, s)
     \<and> claim demo_worker True s = Inr (Some c, t)
     \<and> claim demo_worker True (t\<lparr>db_now := db_now t + seconds 61\<rparr>) = Inr (Some c', v) \<and> fst c' = fst c
     \<and> publish demo_worker c ''tea'' [(0, 3, [1])] v = Inr (False, v) \<and> fail demo_worker c ValueError v = Inr ((), v)"
proof -
  have "\<exists>rc s c t c' v. save demo_sv alice 7 demo_input ''k1'' demo_db = Inr (rc, s)
     \<and> claim demo_worker True s = Inr (Some c, t)
     \<and> claim demo_worker True (t\<lparr>db_now := db_now t + seconds 61\<rparr>) = Inr (Some c', v) \<and> fst c' = fst c \<and> lease_lost c v"
    by (simp add: demo_defs demo_worker_def run_defs save_defs claim_defs lease_lost_def seconds_def Let_def)
  then obtain rc s c t c' v where run: "save demo_sv alice 7 demo_input ''k1'' demo_db = Inr (rc, s)"
     "claim demo_worker True s = Inr (Some c, t)"
     "claim demo_worker True (t\<lparr>db_now := db_now t + seconds 61\<rparr>) = Inr (Some c', v)" "fst c' = fst c"
    and lost: "lease_lost c v" by blast
  from stale_claim_is_inert [OF lost] run show ?thesis by blast
qed

theorem publication_is_exact_witness:
  "\<exists>c s t. publish demo_worker c ''tea'' [(0, 3, [1])] s = Inr (True, t) \<and> owned c s
     \<and> (\<exists>j. map_of (db_jobs t) (fst c) = Some j \<and> j_state j = Ready)"
proof -
  from claimed_run obtain c s t where k: "known c s" and p: "publish demo_worker c ''tea'' [(0, 3, [1])] s = Inr (True, t)"
    by blast
  from publication_is_exact [OF k _ p] p show ?thesis by blast
qed

theorem claims_are_exclusive_witness:
  "\<exists>rc s c t rc' u c' v. save demo_sv alice 7 demo_input ''k1'' demo_db = Inr (rc, s)
     \<and> claim demo_worker True s = Inr (Some c, t) \<and> save demo_sv alice 7 demo_input ''k4'' t = Inr (rc', u)
     \<and> claim demo_worker True u = Inr (Some c', v) \<and> fst c' \<noteq> fst c \<and> owned c v \<and> owned c' v"
proof -
  have "\<exists>rc s c t rc' u c' v. save demo_sv alice 7 demo_input ''k1'' demo_db = Inr (rc, s)
     \<and> claim demo_worker True s = Inr (Some c, t) \<and> save demo_sv alice 7 demo_input ''k4'' t = Inr (rc', u)
     \<and> owned c u \<and> claim demo_worker True u = Inr (Some c', v)"
    by (simp add: demo_defs demo_worker_def run_defs save_defs claim_defs owned_def seconds_def Let_def)
  then obtain rc s c t rc' u c' v where s: "save demo_sv alice 7 demo_input ''k1'' demo_db = Inr (rc, s)"
    and t: "claim demo_worker True s = Inr (Some c, t)" and u: "save demo_sv alice 7 demo_input ''k4'' t = Inr (rc', u)"
    and own: "owned c u" and v: "claim demo_worker True u = Inr (Some c', v)" by blast
  have "wf t" using claimed_wf [OF saved_wf [OF s] t] saved_sound [OF s] by blast
  then have "wf u" using staysD [OF save_safe [THEN transaction_safe]] u by (auto simp: save_def safe_def)
  from claims_are_exclusive [OF this own v] s t u v show ?thesis by blast
qed

theorem forgotten_memory_is_not_indexed_witness:
  "\<exists>c s. j_kind (snd c) = Embed \<and> known c s \<and> publish demo_worker c ''tea'' [(0, 3, [1])] s = Inr (False, s)"
proof -
  from purged_run obtain rc t rc' u d op where s: "save demo_sv alice 7 demo_input ''k1'' demo_db = Inr (rc, t)"
    and f: "forget demo_sv alice demo_fk 50 1 ''k3'' t = Inr (rc', u)"
    and d: "known d u" "j_kind (snd d) = Embed" "map_of (db_operations u) (j_operation (snd d)) = Some op"
      "is_deleted u (o_memory op)" by blast
  from forgotten_memory_is_not_indexed [OF forgotten_wf [OF saved_wf [OF s] f] d] d show ?thesis by blast
qed

theorem purge_erases_the_memory_witness:
  "\<exists>c s t m. purge c s = Inr (True, t) \<and> is_deleted s m \<and> erased m t \<and> only_erases m c s t"
proof -
  from purged_run obtain rc t rc' u c v x where s: "save demo_sv alice 7 demo_input ''k1'' demo_db = Inr (rc, t)"
    and f: "forget demo_sv alice demo_fk 50 1 ''k3'' t = Inr (rc', u)" and c: "claim demo_worker True u = Inr (Some c, v)"
    and k: "known c v" and p: "purge c v = Inr (True, x)" by blast
  have "wf v" using claimed_wf [OF forgotten_wf [OF saved_wf [OF s] f] c] forgotten_sound [OF saved_sound [OF s] f] by blast
  from purge_erases_the_memory [OF this k p] p show ?thesis by blast
qed

theorem failure_backs_off_witness:
  "\<exists>c s t j. owned c s \<and> fail demo_worker c ValueError s = Inr ((), t)
     \<and> map_of (db_jobs t) (fst c) = Some j \<and> j_state j = Pending \<and> j_available_at j = db_now s + seconds 2"
proof -
  from claimed_run obtain rc s c u where s: "save demo_sv alice 7 demo_input ''k1'' demo_db = Inr (rc, s)"
    and c: "claim demo_worker True s = Inr (Some c, u)" and a: "j_attempts (snd c) = 1" by blast
  have own: "owned c u" using leases_effect [OF _ saved_wf [OF s]] claim_run [OF c] by simp
  have "\<not> wk_max_attempts demo_worker \<le> 1" by (simp add: demo_worker_def)
  with failure_backs_off [OF own, of ValueError demo_worker] a
  have "\<exists>t j. fail demo_worker c ValueError u = Inr ((), t) \<and> map_of (db_jobs t) (fst c) = Some j
      \<and> j_state j = Pending \<and> j_available_at j = db_now u + seconds 2" by auto
  with own show ?thesis by blast
qed

end
