(* ===== verification/Reindex.thy ===== *)
theory Reindex
  imports Worker
begin

text \<open>
  Candidate indexing and the cut-over of a space to another embedding model
  (\<open>service/reindex.py\<close>, with \<open>service/model_registry.py\<close>, \<open>service/model_state.py\<close> and the SQL
  function \<open>claim_reindex\<close>). The operator's model profiles are a parameter: for each profile its
  generation, its label, whether it sends text over the network, and its token unit.
\<close>

section \<open>The registry\<close>

record profile =
  pf_label :: string
  pf_generation :: string
  pf_egress :: bool
  pf_unit :: string

record registry =
  rg_default :: string
  rg_default_egress :: bool
  rg_profiles :: "(string, profile) table"

text \<open>\<open>_by_generation\<close>: the last profile of a generation wins, the default model comes last.\<close>

definition registry_get :: "registry \<Rightarrow> string \<Rightarrow> bool res" where
  "registry_get rg gen =
     (case map_of (rev (map (\<lambda>(k, p). (pf_generation p, pf_egress p)) (rg_profiles rg))) gen of
        Some egress \<Rightarrow> Inr egress
      | None \<Rightarrow> if gen = rg_default rg then Inr (rg_default_egress rg)
                else Inl (ServiceError 503 ''embedding_profile_unavailable''))"

definition generation_ids :: "registry \<Rightarrow> string list" where
  "generation_ids rg = rg_default rg # map (\<lambda>(k, p). pf_generation p) (rg_profiles rg)"

definition registry_profile :: "registry \<Rightarrow> string \<Rightarrow> profile res" where
  "registry_profile rg k =
     (case map_of (rg_profiles rg) k of
        None \<Rightarrow> Inl (ServiceError 422 ''unknown_embedding_profile'') | Some p \<Rightarrow> Inr p)"

definition tx_res :: "'a res \<Rightarrow> 'a act" where
  "tx_res r = (case r of Inl e \<Rightarrow> tx_raise e | Inr a \<Rightarrow> tx_return a)"

section \<open>Coverage\<close>

text \<open>\<open>REVISIONS\<close>: the revisions of live memories of the space whose source is retained.\<close>

definition retained_revision :: "db \<Rightarrow> uuid \<Rightarrow> revision \<Rightarrow> bool" where
  "retained_revision s space r \<longleftrightarrow> r_space r = space
     \<and> (case map_of (db_memories s) (r_memory r) of
          None \<Rightarrow> False | Some row \<Rightarrow> m_space row = r_space r \<and> m_deleted_at row = None)
     \<and> (case map_of (db_source_revisions s) (r_source r) of
          None \<Rightarrow> False
        | Some sr \<Rightarrow> sr_space sr = r_space r
            \<and> (case map_of (db_sources s) (sr_source sr) of
                 None \<Rightarrow> False | Some so \<Rightarrow> s_space so = sr_space sr \<and> s_deleted_at so = None))"

definition retained_revisions :: "uuid \<Rightarrow> db \<Rightarrow> (uuid \<times> revision) list" where
  "retained_revisions space s = filter (\<lambda>(k, r). retained_revision s space r) (db_revisions s)"

definition indexed_in :: "string \<Rightarrow> db \<Rightarrow> uuid \<Rightarrow> bool" where
  "indexed_in gen s rid \<longleftrightarrow> list_ex (\<lambda>((r, g, n), c). r = rid \<and> g = gen) (db_embeddings s)"

definition coverage :: "uuid \<Rightarrow> string \<Rightarrow> db \<Rightarrow> nat \<times> nat" where
  "coverage space gen s = (length (retained_revisions space s),
     length (filter (\<lambda>(k, r). indexed_in gen s k) (retained_revisions space s)))"

section \<open>The state of a space\<close>

definition run_of :: "db \<Rightarrow> uuid \<Rightarrow> uuid \<Rightarrow> reindex_run option" where
  "run_of s space k = (case map_of (db_runs s) k of
     None \<Rightarrow> None | Some r \<Rightarrow> if rr_space r = space then Some r else None)"

text \<open>Jobs of the run by state, in the order of the states' names.\<close>

definition job_counts :: "uuid \<Rightarrow> uuid \<Rightarrow> db \<Rightarrow> (job_state \<times> nat) list" where
  "job_counts space run s =
     filter (\<lambda>(st, n). 0 < n)
       (map (\<lambda>st. (st, length (filter (\<lambda>(k, j). j_space j = space \<and> j_run j = Some run \<and> j_state j = st) (db_jobs s))))
          [JobCancelled, Failed, Leased, Pending, Ready])"

definition candidate_of :: "uuid \<Rightarrow> uuid \<Rightarrow> reindex_run \<Rightarrow> db \<Rightarrow> candidate_view" where
  "candidate_of space k r s =
     (let (revisions, indexed) = coverage space (rr_generation r) s in
      \<lparr>cv_run = k, cv_generation = rr_generation r, cv_state = rr_state r, cv_scan = rr_scan r,
       cv_revisions = revisions, cv_indexed = indexed, cv_jobs = job_counts space k s,
       cv_ready = (rr_scan r \<and> revisions = indexed), cv_egress = rr_egress r,
       cv_created_at = rr_created_at r, cv_updated_at = rr_updated_at r\<rparr>)"

definition model_state_of :: "registry \<Rightarrow> uuid \<Rightarrow> model_state act" where
  "model_state_of rg space =
     tx_bind (tx_read (settings (rg_default rg) space)) (\<lambda>current.
     tx_bind (case ro_run current of
                None \<Rightarrow> tx_return None
              | Some k \<Rightarrow> tx_bind (tx_read (\<lambda>s. run_of s space k)) (\<lambda>found.
                  case found of
                    None \<Rightarrow> tx_raise RuntimeError
                  | Some r \<Rightarrow> tx_read (\<lambda>s. Some (candidate_of space k r s)))) (\<lambda>candidate.
     tx_read (\<lambda>s. \<lparr>ms_space = space, ms_version = ro_version current, ms_active = ro_generation current,
       ms_paused = ro_paused current, ms_previous = ro_previous current, ms_candidate = candidate,
       ms_profiles = map (\<lambda>(k, p). (k, pf_generation p \<in> set (db_generations s))) (rg_profiles rg)\<rparr>)))"

definition read_models :: "registry \<Rightarrow> identity \<Rightarrow> uuid \<Rightarrow> model_state act" where
  "read_models rg i space =
     transaction i (tx_then (require_space i space 40 False) (model_state_of rg space))"

text \<open>\<open>choices\<close>: the active index and the candidate, and whether each can be searched.\<close>

record choice =
  ch_generation :: string
  ch_candidate :: bool
  ch_label :: string
  ch_available :: bool
  ch_unit :: "string option"

definition choice_of :: "registry \<Rightarrow> routing \<Rightarrow> bool \<times> string option \<Rightarrow> choice list" where
  "choice_of rg current = (\<lambda>(candidate, generation).
     case generation of
       None \<Rightarrow> []
     | Some gen \<Rightarrow> if gen = [] then [] else
         (let found = map_of (rev (map (\<lambda>(k, p). (pf_generation p, p)) (rg_profiles rg))) gen in
          [\<lparr>ch_generation = gen, ch_candidate = candidate,
            ch_label = (case found of None \<Rightarrow> ''Unavailable model'' | Some p \<Rightarrow> pf_label p),
            ch_available = (case found of None \<Rightarrow> False
              | Some p \<Rightarrow> \<not> ((\<not> candidate \<and> ro_paused current)
                  \<or> (candidate \<and> pf_egress p \<and> \<not> ro_approved current))),
            ch_unit = map_option pf_unit found\<rparr>]))"

definition choices :: "registry \<Rightarrow> identity \<Rightarrow> uuid \<Rightarrow> choice list act" where
  "choices rg i space =
     transaction i (tx_then (require_space i space 30 False)
       (tx_read (\<lambda>s. let current = settings (rg_default rg) space s in
          concat (map (choice_of rg current) [(False, Some (ro_generation current)), (True, ro_candidate current)]))))"

section \<open>Starting a candidate\<close>

record reindex_input =
  xi_profile :: string
  xi_expected :: nat
  xi_approve :: bool

definition egress_required :: error where
  "egress_required = ServiceError 422 ''embedding_egress_approval_required''"

text \<open>A key already used for a memory belongs to a different request.\<close>

definition model_idempotency :: "identity \<Rightarrow> uuid \<Rightarrow> string \<Rightarrow> digest \<Rightarrow> model_state option act" where
  "model_idempotency i space key digest =
     tx_then (tx_guard (\<lambda>_. key_ok key) (ServiceError 422 ''idempotency_key_required''))
    (tx_then (tx_guard (\<lambda>s. map_of (db_receipts s) (space, id_principal i, key) = None)
                (ServiceError 409 ''idempotency_conflict''))
    (tx_bind (tx_read (\<lambda>s. map_of (db_model_receipts s) (space, id_principal i, key))) (\<lambda>previous.
     case previous of
       None \<Rightarrow> tx_return None
     | Some (h, r) \<Rightarrow> if h \<noteq> digest then tx_raise (ServiceError 409 ''idempotency_conflict'')
                     else tx_return (Some r))))"

definition insert_run :: "uuid \<Rightarrow> reindex_run \<Rightarrow> unit act" where
  "insert_run k r = tx_modify (\<lambda>s. s\<lparr>db_runs := (k, r) # db_runs s\<rparr>)"

definition point_to_candidate :: "uuid \<Rightarrow> string \<Rightarrow> uuid \<Rightarrow> unit act" where
  "point_to_candidate space active run = tx_modify (\<lambda>s. s\<lparr>db_settings :=
     (if map_of (db_settings s) space = None
      then (space, \<lparr>es_generation = active, es_run = Some run, es_paused = False, es_version = 1, es_previous = None\<rparr>)
           # db_settings s
      else t_update (\<lambda>k st. k = space) (\<lambda>st. st\<lparr>es_run := Some run, es_version := es_version st + 1\<rparr>) (db_settings s))\<rparr>)"

definition start_new :: "registry \<Rightarrow> identity \<Rightarrow> uuid \<Rightarrow> reindex_input \<Rightarrow> unit act" where
  "start_new rg i space c =
     tx_bind (tx_res (registry_profile rg (xi_profile c))) (\<lambda>p.
     tx_then (tx_guard (\<lambda>_. pf_egress p \<longrightarrow> xi_approve c) egress_required)
    (tx_then (tx_guard (\<lambda>s. pf_generation p \<in> set (db_generations s)) (ServiceError 503 ''embedding_model_not_registered''))
    (tx_bind (tx_read (settings (rg_default rg) space)) (\<lambda>current.
     tx_then (tx_guard (\<lambda>_. ro_version current = xi_expected c) version_conflict)
    (tx_then (tx_guard (\<lambda>_. ro_run current = None) (ServiceError 409 ''reindex_in_progress''))
    (tx_then (tx_guard (\<lambda>_. ro_generation current \<noteq> pf_generation p) (ServiceError 409 ''model_already_active''))
    (tx_bind fresh (\<lambda>run.
     tx_bind (tx_read db_now) (\<lambda>now.
     tx_then (insert_run run \<lparr>rr_space = space, rr_generation = pf_generation p, rr_state = Running,
                rr_previous = ro_generation current, rr_egress = xi_approve c, rr_author = id_principal i,
                rr_scan = False, rr_cursor = 0, rr_lease = None, rr_lease_until = None,
                rr_created_at = now, rr_updated_at = now\<rparr>)
    (tx_then (point_to_candidate space (ro_generation current) run)
             (audit i ''embedding.reindex_started'' (uuid_text run) space None
                [(''generation_id'', pf_generation p),
                 (''network_egress_approved'', if xi_approve c then ''true'' else ''false'')])))))))))))"

definition start :: "registry \<Rightarrow> (reindex_input \<Rightarrow> digest) \<Rightarrow> identity \<Rightarrow> uuid \<Rightarrow> reindex_input \<Rightarrow> string \<Rightarrow> model_state act" where
  "start rg hash i space c key =
     transaction i
      (tx_then (require_space i space 40 False)
      (tx_then (require_space i space 40 True)
      (tx_bind (model_idempotency i space key (hash c)) (\<lambda>previous.
       case previous of
         Some r \<Rightarrow> tx_return r
       | None \<Rightarrow>
           tx_then (start_new rg i space c)
          (tx_bind (model_state_of rg space) (\<lambda>r.
           tx_then (tx_modify (\<lambda>s. s\<lparr>db_model_receipts :=
                      ((space, id_principal i, key), (hash c, r)) # db_model_receipts s\<rparr>))
                   (tx_return r)))))))"

section \<open>Controlling a candidate\<close>

definition update_run :: "uuid \<Rightarrow> uuid \<Rightarrow> (reindex_run \<Rightarrow> reindex_run) \<Rightarrow> unit act" where
  "update_run space run f = tx_modify (\<lambda>s. s\<lparr>db_runs := t_update (\<lambda>k r. k = run \<and> rr_space r = space) f (db_runs s)\<rparr>)"

definition update_settings :: "uuid \<Rightarrow> (embedding_settings \<Rightarrow> embedding_settings) \<Rightarrow> unit act" where
  "update_settings space f = tx_modify (\<lambda>s. s\<lparr>db_settings := t_update (\<lambda>k st. k = space) f (db_settings s)\<rparr>)"

definition touched_run :: "(reindex_run \<Rightarrow> reindex_run) \<Rightarrow> db \<Rightarrow> reindex_run \<Rightarrow> reindex_run" where
  "touched_run f s r = (f r)\<lparr>rr_updated_at := db_now s\<rparr>"

definition index_job :: "uuid \<Rightarrow> string option \<Rightarrow> uuid option \<Rightarrow> job \<Rightarrow> bool" where
  "index_job space gen run j \<longleftrightarrow> j_space j = space \<and> j_kind j = Embed \<and> j_state j \<in> {Pending, Leased, Failed}
     \<and> ((gen \<noteq> None \<and> j_generation j = gen) \<or> (run \<noteq> None \<and> j_run j = run))"

definition cancel_index_jobs :: "uuid \<Rightarrow> string option \<Rightarrow> uuid option \<Rightarrow> unit act" where
  "cancel_index_jobs space gen run = tx_modify (\<lambda>s. s\<lparr>
     db_jobs := t_update (\<lambda>k j. index_job space gen run j)
       (\<lambda>j. j\<lparr>j_state := JobCancelled, j_lease := None, j_lease_until := None\<rparr>) (db_jobs s),
     db_operations := t_update (\<lambda>k op. list_ex (\<lambda>(x, j). index_job space gen run j \<and> j_operation j = k) (db_jobs s))
       (\<lambda>op. op\<lparr>o_state := OpCancelled\<rparr>) (db_operations s)\<rparr>)"

definition failed_job :: "uuid \<Rightarrow> uuid \<Rightarrow> job \<Rightarrow> bool" where
  "failed_job space run j \<longleftrightarrow> j_space j = space \<and> j_run j = Some run \<and> j_state j = Failed"

definition retry_failed :: "uuid \<Rightarrow> uuid \<Rightarrow> unit act" where
  "retry_failed space run = tx_modify (\<lambda>s. s\<lparr>
     db_jobs := t_update (\<lambda>k j. failed_job space run j)
       (\<lambda>j. j\<lparr>j_state := Pending, j_attempts := 0, j_available_at := db_now s, j_error := None\<rparr>) (db_jobs s),
     db_operations := t_update (\<lambda>k op. list_ex (\<lambda>(x, j). failed_job space run j \<and> j_operation j = k) (db_jobs s))
       (\<lambda>op. op\<lparr>o_state := Accepted, o_error := None\<rparr>) (db_operations s)\<rparr>)"

definition approve_egress :: "registry \<Rightarrow> uuid \<Rightarrow> uuid \<Rightarrow> reindex_run \<Rightarrow> string \<Rightarrow> bool \<Rightarrow> unit act" where
  "approve_egress rg space k run action approve =
     (if action \<notin> {''resume'', ''activate''} then tx_return ()
      else tx_bind (tx_res (registry_get rg (rr_generation run))) (\<lambda>egress.
           if \<not> egress \<or> rr_egress run then tx_return ()
           else if \<not> approve then tx_raise egress_required
           else update_run space k (\<lambda>r. r\<lparr>rr_egress := True\<rparr>)))"

definition activate :: "registry \<Rightarrow> uuid \<Rightarrow> uuid \<Rightarrow> reindex_run \<Rightarrow> string \<Rightarrow> unit act" where
  "activate rg space k run old =
     tx_bind (tx_res (registry_get rg (rr_generation run))) (\<lambda>_.
     tx_bind (tx_read (coverage space (rr_generation run))) (\<lambda>(revisions, indexed).
     tx_then (tx_guard (\<lambda>_. rr_scan run \<and> revisions = indexed) (ServiceError 409 ''candidate_index_incomplete''))
    (tx_then (update_settings space (\<lambda>st. st\<lparr>es_previous := Some (es_generation st), es_generation := rr_generation run,
                es_run := None, es_paused := False\<rparr>))
    (tx_bind (tx_read (touched_run (\<lambda>r. r\<lparr>rr_state := RunActivated\<rparr>))) (\<lambda>f.
     tx_then (update_run space k f) (cancel_index_jobs space (Some old) None))))))"

definition cancel_run :: "uuid \<Rightarrow> uuid \<Rightarrow> unit act" where
  "cancel_run space k =
     tx_then (cancel_index_jobs space None (Some k))
    (tx_bind (tx_read (touched_run (\<lambda>r. r\<lparr>rr_state := RunCancelled, rr_lease := None, rr_lease_until := None\<rparr>))) (\<lambda>f.
     tx_then (update_run space k f) (update_settings space (\<lambda>st. st\<lparr>es_run := None\<rparr>))))"

definition control_action :: "registry \<Rightarrow> uuid \<Rightarrow> uuid \<Rightarrow> reindex_run \<Rightarrow> string \<Rightarrow> string \<Rightarrow> unit act" where
  "control_action rg space k run old action =
     (if action = ''activate'' then activate rg space k run old
      else if action = ''cancel'' then cancel_run space k
      else if action = ''retry'' then retry_failed space k
      else tx_then (if action = ''resume'' then tx_bind (tx_res (registry_get rg (rr_generation run))) (\<lambda>_. tx_return ())
                    else tx_return ())
          (tx_bind (tx_read (touched_run (\<lambda>r. r\<lparr>rr_state := (if action = ''pause'' then RunPaused else Running)\<rparr>))) (\<lambda>f.
           update_run space k f)))"

definition control_checked :: "registry \<Rightarrow> identity \<Rightarrow> uuid \<Rightarrow> uuid \<Rightarrow> string \<Rightarrow> nat \<Rightarrow> bool \<Rightarrow> model_state act" where
  "control_checked rg i space k action version approve =
     transaction i
       (tx_then (require_space i space 40 False)
       (tx_then (require_space i space 40 True)
       (tx_bind (tx_read (settings (rg_default rg) space)) (\<lambda>current.
        tx_then (tx_guard (\<lambda>_. ro_version current = version) version_conflict)
       (tx_then (tx_guard (\<lambda>_. ro_run current = Some k) not_found)
       (tx_bind (tx_read (\<lambda>s. run_of s space k)) (\<lambda>found.
        case found of
          None \<Rightarrow> tx_raise RuntimeError
        | Some run \<Rightarrow>
            tx_then (approve_egress rg space k run action approve)
           (tx_then (control_action rg space k run (ro_generation current) action)
           (tx_then (update_settings space (\<lambda>st. st\<lparr>es_version := es_version st + 1\<rparr>))
           (tx_then (audit i (''embedding.'' @ action) (uuid_text k) space None [(''generation_id'', rr_generation run)])
                    (model_state_of rg space)))))))))))"

definition control :: "registry \<Rightarrow> identity \<Rightarrow> uuid \<Rightarrow> uuid \<Rightarrow> string \<Rightarrow> nat \<Rightarrow> bool \<Rightarrow> model_state act" where
  "control rg i space k action version approve =
     (if action \<notin> {''pause'', ''resume'', ''retry'', ''cancel'', ''activate''} then tx_raise not_found
      else control_checked rg i space k action version approve)"

definition resume_processing :: "registry \<Rightarrow> identity \<Rightarrow> uuid \<Rightarrow> nat \<Rightarrow> bool \<Rightarrow> model_state act" where
  "resume_processing rg i space expected approve =
     transaction i
      (tx_then (require_space i space 40 False)
      (tx_then (require_space i space 40 True)
      (tx_bind (tx_read (settings (rg_default rg) space)) (\<lambda>current.
       tx_then (tx_guard (\<lambda>_. ro_version current = expected) version_conflict)
      (tx_bind (tx_res (registry_get rg (ro_generation current))) (\<lambda>egress.
       tx_then (tx_guard (\<lambda>_. egress \<longrightarrow> approve) egress_required)
      (tx_then (if ro_paused current
                then tx_then (update_settings space (\<lambda>st. st\<lparr>es_paused := False, es_version := es_version st + 1\<rparr>))
                     (audit i ''embedding.processing_resumed'' (uuid_text space) space None
                        [(''generation_id'', ro_generation current),
                         (''network_egress_approved'', if approve then ''true'' else ''false'')])
                else tx_return ())
               (model_state_of rg space))))))))"

section \<open>Filling the candidate\<close>

definition claimable_run :: "string list \<Rightarrow> db \<Rightarrow> reindex_run \<Rightarrow> bool" where
  "claimable_run gens s r \<longleftrightarrow> rr_state r = Running \<and> \<not> rr_scan r \<and> rr_generation r \<in> set gens
     \<and> (case rr_lease_until r of None \<Rightarrow> True | Some t \<Rightarrow> t < db_now s)"

definition leased_run :: "uuid \<Rightarrow> time \<Rightarrow> reindex_run \<Rightarrow> reindex_run" where
  "leased_run lease now r = r\<lparr>rr_lease := Some lease, rr_lease_until := Some (now + seconds 30)\<rparr>"

definition claim_reindex :: "string list \<Rightarrow> (uuid \<times> reindex_run) option act" where
  "claim_reindex gens =
     tx_bind fresh (\<lambda>lease.
     tx_bind (tx_read (\<lambda>s. sort_key (\<lambda>(k, r). (rr_updated_at r, k)) (filter (\<lambda>(k, r). claimable_run gens s r) (db_runs s)))) (\<lambda>due.
     case due of
       [] \<Rightarrow> tx_return None
     | (k, r) # _ \<Rightarrow> tx_bind (tx_read db_now) (\<lambda>now.
         tx_then (update_run (rr_space r) k (leased_run lease now)) (tx_return (Some (k, leased_run lease now r))))))"

definition owned_run :: "uuid \<times> reindex_run \<Rightarrow> db \<Rightarrow> reindex_run option" where
  "owned_run c s =
     (case run_of s (rr_space (snd c)) (fst c) of
        None \<Rightarrow> None
      | Some r \<Rightarrow> if rr_state r = Running \<and> rr_lease r \<noteq> None \<and> rr_lease r = rr_lease (snd c)
                    \<and> (case rr_lease_until r of None \<Rightarrow> False | Some t \<Rightarrow> t > db_now s)
                  then Some r else None)"

definition unfinished :: "uuid \<Rightarrow> uuid \<Rightarrow> db \<Rightarrow> nat" where
  "unfinished space run s = length (filter (\<lambda>(k, j). j_space j = space \<and> j_run j = Some run
     \<and> j_state j \<in> {Pending, Leased, Failed}) (db_jobs s))"

definition next_revisions :: "nat \<Rightarrow> uuid \<Rightarrow> uuid \<Rightarrow> db \<Rightarrow> (uuid \<times> revision) list" where
  "next_revisions batch space cursor s =
     take batch (sort_key fst (filter (\<lambda>(k, r). cursor < k) (retained_revisions space s)))"

text \<open>A held revision is queued too, but its job waits.\<close>

definition defer_held :: "uuid \<Rightarrow> uuid \<Rightarrow> uuid \<Rightarrow> unit act" where
  "defer_held space run rid = tx_modify (\<lambda>s. s\<lparr>db_jobs := t_update
     (\<lambda>k j. j_space j = space \<and> j_run j = Some run \<and> j_revision j = Some rid \<and> j_state j = Pending)
     (\<lambda>j. j\<lparr>j_available_at := db_now s + seconds 60, j_error := Some ''source_access_unavailable''\<rparr>) (db_jobs s)\<rparr>)"

definition backfill_revision :: "uuid \<Rightarrow> reindex_run \<Rightarrow> uuid \<times> revision \<Rightarrow> unit act" where
  "backfill_revision k run row =
     tx_bind (tx_read (revision_current (Some (fst row)))) (\<lambda>current.
     tx_bind (enqueue_candidate (rr_author run) (rr_space run) (r_memory (snd row)) (Some (fst row)) k
               (Some (rr_generation run))) (\<lambda>created.
     if created \<and> \<not> current then defer_held (rr_space run) k (fst row) else tx_return ()))"

definition backfill_batch :: "nat \<Rightarrow> uuid \<times> reindex_run \<Rightarrow> bool act" where
  "backfill_batch batch c =
     tx_bind (tx_read (source_current (rr_space (snd c)))) (\<lambda>current.
     if \<not> current then tx_return False
     else tx_bind (tx_read (owned_run c)) (\<lambda>found.
          case found of
            None \<Rightarrow> tx_return False
          | Some run \<Rightarrow>
              tx_bind (tx_read (unfinished (rr_space run) (fst c))) (\<lambda>pending.
              if 1000 \<le> pending
              then tx_bind (tx_read (touched_run (\<lambda>r. r\<lparr>rr_lease := None, rr_lease_until := None\<rparr>))) (\<lambda>f.
                   tx_then (update_run (rr_space run) (fst c) f) (tx_return False))
              else tx_bind (tx_read (next_revisions batch (rr_space run) (rr_cursor run))) (\<lambda>rows.
                   tx_then (tx_each (backfill_revision (fst c) run) rows)
                  (tx_bind (tx_read (touched_run (\<lambda>r. r\<lparr>rr_cursor := (if rows = [] then rr_cursor run else fst (last rows)),
                      rr_scan := length rows < batch, rr_lease := None, rr_lease_until := None\<rparr>))) (\<lambda>f.
                   tx_then (update_run (rr_space run) (fst c) f) (tx_return True)))))))"

definition backfill_once :: "registry \<Rightarrow> nat \<Rightarrow> db \<Rightarrow> (error + bool) \<times> db" where
  "backfill_once rg batch s =
     (if \<not> (1 \<le> batch \<and> batch \<le> 500) then (Inl ValueError, s)
      else case commit (claim_reindex (generation_ids rg)) s of
             (Inl e, s1) \<Rightarrow> (Inl e, s1)
           | (Inr None, s1) \<Rightarrow> (Inr False, s1)
           | (Inr (Some c), s1) \<Rightarrow> commit (backfill_batch batch c) s1)"

section \<open>Search generations\<close>

definition active_generation :: "string \<Rightarrow> db \<Rightarrow> uuid \<Rightarrow> string" where
  "active_generation fallback s space =
     (case map_of (db_settings s) space of None \<Rightarrow> fallback | Some st \<Rightarrow> es_generation st)"

definition active_generations :: "uuid list \<Rightarrow> string \<Rightarrow> db \<Rightarrow> (uuid \<times> string) list" where
  "active_generations spaces fallback s = map (\<lambda>space. (space, active_generation fallback s space)) spaces"

fun override_each :: "identity \<Rightarrow> string \<Rightarrow> string \<Rightarrow> uuid list \<Rightarrow> (uuid \<times> string) list act" where
  "override_each i fallback gen [] = tx_return []"
| "override_each i fallback gen (space # spaces) =
     tx_then (require_space i space 30 False)
    (tx_bind (tx_read (settings fallback space)) (\<lambda>current.
     tx_then (tx_guard (\<lambda>_. gen = ro_generation current \<or> Some gen = ro_candidate current)
                (ServiceError 409 ''generation_changed''))
    (tx_bind (override_each i fallback gen spaces) (\<lambda>rest. tx_return ((space, gen) # rest)))))"

definition selected_generations :: "identity \<Rightarrow> uuid list \<Rightarrow> string \<Rightarrow> string option \<Rightarrow> (uuid \<times> string) list act" where
  "selected_generations i spaces fallback override =
     (case override of
        None \<Rightarrow> tx_read (active_generations spaces fallback)
      | Some gen \<Rightarrow> override_each i fallback gen spaces)"

end
