(* ===== verification/Reindex_Theorems.thy ===== *)
theory Reindex_Theorems
  imports Reindex Worker_Theorems
begin

text \<open>
  What the transactions of reindexing do to a sound database: they keep it sound, a batch of the
  backfill queues exactly the retained revisions it scanned, and an activation requires a complete
  index.
\<close>

section \<open>Soundness\<close>

lemma wf_enqueue:
  assumes wf: "wf s" and row: "map_of (db_memories s) m = Some row" "m_space row = space" "m_deleted_at row = None"
  shows "wf (s\<lparr>db_operations := (db_next s, new_operation a space m rid Reindex now) # db_operations s,
      db_next := db_next s + 2,
      db_jobs := (db_next s + 1, new_job space (db_next s) rid gen Embed run now) # db_jobs s\<rparr>)" (is "wf ?t")
proof -
  from wf have keys: "keys_below (db_next s) (db_operations s)" "keys_below (db_next s) (db_jobs s)"
    "keys_below (db_next s) (db_memories s)" "keys_below (db_next s) (db_revisions s)"
    by (simp_all add: wf_def wf_keys_def)
  then have none: "map_of (db_operations s) (db_next s) = None"
    by (auto simp: keys_below_def map_of_eq_None_iff)
  have "wf_keys ?t"
    using keys by (auto simp: wf_keys_def keys_below_def)
  moreover have "wf_operations ?t"
    unfolding wf_operations_def
  proof (intro conjI allI impI)
    fix k op assume op: "map_of (db_operations ?t) k = Some op"
    show "\<exists>row. map_of (db_memories ?t) (o_memory op) = Some row \<and> m_space row = o_space op
        \<and> (m_deleted_at row \<noteq> None \<and> live_op (o_state op) \<longrightarrow> o_kind op = Delete)"
      using op row operation_owner [OF wf, of k op] by (cases "k = db_next s") (auto simp: new_operation_def)
  next
    fix k j assume j: "map_of (db_jobs ?t) k = Some j"
    show "\<exists>op. map_of (db_operations ?t) (j_operation j) = Some op \<and> o_space op = j_space j
        \<and> (o_kind op = Delete \<longleftrightarrow> j_kind j = Purge)
        \<and> (live_job (j_state j) \<longrightarrow> (\<forall>row. map_of (db_memories ?t) (o_memory op) = Some row \<and> m_deleted_at row \<noteq> None
             \<longrightarrow> j_kind j = Purge))"
    proof (cases "k = db_next s + 1")
      case True
      with j row show ?thesis by (auto simp: new_job_def new_operation_def)
    next
      case False
      with j have old: "map_of (db_jobs s) k = Some j" by simp
      from job_owner [OF wf old] none have "j_operation j \<noteq> db_next s" by auto
      with job_owner [OF wf old] show ?thesis by simp
    qed
  qed
  moreover have "wf_deleted ?t"
  proof -
    have "d_operation d \<noteq> db_next s" if "map_of (db_deletions s) k = Some d" for k d
      using deletion_operation [OF wf that] none by auto
    then show ?thesis using wf by (simp add: wf_def wf_deleted_def)
  qed
  ultimately show ?thesis using wf by (simp add: wf_def wf_revisions_def wf_current_def)
qed

lemma settle_many_tends:
  assumes jobs: "\<And>k j. p k j \<Longrightarrow> map_of (db_jobs s) k = Some j \<Longrightarrow> live_job (j_state j)"
      "\<And>j. job_identity (f j) = job_identity j"
    and ops: "\<And>k op. q k op \<Longrightarrow> map_of (db_operations s) k = Some op \<Longrightarrow>
        live_op (o_state op) \<or> (\<exists>x j. map_of (db_jobs s) x = Some j \<and> j_operation j = k \<and> live_job (j_state j))
        \<or> (\<forall>op. \<not> live_op (o_state (g op)))"
      "only_state g"
  shows "tends s (s\<lparr>db_jobs := t_update p f (db_jobs s), db_operations := t_update q g (db_operations s)\<rparr>)"
    (is "tends s ?t")
proof -
  have "wf ?t" if "wf s" by (rule wf_settle [OF that]) (use assms in auto)
  moreover have "indexed ?t = indexed s" by (simp add: indexed_def)
  moreover have "persists s ?t" using jobs(2) by (simp add: persists_def same_jobs_update)
  ultimately show ?thesis by (simp add: tends_def sound_def)
qed

lemma tends_frame:
  assumes "core t = core s" "db_embeddings t = db_embeddings s" "db_receipts t = db_receipts s" "db_audit t = db_audit s"
  shows "tends s t"
proof (rule tends_other)
  show "core t = core (s\<lparr>db_next := db_next s\<rparr>)" using assms(1) by simp
qed (use assms in auto)

lemma modify_tends:
  assumes "\<And>s. core (f s) = core s" "\<And>s. db_embeddings (f s) = db_embeddings s"
    "\<And>s. db_receipts (f s) = db_receipts s" "\<And>s. db_audit (f s) = db_audit s"
  shows "stays tends (tx_modify f)"
  by (rule stays_modify, rule tends_frame) (use assms in auto)

lemma fresh_tends: "stays tends fresh"
proof
  fix s u t assume "fresh s = Inr (u, t)"
  then have "t = s\<lparr>db_next := db_next s + 1\<rparr>" by (auto simp: fresh_def)
  then show "tends s t" by (intro tends_other [where n = "db_next s + 1"]) simp_all
qed

lemma audit_tends: "stays tends (audit i a res space note det)"
proof
  fix s u t assume "audit i a res space note det s = Inr (u, t)"
  then obtain ns e where t: "t = s\<lparr>db_next := db_next s + 1, db_notes := ns @ db_notes s, db_audit := e # db_audit s\<rparr>"
    by (rule audit_run) blast
  show "tends s t"
  proof (rule tends_other)
    show "core t = core (s\<lparr>db_next := db_next s + 1\<rparr>)" by (simp add: t core_def)
  qed (simp_all add: t suffix_def)
qed

lemma tx_res_Inr [simp]: "tx_res r s = Inr (a, t) \<longleftrightarrow> r = Inr a \<and> t = s"
  by (cases r) (auto simp: tx_res_def)

lemma tx_res_tends: "stays tends (tx_res r)"
  by (cases r) (simp_all add: tx_res_def stays_raise tends.kept_return)

lemma job_row: "wf s \<Longrightarrow> (x, j) \<in> set (db_jobs s) \<Longrightarrow> map_of (db_jobs s) x = Some j"
  by (simp add: wf_def wf_keys_def keys_below_def)

lemma tendsI: "(wf s \<Longrightarrow> tends s t) \<Longrightarrow> tends s t"
  by (auto simp: tends_def sound_def)

lemma cancel_index_jobs_tends: "stays tends (cancel_index_jobs space gen run)"
  unfolding cancel_index_jobs_def
  by (rule stays_modify, rule settle_many_tends)
    (auto simp: index_job_def live_job_def job_identity_def only_state_def live_op_def)

lemma retry_failed_tends: "stays tends (retry_failed space run)"
  unfolding retry_failed_def
proof (rule stays_modify, rule tendsI)
  fix s assume wf: "wf s"
  show "tends s (s\<lparr>db_jobs := t_update (\<lambda>k j. failed_job space run j)
       (\<lambda>j. j\<lparr>j_state := Pending, j_attempts := 0, j_available_at := db_now s, j_error := None\<rparr>) (db_jobs s),
     db_operations := t_update (\<lambda>k op. list_ex (\<lambda>(x, j). failed_job space run j \<and> j_operation j = k) (db_jobs s))
       (\<lambda>op. op\<lparr>o_state := Accepted, o_error := None\<rparr>) (db_operations s)\<rparr>)"
    by (rule settle_many_tends)
      (auto simp: failed_job_def live_job_def job_identity_def only_state_def list_ex_iff dest!: job_row [OF wf])
qed

lemma update_run_tends: "stays tends (update_run space k f)"
  unfolding update_run_def by (rule modify_tends) (simp_all add: core_def)

lemma update_settings_tends: "stays tends (update_settings space f)"
  unfolding update_settings_def by (rule modify_tends) (simp_all add: core_def)

lemma insert_run_tends: "stays tends (insert_run k r)"
  unfolding insert_run_def by (rule modify_tends) (simp_all add: core_def)

lemma point_to_candidate_tends: "stays tends (point_to_candidate space g k)"
  unfolding point_to_candidate_def by (rule modify_tends) (simp_all add: core_def)

lemma require_space_tends: "stays tends (require_space i space level w)"
  by (auto simp: stays_def tends.kept_refl)

lemmas reindex_within = tends.kept_bind tends.kept_then tends.kept_read tends.kept_return tends.kept_guard
  stays_raise fresh_tends audit_tends tx_res_tends update_run_tends update_settings_tends insert_run_tends
  point_to_candidate_tends cancel_index_jobs_tends retry_failed_tends require_space_tends

lemma model_state_of_same: "model_state_of rg space s = Inr (r, t) \<Longrightarrow> t = s"
  by (auto simp: model_state_of_def tx_runs split: option.splits)

lemma model_state_of_tends: "stays tends (model_state_of rg space)"
  by (auto simp: stays_def tends.kept_refl dest!: model_state_of_same)

lemma transaction_tends:
  assumes "stays tends body"
  shows "stays tends (transaction i body)"
proof
  fix s a t assume "transaction i body s = Inr (a, t)"
  then have "body (s\<lparr>db_callbacks := []\<rparr>) = Inr (a, t)" by (simp add: transaction_Inr)
  with assms have "tends (s\<lparr>db_callbacks := []\<rparr>) t" by (rule staysD)
  moreover have "tends s (s\<lparr>db_callbacks := []\<rparr>)" by (rule tends_frame) simp_all
  ultimately show "tends s t" using tends.kept_trans by blast
qed

lemma start_new_tends: "stays tends (start_new rg i space c)"
  unfolding start_new_def by (intro reindex_within)

lemma start_tends: "stays tends (start rg hash i space c key)"
proof -
  have rem: "stays tends (tx_modify (\<lambda>s. s\<lparr>db_model_receipts := f r s\<rparr>))" for f and r :: model_state
    by (rule modify_tends) (simp_all add: core_def)
  have idem: "stays tends (model_idempotency i space key d)" for d
    by (auto simp: stays_def model_idempotency_def tx_runs tends.kept_refl split: option.splits if_splits prod.splits)
  show ?thesis
    unfolding start_def
    by (intro transaction_tends reindex_within stays_option idem start_new_tends model_state_of_tends rem)
qed

lemma control_action_tends: "stays tends (control_action rg space k run old action)"
  unfolding control_action_def activate_def cancel_run_def
  by (intro stays_if stays_prod reindex_within)

lemma control_tends: "stays tends (control rg i space k action version approve)"
  unfolding control_def control_checked_def approve_egress_def
  by (intro stays_if transaction_tends stays_option reindex_within control_action_tends model_state_of_tends)

lemma resume_processing_tends: "stays tends (resume_processing rg i space expected approve)"
  unfolding resume_processing_def
  by (intro transaction_tends reindex_within stays_if model_state_of_tends)

lemma claim_reindex_tends: "stays tends (claim_reindex gens)"
proof -
  have list: "stays tends (case xs of [] \<Rightarrow> m | y # ys \<Rightarrow> f y ys)"
    if "stays tends m" "\<And>y ys. stays tends (f y ys)" for xs :: "(uuid \<times> reindex_run) list" and m :: "'b act" and f
    using that by (cases xs) simp_all
  show ?thesis
    unfolding claim_reindex_def by (intro reindex_within list stays_prod)
qed

section \<open>The backfill\<close>

text \<open>The candidate knows the revision: it has a job of the run or vectors of its generation.\<close>

definition queued :: "uuid \<Rightarrow> uuid \<Rightarrow> string \<Rightarrow> db \<Rightarrow> uuid \<Rightarrow> bool" where
  "queued space k gen s rid \<longleftrightarrow>
     (\<exists>x j. (x, j) \<in> set (db_jobs s) \<and> j_space j = space \<and> j_run j = Some k \<and> j_revision j = Some rid)
     \<or> indexed_in gen s rid"

definition but_queue :: "db \<Rightarrow> db" where
  "but_queue s = s\<lparr>db_jobs := [], db_operations := [], db_next := 0\<rparr>"

definition queues :: "uuid \<Rightarrow> uuid \<Rightarrow> string \<Rightarrow> db \<Rightarrow> db \<Rightarrow> bool" where
  "queues space k gen s t \<longleftrightarrow> tends s t \<and> but_queue t = but_queue s \<and> (\<forall>x. queued space k gen s x \<longrightarrow> queued space k gen t x)"

lemma queues_trans: "queues a k g s t \<Longrightarrow> queues a k g t u \<Longrightarrow> queues a k g s u"
  unfolding queues_def using tends.kept_trans by auto

lemma queues_refl: "queues a k g s s"
  by (simp add: queues_def tends.kept_refl)

lemma but_queue_frame:
  assumes "but_queue t = but_queue s"
  shows "db_memories t = db_memories s" "db_revisions t = db_revisions s" "db_sources t = db_sources s"
    "db_source_revisions t = db_source_revisions s" "db_embeddings t = db_embeddings s" "db_runs t = db_runs s"
    "db_settings t = db_settings s" "db_now t = db_now s"
  using assms by (cases s; cases t; simp add: but_queue_def)+

lemma retained_live:
  "retained_revision s space r \<Longrightarrow>
   \<exists>row. map_of (db_memories s) (r_memory r) = Some row \<and> m_space row = space \<and> m_deleted_at row = None"
  by (auto simp: retained_revision_def split: option.splits)

lemma retained_eq:
  assumes "db_memories t = db_memories s" "db_revisions t = db_revisions s" "db_sources t = db_sources s"
    "db_source_revisions t = db_source_revisions s"
  shows "retained_revisions space t = retained_revisions space s"
  using assms by (simp add: retained_revisions_def retained_revision_def cong: option.case_cong)

lemma retained_same:
  assumes "but_queue t = but_queue s"
  shows "retained_revision t = retained_revision s" "retained_revisions space t = retained_revisions space s"
  using but_queue_frame [OF assms]
  by (simp_all add: retained_revision_def retained_revisions_def fun_eq_iff cong: option.case_cong)

lemma enqueue_queues:
  assumes run: "enqueue_candidate a space m (Some rid) k (Some gen) s = Inr (b, t)"
    and live: "map_of (db_memories s) m = Some row" "m_space row = space" "m_deleted_at row = None"
  shows "queues space k gen s t \<and> queued space k gen t rid"
proof (cases b)
  case False
  with run have "t = s" "queued space k gen s rid"
    by (auto simp: enqueue_candidate_def tx_runs queued_def indexed_in_def list_ex_iff split: if_splits)
  then show ?thesis by (simp add: queues_refl)
next
  case True
  define now where "now = db_now s"
  from True run have 2: "t = s\<lparr>db_operations := (db_next s, new_operation a space m (Some rid) Reindex now) # db_operations s,
        db_next := db_next s + 2,
        db_jobs := (db_next s + 1, new_job space (db_next s) (Some rid) (Some gen) Embed (Some k) now) # db_jobs s\<rparr>"
    by (auto simp: enqueue_candidate_def tx_runs add_operation_def add_job_def now_def split: if_splits)
  have "tends s t"
  proof (rule tendsI)
    assume wf: "wf s"
    from wf_enqueue [OF wf live, where a = a and rid = "Some rid" and now = now and gen = "Some gen" and run = "Some k"] have "wf t" by (simp add: 2)
    moreover have "indexed t = indexed s" by (simp add: 2 indexed_def)
    moreover have "persists s t"
    proof -
      have "map_of (db_jobs s) (db_next s + 1) = None"
        using wf by (force simp: wf_def wf_keys_def keys_below_def map_of_eq_None_iff)
      then have "same_jobs (db_jobs s) (db_jobs t)" by (auto simp: 2 same_jobs_def)
      then show ?thesis by (simp add: persists_def 2)
    qed
    ultimately show "tends s t" by (simp add: tends_def sound_def)
  qed
  moreover have "queued space k gen s x \<longrightarrow> queued space k gen t x" for x
    by (auto simp: 2 queued_def indexed_in_def)
  moreover have "queued space k gen t rid"
    unfolding queued_def
    by (rule disjI1, rule exI [of _ "db_next s + 1"], rule exI [of _ "new_job space (db_next s) (Some rid) (Some gen) Embed (Some k) now"])
      (simp add: 2 new_job_def)
  moreover have "but_queue t = but_queue s" by (simp add: 2 but_queue_def)
  ultimately show ?thesis by (simp add: queues_def)
qed

lemma defer_held_queues: "defer_held space k rid s = Inr (u, t) \<Longrightarrow> queues space k gen s t"
proof -
  assume run: "defer_held space k rid s = Inr (u, t)"
  let ?p = "\<lambda>x j. j_space j = space \<and> j_run j = Some k \<and> j_revision j = Some rid \<and> j_state j = Pending"
  let ?f = "\<lambda>j. j\<lparr>j_available_at := db_now s + seconds 60, j_error := Some ''source_access_unavailable''\<rparr>"
  from run have t: "t = s\<lparr>db_jobs := t_update ?p ?f (db_jobs s)\<rparr>" by (simp add: defer_held_def)
  have "tends s (s\<lparr>db_jobs := t_update ?p ?f (db_jobs s), db_operations := t_update (\<lambda>k op. False) id (db_operations s)\<rparr>)"
    by (rule settle_many_tends) (auto simp: live_job_def job_identity_def only_state_def)
  then have "tends s t" by (simp add: t)
  moreover have "queued space k gen s x \<longrightarrow> queued space k gen t x" for x
    unfolding t queued_def indexed_in_def t_update_def by (force simp: image_iff)
  ultimately show ?thesis by (simp add: queues_def t but_queue_def)
qed

lemma backfill_rows_run:
  assumes "tx_each (backfill_revision k run) rows s = Inr (u, t)"
    and "\<forall>(rid, r)\<in>set rows. retained_revision s (rr_space run) r"
  shows "queues (rr_space run) k (rr_generation run) s t
    \<and> (\<forall>(rid, r)\<in>set rows. queued (rr_space run) k (rr_generation run) t rid)"
  using assms
proof (induction rows arbitrary: s)
  case Nil
  then show ?case by (simp add: queues_refl)
next
  case (Cons row rows)
  obtain rid r where row: "row = (rid, r)" by (cases row)
  let ?q = "queues (rr_space run) k (rr_generation run)"
  from Cons.prems(1) obtain s1 where one: "backfill_revision k run row s = Inr ((), s1)"
    and rest: "tx_each (backfill_revision k run) rows s1 = Inr (u, t)" by (auto simp: tx_runs)
  from Cons.prems(2) obtain m where m: "map_of (db_memories s) (r_memory r) = Some m" "m_space m = rr_space run"
    "m_deleted_at m = None" using retained_live [of s "rr_space run" r] by (auto simp: row)
  from one obtain created s0 where e: "enqueue_candidate (rr_author run) (rr_space run) (r_memory r) (Some rid) k
      (Some (rr_generation run)) s = Inr (created, s0)"
    and d: "s1 = s0 \<or> defer_held (rr_space run) k rid s0 = Inr ((), s1)"
    by (auto simp: backfill_revision_def row tx_runs split: if_splits)
  note q = enqueue_queues [OF e m]
  have 1: "?q s s1 \<and> queued (rr_space run) k (rr_generation run) s1 rid"
    using d
  proof
    assume "s1 = s0"
    with q show ?thesis by simp
  next
    assume "defer_held (rr_space run) k rid s0 = Inr ((), s1)"
    note h = defer_held_queues [OF this, of "rr_generation run"]
    from q h have "?q s s1" using queues_trans by blast
    moreover from q h have "queued (rr_space run) k (rr_generation run) s1 rid" by (simp add: queues_def)
    ultimately show ?thesis ..
  qed
  have "retained_revision s1 = retained_revision s" using 1 by (intro retained_same(1)) (simp add: queues_def)
  with Cons.prems(2) Cons.IH [OF rest] have 2: "?q s1 t"
    "\<forall>(rid, r)\<in>set rows. queued (rr_space run) k (rr_generation run) t rid" by simp_all
  from 1 2 have "?q s t" using queues_trans by blast
  moreover have "queued (rr_space run) k (rr_generation run) t rid" using 1 2(1) by (simp add: queues_def)
  ultimately show ?case using 2(2) by (simp add: row)
qed

end
