(* ===== verification/Reindex_Properties.thy ===== *)
theory Reindex_Properties
  imports Reindex_Theorems Worker_Examples
begin

text \<open>The properties of reindexing, and their witnesses on a small tenant.\<close>

section \<open>The backfill visits every revision\<close>

lemma take_sorted_prefix:
  assumes "sorted (map f ys)" "distinct (map f ys)" "x \<in> set ys" "take n ys \<noteq> []" "f x \<le> f (last (take n ys))"
  shows "x \<in> set (take n ys)"
proof (rule ccontr)
  assume no: "x \<notin> set (take n ys)"
  have split: "set ys = set (take n ys) \<union> set (drop n ys)" by (metis append_take_drop_id set_append)
  with no assms(3) have x: "x \<in> set (drop n ys)" by blast
  have "sorted (map f (take n ys @ drop n ys))" "distinct (map f (take n ys @ drop n ys))" using assms by simp_all
  then have "f (last (take n ys)) \<le> f x" "f (last (take n ys)) \<noteq> f x"
    using x last_in_set [OF assms(4)] unfolding map_append sorted_append distinct_append by (auto simp: image_iff Ball_def)
  with assms(5) show False by simp
qed

definition remaining :: "uuid \<Rightarrow> uuid \<Rightarrow> db \<Rightarrow> nat" where
  "remaining space cursor s = length (filter (\<lambda>(k, r). cursor < k) (retained_revisions space s))"

lemma filter_take_last:
  assumes "sorted (map fst ys)" "length (take n ys) = n" "0 < n"
  shows "length (filter (\<lambda>(k, r). fst (last (take n ys)) < k) ys) + n \<le> length ys"
proof -
  have ne: "take n ys \<noteq> []" using assms(2,3) by auto
  have "sorted (map fst (take n ys))" using assms(1) by (metis sorted_wrt_take take_map)
  then have "\<forall>x\<in>set (take n ys). fst x \<le> fst (last (take n ys))"
    by (subst (asm) append_butlast_last_id [OF ne, symmetric], subst append_butlast_last_id [OF ne, symmetric])
      (auto simp: sorted_append)
  then have "filter (\<lambda>(k, r). fst (last (take n ys)) < k) (take n ys) = []"
    by (auto simp: filter_empty_conv)
  moreover have "filter (\<lambda>(k, r). fst (last (take n ys)) < k) ys =
      filter (\<lambda>(k, r). fst (last (take n ys)) < k) (take n ys) @ filter (\<lambda>(k, r). fst (last (take n ys)) < k) (drop n ys)"
    by (metis append_take_drop_id filter_append)
  ultimately have "length (filter (\<lambda>(k, r). fst (last (take n ys)) < k) ys) \<le> length (drop n ys)"
    by (metis append_Nil length_filter_le)
  moreover have "n \<le> length ys" using assms(2) by simp
  ultimately show ?thesis by simp
qed

lemma backfill_batch_run:
  assumes "backfill_batch n c s = Inr (True, t)"
  obtains run rows u where "owned_run c s = Some run" "rows = next_revisions n (rr_space run) (rr_cursor run) s"
    "tx_each (backfill_revision (fst c) run) rows s = Inr ((), u)"
    "t = u\<lparr>db_runs := t_update (\<lambda>k r. k = fst c \<and> rr_space r = rr_space run)
       (\<lambda>r. r\<lparr>rr_cursor := (if rows = [] then rr_cursor run else fst (last rows)), rr_scan := length rows < n,
          rr_lease := None, rr_lease_until := None, rr_updated_at := db_now u\<rparr>) (db_runs u)\<rparr>"
proof -
  have cur: "source_current (rr_space (snd c)) s"
    by (rule ccontr) (use assms in \<open>simp add: backfill_batch_def\<close>)
  obtain run where own: "owned_run c s = Some run"
    by (cases "owned_run c s") (use assms cur in \<open>simp_all add: backfill_batch_def\<close>)
  have few: "\<not> 1000 \<le> unfinished (rr_space run) (fst c) s"
    by (rule notI) (use assms cur own in \<open>simp add: backfill_batch_def tx_runs\<close>)
  define rows where rows: "rows = next_revisions n (rr_space run) (rr_cursor run) s"
  from assms cur own few obtain u x y where run: "tx_each (backfill_revision (fst c) run) rows s = Inr (x, u)"
    and up: "update_run (rr_space run) (fst c) (touched_run (\<lambda>r. r\<lparr>rr_cursor := (if rows = [] then rr_cursor run
        else fst (last rows)), rr_scan := length rows < n, rr_lease := None, rr_lease_until := None\<rparr>) u) u = Inr (y, t)"
    by (auto simp only: backfill_batch_def tx_runs tx_read_at tx_bind_Inr rows if_False option.case not_True_eq_False
        not_False_eq_True simp_thms prod.inject sum.inject tx_return_at)
  show ?thesis
    by (rule that [OF own rows]) (use run up in \<open>auto simp: update_run_def touched_run_def [abs_def] split del: if_split\<close>)
qed

lemma owned_run_row: "owned_run c s = Some run \<Longrightarrow> map_of (db_runs s) (fst c) = Some run"
  by (auto simp: owned_run_def run_of_def split: option.splits if_splits)

lemma next_revisions_retained:
  "(k, r) \<in> set (next_revisions n space cursor s) \<Longrightarrow> retained_revision s space r"
  by (auto simp: next_revisions_def retained_revisions_def dest!: in_set_takeD)

lemma backfill_batch_queues:
  assumes "backfill_batch n c s = Inr (True, t)"
  obtains run where "owned_run c s = Some run" "queues (rr_space run) (fst c) (rr_generation run) s (t\<lparr>db_runs := db_runs s\<rparr>)"
    "\<forall>(rid, r)\<in>set (next_revisions n (rr_space run) (rr_cursor run) s). queued (rr_space run) (fst c) (rr_generation run) t rid"
    "map_of (db_runs t) (fst c) = Some (run\<lparr>rr_cursor := (let rows = next_revisions n (rr_space run) (rr_cursor run) s in
        if rows = [] then rr_cursor run else fst (last rows)),
      rr_scan := length (next_revisions n (rr_space run) (rr_cursor run) s) < n,
      rr_lease := None, rr_lease_until := None, rr_updated_at := db_now s\<rparr>)"
proof -
  from assms obtain run rows u where own: "owned_run c s = Some run"
    and rows: "rows = next_revisions n (rr_space run) (rr_cursor run) s"
    and run: "tx_each (backfill_revision (fst c) run) rows s = Inr ((), u)"
    and t: "t = u\<lparr>db_runs := t_update (\<lambda>k r. k = fst c \<and> rr_space r = rr_space run)
       (\<lambda>r. r\<lparr>rr_cursor := (if rows = [] then rr_cursor run else fst (last rows)), rr_scan := length rows < n,
          rr_lease := None, rr_lease_until := None, rr_updated_at := db_now u\<rparr>) (db_runs u)\<rparr>"
    by (rule backfill_batch_run)
  have "\<forall>(rid, r)\<in>set rows. retained_revision s (rr_space run) r"
    using next_revisions_retained rows by blast
  from backfill_rows_run [OF run this]
  have q: "queues (rr_space run) (fst c) (rr_generation run) s u"
    "\<forall>(rid, r)\<in>set rows. queued (rr_space run) (fst c) (rr_generation run) u rid" by simp_all
  have frame: "db_runs u = db_runs s" "db_now u = db_now s"
    using q(1) but_queue_frame [of u s] by (simp_all add: queues_def)
  have 1: "t\<lparr>db_runs := db_runs s\<rparr> = u" by (simp add: t flip: frame(1))
  have 2: "\<forall>(rid, r)\<in>set rows. queued (rr_space run) (fst c) (rr_generation run) t rid"
    using q(2) by (simp add: t queued_def indexed_in_def)
  have 3: "map_of (db_runs t) (fst c) = Some (run\<lparr>rr_cursor := (if rows = [] then rr_cursor run else fst (last rows)),
      rr_scan := length rows < n, rr_lease := None, rr_lease_until := None, rr_updated_at := db_now s\<rparr>)"
    using owned_run_row [OF own] by (simp add: t frame)
  show ?thesis
  proof (rule that [OF own])
    show "queues (rr_space run) (fst c) (rr_generation run) s (t\<lparr>db_runs := db_runs s\<rparr>)" using q(1) by (simp only: 1)
    show "\<forall>(rid, r)\<in>set (next_revisions n (rr_space run) (rr_cursor run) s). queued (rr_space run) (fst c) (rr_generation run) t rid"
      using 2 unfolding rows .
  qed (use 3 in \<open>simp only: rows Let_def\<close>)
qed

text \<open>
  C32. A committed batch of the backfill skips nothing: every retained revision of the space between
  the old and the new cursor now has a job of the candidate or vectors of its generation, and when
  the scan is marked complete so has every retained revision above the old cursor.
\<close>

theorem backfill_skips_nothing:
  assumes "wf s" and "backfill_batch n c s = Inr (True, t)"
  shows "\<exists>run run'. map_of (db_runs s) (fst c) = Some run \<and> map_of (db_runs t) (fst c) = Some run'
    \<and> (\<forall>(rid, r)\<in>set (retained_revisions (rr_space run) t).
         rr_cursor run < rid \<and> (rid \<le> rr_cursor run' \<or> rr_scan run')
         \<longrightarrow> queued (rr_space run) (fst c) (rr_generation run) t rid)"
proof -
  from assms(2) obtain run where own: "owned_run c s = Some run"
    and q: "queues (rr_space run) (fst c) (rr_generation run) s (t\<lparr>db_runs := db_runs s\<rparr>)"
    and seen: "\<forall>(rid, r)\<in>set (next_revisions n (rr_space run) (rr_cursor run) s).
        queued (rr_space run) (fst c) (rr_generation run) t rid"
    and run': "map_of (db_runs t) (fst c) = Some (run\<lparr>rr_cursor := (let rows = next_revisions n (rr_space run) (rr_cursor run) s in
        if rows = [] then rr_cursor run else fst (last rows)),
      rr_scan := length (next_revisions n (rr_space run) (rr_cursor run) s) < n,
      rr_lease := None, rr_lease_until := None, rr_updated_at := db_now s\<rparr>)"
    by (rule backfill_batch_queues)
  let ?xs = "filter (\<lambda>(k, r). rr_cursor run < k) (retained_revisions (rr_space run) s)"
  let ?ys = "sort_key fst ?xs"
  let ?rows = "next_revisions n (rr_space run) (rr_cursor run) s"
  have rows: "?rows = take n ?ys" by (simp add: next_revisions_def)
  have "distinct (map fst (db_revisions s))" using assms(1) by (simp add: wf_def wf_keys_def keys_below_def)
  then have "distinct (map fst ?xs)" by (simp add: retained_revisions_def filter_drop_distinct_keys)
  then have dist: "distinct (map fst ?ys)" by (simp add: distinct_map)
  have same: "retained_revisions (rr_space run) t = retained_revisions (rr_space run) s"
    using retained_same(2) [of "t\<lparr>db_runs := db_runs s\<rparr>" s] q
    by (simp add: queues_def retained_revisions_def retained_revision_def cong: option.case_cong)
  have "queued (rr_space run) (fst c) (rr_generation run) t rid"
    if r: "(rid, r) \<in> set (retained_revisions (rr_space run) t)" "rr_cursor run < rid"
      and upto: "rid \<le> (if ?rows = [] then rr_cursor run else fst (last ?rows)) \<or> length ?rows < n" for rid r
  proof -
    have y: "(rid, r) \<in> set ?ys" using r by (simp add: same)
    have "(rid, r) \<in> set ?rows"
    proof (cases "length ?rows < n")
      case True
      then have "?rows = ?ys" by (simp add: rows)
      with y show ?thesis by simp
    next
      case False
      with upto r(2) have "?rows \<noteq> []" "rid \<le> fst (last ?rows)" by (auto split: if_splits)
      with take_sorted_prefix [OF sorted_sort_key dist y] show ?thesis by (simp add: rows)
    qed
    with seen show ?thesis by blast
  qed
  then show ?thesis
    using owned_run_row [OF own] run' by (auto simp: Let_def)
qed

text \<open>
  C33. The backfill ends: a committed batch either completes the scan or leaves at least a batch
  fewer retained revisions above its cursor, so with a fixed set of revisions a bounded number of
  batches completes every scan.
\<close>

theorem backfill_makes_progress:
  assumes "1 \<le> n" and "backfill_batch n c s = Inr (True, t)"
  shows "\<exists>run run'. map_of (db_runs s) (fst c) = Some run \<and> map_of (db_runs t) (fst c) = Some run'
    \<and> (rr_scan run' \<or> remaining (rr_space run) (rr_cursor run') t + n \<le> remaining (rr_space run) (rr_cursor run) s)"
proof -
  from assms(2) obtain run where own: "owned_run c s = Some run"
    and q: "queues (rr_space run) (fst c) (rr_generation run) s (t\<lparr>db_runs := db_runs s\<rparr>)"
    and run': "map_of (db_runs t) (fst c) = Some (run\<lparr>rr_cursor := (let rows = next_revisions n (rr_space run) (rr_cursor run) s in
        if rows = [] then rr_cursor run else fst (last rows)),
      rr_scan := length (next_revisions n (rr_space run) (rr_cursor run) s) < n,
      rr_lease := None, rr_lease_until := None, rr_updated_at := db_now s\<rparr>)"
    by (rule backfill_batch_queues)
  let ?R = "retained_revisions (rr_space run) s"
  let ?xs = "filter (\<lambda>(k, r). rr_cursor run < k) ?R"
  let ?ys = "sort_key fst ?xs"
  let ?rows = "next_revisions n (rr_space run) (rr_cursor run) s"
  have rows: "?rows = take n ?ys" by (simp add: next_revisions_def)
  have same: "retained_revisions (rr_space run) t = ?R"
    using retained_same(2) [of "t\<lparr>db_runs := db_runs s\<rparr>" s] q
    by (simp add: queues_def retained_revisions_def retained_revision_def cong: option.case_cong)
  have "remaining (rr_space run) (fst (last ?rows)) t + n \<le> length ?xs" if full: "\<not> length ?rows < n"
  proof -
    have len: "length (take n ?ys) = n" using full by (simp add: rows)
    with assms(1) have "?rows \<noteq> []" unfolding rows by (metis length_0_conv not_one_le_zero)
    then have "last ?rows \<in> set ?ys" using rows by (metis last_in_set in_set_takeD)
    then have up: "rr_cursor run < fst (last ?rows)" by auto
    have "filter (\<lambda>(k, r). fst (last ?rows) < k) ?xs = filter (\<lambda>(k, r). fst (last ?rows) < k) ?R"
      using up by (auto intro: filter_cong)
    moreover have "length (filter (\<lambda>(k, r). fst (last ?rows) < k) ?ys) = length (filter (\<lambda>(k, r). fst (last ?rows) < k) ?xs)"
      by (simp add: filter_sort)
    moreover have "length (filter (\<lambda>(k, r). fst (last ?rows) < k) ?ys) + n \<le> length ?ys"
      using filter_take_last [OF sorted_sort_key len] assms(1) by (simp add: rows)
    ultimately show ?thesis by (simp add: remaining_def same)
  qed
  then show ?thesis
    using owned_run_row [OF own] run' assms(1)
    by (auto simp: Let_def remaining_def)
qed

section \<open>The cut-over\<close>

lemma filter_all: "length (filter P xs) = length xs \<Longrightarrow> x \<in> set xs \<Longrightarrow> P x"
  by (metis length_filter_less less_irrefl)

lemma control_run:
  assumes "control rg i space k action v approve s = Inr (r, t)"
  obtains run s0 s1 s2 s3 where "s0 = s\<lparr>db_callbacks := []\<rparr>" "run_of s space k = Some run"
    "ro_run (settings (rg_default rg) space s) = Some k" "ro_version (settings (rg_default rg) space s) = v"
    "approve_egress rg space k run action approve s0 = Inr ((), s1)"
    "control_action rg space k run (ro_generation (settings (rg_default rg) space s)) action s1 = Inr ((), s2)"
    "update_settings space (\<lambda>st. st\<lparr>es_version := es_version st + 1\<rparr>) s2 = Inr ((), s3)"
    "audit i (''embedding.'' @ action) (uuid_text k) space None [(''generation_id'', rr_generation run)] s3 = Inr ((), t)"
proof -
  define s0 where "s0 = s\<lparr>db_callbacks := []\<rparr>"
  have same: "settings f space s0 = settings f space s" "run_of s0 space k = run_of s space k" for f
    by (simp_all add: s0_def settings_def run_of_def cong: option.case_cong)
  from assms have "control_checked rg i space k action v approve s = Inr (r, t)"
    by (auto simp: control_def simp del: insert_iff split: if_splits)
  then obtain run u where "run_of s space k = Some run" "ro_run (settings (rg_default rg) space s) = Some k"
      "ro_version (settings (rg_default rg) space s) = v"
    and "tx_then (approve_egress rg space k run action approve)
           (tx_then (control_action rg space k run (ro_generation (settings (rg_default rg) space s)) action)
           (tx_then (update_settings space (\<lambda>st. st\<lparr>es_version := es_version st + 1\<rparr>))
           (tx_then (audit i (''embedding.'' @ action) (uuid_text k) space None [(''generation_id'', rr_generation run)])
                    (model_state_of rg space)))) s0 = Inr (u, t)"
    unfolding control_checked_def transaction_Inr s0_def [symmetric]
    by (cases "run_of s space k") (simp_all add: tx_bind_runs [where m = "tx_read f" for f]
        tx_then_runs [where m = "require_space i space l w" for l w] tx_then_runs [where m = "tx_guard p e" for p e] same)
  then obtain s1 s2 s3 s4 where "run_of s space k = Some run" "ro_run (settings (rg_default rg) space s) = Some k"
      "ro_version (settings (rg_default rg) space s) = v" "approve_egress rg space k run action approve s0 = Inr ((), s1)"
      "control_action rg space k run (ro_generation (settings (rg_default rg) space s)) action s1 = Inr ((), s2)"
      "update_settings space (\<lambda>st. st\<lparr>es_version := es_version st + 1\<rparr>) s2 = Inr ((), s3)"
      "audit i (''embedding.'' @ action) (uuid_text k) space None [(''generation_id'', rr_generation run)] s3 = Inr ((), s4)"
    and "model_state_of rg space s4 = Inr (u, t)"
    unfolding tx_then_runs by (auto simp del: append.simps)
  moreover from this(8) have "t = s4" by (rule model_state_of_same)
  ultimately show ?thesis by (intro that [OF s0_def]) simp_all
qed

text \<open>
  C8. A candidate becomes the search index only when it is complete: an activation commits only if
  the scan is done and every retained revision of the space has vectors of the new generation; then
  the space searches exactly that generation, the old one is remembered, no candidate is left, and
  no unfinished job of the old generation remains in the space.
\<close>

theorem activation_is_complete:
  assumes "control rg i space k ''activate'' v approve s = Inr (r, t)"
  shows "\<exists>run st. run_of s space k = Some run \<and> rr_scan run
    \<and> map_of (db_settings t) space = Some st \<and> es_generation st = rr_generation run \<and> es_run st = None
    \<and> es_previous st = Some (active_generation (rg_default rg) s space)
    \<and> (\<forall>(rid, x)\<in>set (retained_revisions space t). indexed_in (es_generation st) t rid)
    \<and> (\<forall>(x, j)\<in>set (db_jobs t). j_space j = space \<and> j_kind j = Embed
         \<and> j_generation j = Some (active_generation (rg_default rg) s space) \<longrightarrow> \<not> live_job (j_state j))"
proof -
  let ?old = "ro_generation (settings (rg_default rg) space s)"
  have old: "?old = active_generation (rg_default rg) s space"
    by (simp add: settings_def active_generation_def Let_def split: option.split)
  from assms obtain run s0 s1 s2 s3 where s0: "s0 = s\<lparr>db_callbacks := []\<rparr>" and run: "run_of s space k = Some run"
    and cand: "ro_run (settings (rg_default rg) space s) = Some k"
    and 1: "approve_egress rg space k run ''activate'' approve s0 = Inr ((), s1)"
    and 2: "control_action rg space k run ?old ''activate'' s1 = Inr ((), s2)"
    and 3: "update_settings space (\<lambda>st. st\<lparr>es_version := es_version st + 1\<rparr>) s2 = Inr ((), s3)"
    and 4: "audit i (''embedding.'' @ ''activate'') (uuid_text k) space None [(''generation_id'', rr_generation run)] s3 = Inr ((), t)"
    by (rule control_run)
  from cand obtain st where st: "map_of (db_settings s) space = Some st"
    by (auto simp: settings_def split: option.splits)
  have s1: "s1 = s0 \<or> (\<exists>rs. s1 = s0\<lparr>db_runs := rs\<rparr>)"
    using 1 by (auto simp: approve_egress_def tx_runs update_run_def split: if_splits)
  let ?f = "\<lambda>st. st\<lparr>es_previous := Some (es_generation st), es_generation := rr_generation run, es_run := None, es_paused := False\<rparr>"
  from 2 obtain g where full: "rr_scan run" "fst (coverage space (rr_generation run) s1) = snd (coverage space (rr_generation run) s1)"
    and s2: "s2 = s1\<lparr>db_settings := t_update (\<lambda>k st. k = space) ?f (db_settings s1),
        db_runs := t_update (\<lambda>x r. x = k \<and> rr_space r = space) g (db_runs s1),
        db_jobs := t_update (\<lambda>k j. index_job space (Some ?old) None j)
          (\<lambda>j. j\<lparr>j_state := JobCancelled, j_lease := None, j_lease_until := None\<rparr>) (db_jobs s1),
        db_operations := t_update (\<lambda>k op. list_ex (\<lambda>(x, j). index_job space (Some ?old) None j \<and> j_operation j = k) (db_jobs s1))
          (\<lambda>op. op\<lparr>o_state := OpCancelled\<rparr>) (db_operations s1)\<rparr>"
    by (auto simp: control_action_def activate_def tx_runs update_settings_def update_run_def cancel_index_jobs_def
        split: prod.splits)
  from 4 obtain ns e where t: "t = s3\<lparr>db_next := db_next s3 + 1, db_notes := ns @ db_notes s3, db_audit := e # db_audit s3\<rparr>"
    by (rule audit_run) blast
  have s3: "s3 = s2\<lparr>db_settings := t_update (\<lambda>k st. k = space) (\<lambda>st. st\<lparr>es_version := es_version st + 1\<rparr>) (db_settings s2)\<rparr>"
    using 3 by (simp add: update_settings_def)
  have frame: "db_settings s1 = db_settings s" "db_embeddings t = db_embeddings s1"
    using s1 by (auto simp: s0 t s3 s2)
  have same: "retained_revisions space t = retained_revisions space s1"
    by (rule retained_eq) (simp_all add: t s3 s2)
  have all: "\<forall>(rid, x)\<in>set (retained_revisions space s1). indexed_in (rr_generation run) s1 rid"
    using filter_all [of "\<lambda>(rid, x). indexed_in (rr_generation run) s1 rid" "retained_revisions space s1"] full(2)
    by (auto simp: coverage_def)
  then have idx: "\<forall>(rid, x)\<in>set (retained_revisions space t). indexed_in (rr_generation run) t rid"
    by (simp add: frame same indexed_in_def)
  have set: "map_of (db_settings t) space = Some ((?f st)\<lparr>es_version := es_version st + 1\<rparr>)"
    by (simp add: t s3 s2 frame st)
  have gen: "es_generation st = active_generation (rg_default rg) s space"
    by (simp add: active_generation_def st)
  have jobs: "\<forall>(x, j)\<in>set (db_jobs t). j_space j = space \<and> j_kind j = Embed \<and> j_generation j = Some ?old \<longrightarrow> \<not> live_job (j_state j)"
    by (auto simp: t s3 s2 t_update_def index_job_def live_job_def split: if_split_asm)
  show ?thesis
    by (rule exI [of _ run], rule exI [of _ "(?f st)\<lparr>es_version := es_version st + 1\<rparr>"])
      (use run full(1) set idx jobs gen old in simp)
qed

section \<open>Witnesses\<close>

definition demo_registry :: registry where
  "demo_registry = \<lparr>rg_default = ''g1'', rg_default_egress = False,
     rg_profiles = [(''e5-small'', \<lparr>pf_label = ''small'', pf_generation = ''g1'', pf_egress = False, pf_unit = ''model_tokens''\<rparr>),
                    (''e5-base'', \<lparr>pf_label = ''base'', pf_generation = ''g2'', pf_egress = False, pf_unit = ''model_tokens''\<rparr>)]\<rparr>"

definition demo_start :: reindex_input where
  "demo_start = \<lparr>xi_profile = ''e5-base'', xi_expected = 0, xi_approve = False\<rparr>"

lemmas reindex_defs = demo_registry_def demo_start_def start_def start_new_def registry_profile_def tx_res_def
  model_idempotency_def insert_run_def point_to_candidate_def model_state_of_def settings_def run_of_def
  candidate_of_def coverage_def retained_revisions_def retained_revision_def job_counts_def

lemmas backfill_defs = claim_reindex_def claimable_run_def leased_run_def update_run_def backfill_batch_def
  source_current_def owned_run_def unfinished_def next_revisions_def backfill_revision_def revision_current_def
  enqueue_candidate_def touched_run_def

lemmas control_defs = control_def control_checked_def approve_egress_def control_action_def activate_def
  registry_get_def cancel_index_jobs_def index_job_def update_settings_def indexed_in_def

definition demo_candidate :: worker where
  "demo_candidate = demo_worker\<lparr>wk_generation := ''g2''\<rparr>"

lemma started_run:
  "\<exists>rc s r t c u v. save demo_sv alice 7 demo_input ''k1'' demo_db = Inr (rc, s)
     \<and> start demo_registry xi_profile adam 7 demo_start ''k9'' s = Inr (r, t)
     \<and> claim_reindex [''g1'', ''g2''] t = Inr (Some c, u) \<and> backfill_batch 5 c u = Inr (True, v)
     \<and> retained_revisions 7 v \<noteq> []"
  by (simp add: demo_defs run_defs save_defs reindex_defs backfill_defs seconds_def Let_def)

lemma activated_run:
  "\<exists>rc s r t c u v c' w x r' y. save demo_sv alice 7 demo_input ''k1'' demo_db = Inr (rc, s)
     \<and> start demo_registry xi_profile adam 7 demo_start ''k9'' s = Inr (r, t)
     \<and> claim_reindex [''g1'', ''g2''] t = Inr (Some c, u) \<and> backfill_batch 5 c u = Inr (True, v)
     \<and> claim demo_candidate True v = Inr (Some c', w)
     \<and> publish demo_candidate c' ''tea'' [(0, 3, [1])] w = Inr (True, x)
     \<and> control demo_registry adam 7 57 ''activate'' 1 False x = Inr (r', y) \<and> retained_revisions 7 y \<noteq> []"
  by (simp add: demo_defs run_defs save_defs reindex_defs backfill_defs seconds_def Let_def demo_candidate_def demo_worker_def
        claim_defs index_defs owned_def control_defs)

lemma started_wf:
  assumes "save demo_sv alice 7 demo_input ''k1'' demo_db = Inr (rc, s)"
    and "start rg h adam 7 x ''k9'' s = Inr (r, t)" and "claim_reindex gens t = Inr (c, u)"
  shows "wf u"
  using saved_sound [OF assms(1)] staysD [OF start_tends assms(2)] staysD [OF claim_reindex_tends assms(3)]
  by (simp add: tends_def sound_def)

theorem backfill_skips_nothing_witness:
  "\<exists>c s t run run'. backfill_batch 5 c s = Inr (True, t) \<and> map_of (db_runs s) (fst c) = Some run
     \<and> map_of (db_runs t) (fst c) = Some run' \<and> retained_revisions 7 t \<noteq> []"
proof -
  from started_run obtain rc s r t c u v where s: "save demo_sv alice 7 demo_input ''k1'' demo_db = Inr (rc, s)"
    and t: "start demo_registry xi_profile adam 7 demo_start ''k9'' s = Inr (r, t)"
    and c: "claim_reindex [''g1'', ''g2''] t = Inr (Some c, u)" and b: "backfill_batch 5 c u = Inr (True, v)"
    and ne: "retained_revisions 7 v \<noteq> []" by blast
  from backfill_skips_nothing [OF started_wf [OF s t c] b] b ne show ?thesis by blast
qed

theorem backfill_makes_progress_witness:
  "\<exists>c s t run run'. backfill_batch 5 c s = Inr (True, t) \<and> map_of (db_runs s) (fst c) = Some run
     \<and> map_of (db_runs t) (fst c) = Some run'
     \<and> (rr_scan run' \<or> remaining (rr_space run) (rr_cursor run') t + 5 \<le> remaining (rr_space run) (rr_cursor run) s)"
proof -
  from started_run obtain c u v where b: "backfill_batch 5 c u = Inr (True, v)" by blast
  from backfill_makes_progress [OF _ b] b show ?thesis by fastforce
qed

theorem activation_is_complete_witness:
  "\<exists>s t r st. control demo_registry adam 7 57 ''activate'' 1 False s = Inr (r, t)
     \<and> map_of (db_settings t) 7 = Some st \<and> retained_revisions 7 t \<noteq> []
     \<and> (\<forall>(rid, x)\<in>set (retained_revisions 7 t). indexed_in (es_generation st) t rid)"
proof -
  from activated_run obtain x r y where c: "control demo_registry adam 7 57 ''activate'' 1 False x = Inr (r, y)"
    and ne: "retained_revisions 7 y \<noteq> []" by blast
  from activation_is_complete [OF c] obtain st where "map_of (db_settings y) 7 = Some st"
    "\<forall>(rid, x)\<in>set (retained_revisions 7 y). indexed_in (es_generation st) y rid" by blast
  with c ne show ?thesis by blast
qed

end
