(* ===== verification/Tenant.thy ===== *)
theory Tenant
  imports Worker_Examples Reindex_Properties Memory_Authority
begin

text \<open>
  A tenant's database under everything at once: requests of the service, turns of the indexing
  workers cut at their transactions, the reindexing commands and the backfill, in any order and on
  behalf of anyone, with time passing in between. Every event is one transaction; an event that
  raises leaves the database as it was. Claims that workers hold outlive the transactions between
  their steps, so an event acts on any claim ever handed out, however old.
\<close>

section \<open>The machine\<close>

text \<open>What the processes of one deployment are configured with.\<close>

record deployment =
  dp_service :: svc
  dp_forget_key :: "uuid \<Rightarrow> uuid \<Rightarrow> string"
  dp_worker :: worker
  dp_registry :: registry
  dp_reindex_hash :: "reindex_input \<Rightarrow> digest"
  dp_alnum :: "char \<Rightarrow> bool"
  dp_batch :: nat

record tenant =
  tn_db :: db
  tn_claims :: "claimed list"
  tn_runs :: "(uuid \<times> reindex_run) list"

datatype tenant_event =
    Call identity command string
  | Review identity uuid review_input
  | Retry identity uuid
  | PutBlock identity uuid string block_input
  | PauseSpace uuid string
  | ResumeSpace uuid uuid
  | Elapse time
  | Claim bool
  | Renew nat
  | Begin nat
  | Publish nat string "(nat \<times> nat \<times> real list) list"
  | Erase nat
  | Fail nat error
  | StartReindex identity uuid reindex_input string
  | ControlReindex identity uuid uuid string nat bool
  | ResumeProcessing identity uuid nat bool
  | ClaimRun
  | Backfill nat

definition on_db :: "'a act \<Rightarrow> tenant \<Rightarrow> tenant" where
  "on_db m s = s\<lparr>tn_db := snd (commit m (tn_db s))\<rparr>"

definition on_claim :: "nat \<Rightarrow> (claimed \<Rightarrow> 'a act) \<Rightarrow> tenant \<Rightarrow> tenant" where
  "on_claim n m s = (if n < length (tn_claims s) then on_db (m (tn_claims s ! n)) s else s)"

definition claim_next :: "worker \<Rightarrow> bool \<Rightarrow> tenant \<Rightarrow> tenant" where
  "claim_next w schedulable s = (case commit (claim w schedulable) (tn_db s) of
       (Inr (Some c), t) \<Rightarrow> s\<lparr>tn_db := t, tn_claims := tn_claims s @ [c]\<rparr>
     | (_, t) \<Rightarrow> s\<lparr>tn_db := t\<rparr>)"

definition claim_run_next :: "registry \<Rightarrow> tenant \<Rightarrow> tenant" where
  "claim_run_next rg s = (case commit (claim_reindex (generation_ids rg)) (tn_db s) of
       (Inr (Some c), t) \<Rightarrow> s\<lparr>tn_db := t, tn_runs := tn_runs s @ [c]\<rparr>
     | (_, t) \<Rightarrow> s\<lparr>tn_db := t\<rparr>)"

fun tenant_apply :: "deployment \<Rightarrow> tenant_event \<Rightarrow> tenant \<Rightarrow> tenant" where
  "tenant_apply dp (Call i c key) s = on_db (keyed_call (dp_service dp) (dp_forget_key dp) i c key) s"
| "tenant_apply dp (Review i m c) s = on_db (review (dp_service dp) i m c) s"
| "tenant_apply dp (Retry i k) s = on_db (retry_operation i k) s"
| "tenant_apply dp (PutBlock i space key c) s = on_db (put_block (dp_alnum dp) i space key c) s"
| "tenant_apply dp (PauseSpace space reason) s = on_db (pause_space space reason) s"
| "tenant_apply dp (ResumeSpace space token) s = on_db (resume_space space token) s"
| "tenant_apply dp (Elapse d) s = on_db (tx_modify (\<lambda>s. s\<lparr>db_now := db_now s + max 0 d\<rparr>)) s"
| "tenant_apply dp (Claim schedulable) s = claim_next (dp_worker dp) schedulable s"
| "tenant_apply dp (Renew n) s = on_claim n (keep_lease (dp_worker dp)) s"
| "tenant_apply dp (Begin n) s = on_claim n (process_begin (dp_worker dp)) s"
| "tenant_apply dp (Publish n content chunks) s = on_claim n (\<lambda>c. publish (dp_worker dp) c content chunks) s"
| "tenant_apply dp (Erase n) s = on_claim n purge s"
| "tenant_apply dp (Fail n e) s = on_claim n (\<lambda>c. fail (dp_worker dp) c e) s"
| "tenant_apply dp (StartReindex i space c key) s = on_db (start (dp_registry dp) (dp_reindex_hash dp) i space c key) s"
| "tenant_apply dp (ControlReindex i space k action version approve) s =
     on_db (control (dp_registry dp) i space k action version approve) s"
| "tenant_apply dp (ResumeProcessing i space expected approve) s =
     on_db (resume_processing (dp_registry dp) i space expected approve) s"
| "tenant_apply dp ClaimRun s = claim_run_next (dp_registry dp) s"
| "tenant_apply dp (Backfill n) s =
     (if n < length (tn_runs s) then on_db (backfill_batch (dp_batch dp) (tn_runs s ! n)) s else s)"

definition tenant_step :: "deployment \<Rightarrow> tenant \<Rightarrow> tenant_event \<Rightarrow> tenant res" where
  "tenant_step dp s e = Inr (tenant_apply dp e s)"

section \<open>Every event keeps the database sound\<close>

text \<open>Every claim a worker was handed names a job that is still what it was.\<close>

definition tenant_ok :: "tenant \<Rightarrow> bool" where
  "tenant_ok s \<longleftrightarrow> sound (tn_db s) \<and> (\<forall>c\<in>set (tn_claims s). known c (tn_db s))"

text \<open>What an event may do: the claims handed out only grow and the database tends on.\<close>

definition moves_on :: "tenant \<Rightarrow> tenant \<Rightarrow> bool" where
  "moves_on s t \<longleftrightarrow> (tenant_ok s \<longrightarrow> tenant_ok t \<and> persists (tn_db s) (tn_db t) \<and> prefix (tn_claims s) (tn_claims t))"

lemma moves_on_refl: "moves_on s s"
  by (simp add: moves_on_def)

lemma moves_on_trans: "moves_on s t \<Longrightarrow> moves_on t u \<Longrightarrow> moves_on s u"
  unfolding moves_on_def by (meson persists_trans prefix_order.trans)

lemma on_db_claims [simp]: "tn_claims (on_db m s) = tn_claims s" "tn_runs (on_db m s) = tn_runs s"
  by (simp_all add: on_db_def)

lemma on_db_moves:
  assumes "\<And>a t. m (tn_db s) = Inr (a, t) \<Longrightarrow> sound (tn_db s) \<Longrightarrow> tends (tn_db s) t"
  shows "tenant_ok s \<longrightarrow> tenant_ok (on_db m s) \<and> persists (tn_db s) (tn_db (on_db m s))"
proof (cases "m (tn_db s)")
  case (Inl e)
  then show ?thesis by (simp add: on_db_def)
next
  case (Inr p)
  obtain a t where p: "p = (a, t)" by (cases p)
  from assms [of a t] Inr p show ?thesis
    by (auto simp: on_db_def tenant_ok_def tends_def intro: known_persists)
qed

lemma on_db_stays: "stays tends m \<Longrightarrow> moves_on s (on_db m s)"
  using on_db_moves [of m s] by (auto simp: moves_on_def dest: staysD)

lemma on_claim_moves:
  assumes "\<And>c a t. m c (tn_db s) = Inr (a, t) \<Longrightarrow> known c (tn_db s) \<Longrightarrow> tends (tn_db s) t"
  shows "moves_on s (on_claim n m s)"
proof (cases "tenant_ok s \<and> n < length (tn_claims s)")
  case True
  then have "known (tn_claims s ! n) (tn_db s)" by (simp add: tenant_ok_def)
  with True assms on_db_moves [of "m (tn_claims s ! n)" s] show ?thesis
    by (auto simp: moves_on_def on_claim_def)
qed (auto simp: moves_on_def on_claim_def)

lemma stays_safe_tends: "stays safe m \<Longrightarrow> stays tends m"
  by (auto simp: stays_def safe_tends)

lemma put_block_tends: "stays tends (put_block alnum i space key c)"
proof
  fix s r t assume "put_block alnum i space key c s = Inr (r, t)"
  then show "tends s t"
  proof (rule put_block_run)
    assume c: "core t = core (s\<lparr>db_next := db_next s + 1\<rparr>)" "access_view t = access_view s"
      "db_receipts t = db_receipts s" "suffix (db_audit s) (db_audit t)" and "identity_ok i s"
    show "tends s t"
    proof (rule tends_other [OF c(1)])
      show "db_embeddings t = db_embeddings s" using \<open>put_block alnum i space key c s = Inr (r, t)\<close>
        by (auto simp: put_block_def Let_def tx_runs transaction_Inr elim!: audit_run)
    qed (use c in simp_all)
  qed
qed

lemma elapse_tends: "stays tends (tx_modify (\<lambda>s. s\<lparr>db_now := db_now s + d\<rparr>))"
  by (rule modify_tends) (simp_all add: core_def)

lemma pause_space_tends: "stays tends (pause_space space reason)"
  unfolding pause_space_def by (intro reindex_within modify_tends) (simp_all add: core_def)

lemma resume_space_tends: "stays tends (resume_space space token)"
  unfolding resume_space_def by (intro reindex_within modify_tends) (simp_all add: core_def)

lemma backfill_batch_tends: "stays tends (backfill_batch batch c)"
proof
  fix s b t assume run: "backfill_batch batch c s = Inr (b, t)"
  have rows: "tends s u" if "tx_each (backfill_revision k run) (next_revisions batch (rr_space run) (rr_cursor run) s) s = Inr (x, u)"
    for k run x u
  proof -
    have "\<forall>(rid, r)\<in>set (next_revisions batch (rr_space run) (rr_cursor run) s). retained_revision s (rr_space run) r"
      by (auto simp: next_revisions_def retained_revisions_def dest!: in_set_takeD)
    from backfill_rows_run [OF that this] show ?thesis by (simp add: queues_def)
  qed
  from run show "tends s t"
    by (auto simp: backfill_batch_def tx_runs tends.kept_refl split: if_splits option.splits
        intro: staysD [OF update_run_tends] tends.kept_trans [OF rows staysD [OF update_run_tends]])
qed

lemma claim_next_moves: "moves_on s (claim_next w b s)"
proof (cases "claim w b (tn_db s)")
  case (Inl e)
  then show ?thesis by (simp add: claim_next_def moves_on_refl)
next
  case (Inr p)
  obtain r t where p: "p = (r, t)" by (cases p)
  note run = claim_run [of w b "tn_db s" r t]
  show ?thesis
  proof (cases r)
    case None
    then have "t = (tn_db s)\<lparr>db_next := db_next (tn_db s) + 1\<rparr>" using run Inr p by simp
    then have "tends (tn_db s) t" by (intro tends_other [where n = "db_next (tn_db s) + 1"]) simp_all
    then show ?thesis using Inr p None
      by (auto simp: claim_next_def moves_on_def tenant_ok_def tends_def intro: known_persists)
  next
    case (Some c)
    then have l: "leases w (tn_db s) t c" using run Inr p by simp
    show ?thesis using leases_effect [OF l] Inr p Some
      by (auto simp: claim_next_def moves_on_def tenant_ok_def tends_def sound_def intro: known_persists)
  qed
qed

lemma claim_run_next_moves: "moves_on s (claim_run_next rg s)"
proof -
  have "tn_db (claim_run_next rg s) = tn_db (on_db (claim_reindex (generation_ids rg)) s)"
    "tn_claims (claim_run_next rg s) = tn_claims s"
    by (auto simp: claim_run_next_def on_db_def split: prod.splits sum.splits option.splits)
  then show ?thesis using on_db_stays [OF claim_reindex_tends [of "generation_ids rg"], of s]
    by (simp add: moves_on_def tenant_ok_def on_db_def)
qed

lemma tenant_apply_moves: "moves_on s (tenant_apply dp e s)"
proof (cases e)
  case (Call i c key)
  then show ?thesis by (simp add: on_db_stays stays_safe_tends keyed_call_safe)
next
  case (Review i m c)
  then show ?thesis by (simp add: on_db_stays stays_safe_tends review_def transaction_safe review_safe)
next
  case (Retry i k)
  then show ?thesis by (simp add: on_db_stays stays_safe_tends retry_safe)
next
  case (Fail n e)
  have "moves_on s (on_claim n (\<lambda>c. fail (dp_worker dp) c e) s)"
    by (rule on_claim_moves) (rule fail_tends)
  then show ?thesis using Fail by simp
next
  case (Backfill n)
  then show ?thesis by (simp add: on_db_stays backfill_batch_tends moves_on_refl)
qed (simp_all add: on_db_stays on_claim_moves put_block_tends pause_space_tends resume_space_tends elapse_tends claim_next_moves claim_run_next_moves
    keep_lease_tends process_begin_tends fail_tends start_tends control_tends resume_processing_tends
    conjunct1 [OF publish_run] conjunct1 [OF purge_run])

interpretation tenant_machine: event_machine "tenant_step dp" tenant_ok for dp
  using tenant_apply_moves by unfold_locales (auto simp: tenant_step_def moves_on_def)

end
