(* ===== verification/Tenant_Ledger.thy ===== *)
theory Tenant_Ledger
  imports Tenant
begin

text \<open>
  The abstract ledger of a tenant: for each memory whether it is absent, at a version or gone. The
  whole machine refines it: requests make at most one ledger step of their kind, and workers,
  reindexing, blocks and time make none.
\<close>

section \<open>The ledger\<close>

datatype stage = Absent | At nat | Gone

definition ledger :: "db \<Rightarrow> uuid \<Rightarrow> stage" where
  "ledger s m = (case map_of (db_memories s) m of None \<Rightarrow> Absent
     | Some r \<Rightarrow> if m_deleted_at r = None then At (m_version r) else Gone)"

inductive ledger_step :: "tenant_event \<Rightarrow> (uuid \<Rightarrow> stage) \<Rightarrow> (uuid \<Rightarrow> stage) \<Rightarrow> bool" where
  stutter: "ledger_step e l l"
| enter: "l m = Absent \<Longrightarrow> ledger_step (Call i (SaveCommand space c) key) l (l(m := At 1))"
| advance: "l m = At v \<Longrightarrow> ledger_step (Call i (ReviseCommand m c) key) l (l(m := At (Suc v)))"
| rule_on: "l m = At v \<Longrightarrow> ledger_step (Review i m c) l (l(m := At (Suc v)))"
| withdraw: "\<forall>k\<in>gone. \<exists>v. l k = At v \<Longrightarrow>
     ledger_step (Call i (ForgetCommand m expected) key) l (\<lambda>k. if k \<in> gone then Gone else l k)"

inductive_cases ledger_stepE: "ledger_step e l l'"

lemma ledger_cong: "db_memories t = db_memories s \<Longrightarrow> ledger t = ledger s"
  by (simp add: ledger_def fun_eq_iff)

lemma ledger_update:
  assumes "db_memories t = t_update (\<lambda>k r. k = m) f (db_memories s)"
  shows "ledger t k = (if k \<noteq> m then ledger s k
     else case map_of (db_memories s) m of None \<Rightarrow> Absent
       | Some r \<Rightarrow> if m_deleted_at (f r) = None then At (m_version (f r)) else Gone)"
  by (cases "map_of (db_memories s) k") (auto simp: ledger_def assms)

section \<open>Quiet transactions\<close>

abbreviation (input) quiet :: "'a act \<Rightarrow> bool" where
  "quiet m \<equiv> stays (same db_memories) m"

lemma quiet_modify: "(\<And>s. db_memories (f s) = db_memories s) \<Longrightarrow> quiet (tx_modify f)"
  by (simp add: stays_modify)

lemma quiet_fresh: "quiet fresh"
  by (auto simp: stays_def fresh_def)

lemma quiet_audit: "quiet (audit i a res space note det)"
  by (auto simp: stays_def elim!: audit_run)

lemma quiet_res: "quiet (tx_res r)"
  by (auto simp: stays_def)

lemma quiet_require: "quiet (require_space i space level w)"
  by (auto simp: stays_def)

lemma quiet_transaction: "quiet body \<Longrightarrow> quiet (transaction i body)"
  by (auto simp: stays_def transaction_Inr)

lemma quiet_reads: "(\<And>s r t. m s = Inr (r, t) \<Longrightarrow> t = s) \<Longrightarrow> quiet m"
  by (auto simp: stays_def)

lemmas quiet_within = kept_part.kept_bind [of db_memories] kept_part.kept_then [of db_memories]
  kept_part.kept_read [of db_memories] kept_part.kept_return [of db_memories] kept_part.kept_guard [of db_memories]
  kept_part.kept_each [of db_memories] stays_raise stays_if stays_option stays_prod
  quiet_fresh quiet_audit quiet_res quiet_require quiet_transaction

lemma quiet_update_job: "quiet (update_job k f)"
  unfolding update_job_def by (rule quiet_modify) simp

lemma quiet_update_operation: "quiet (update_operation k f)"
  unfolding update_operation_def by (rule quiet_modify) simp

lemma quiet_finish: "quiet (finish c st)"
  by (auto simp: stays_def finish_def tx_runs)

lemma quiet_postpone: "quiet (postpone c n code)"
  by (auto simp: stays_def postpone_def tx_runs)

lemma quiet_policy_step: "quiet (policy_step w c finishing)"
  unfolding policy_step_def by (intro quiet_within quiet_finish quiet_postpone quiet_update_job)

lemma quiet_worker:
  "quiet (keep_lease w c)" "quiet (process_begin w c)" "quiet (fail w c e)"
  unfolding keep_lease_def process_begin_def fail_def Let_def
  by (intro quiet_within quiet_finish quiet_postpone quiet_policy_step quiet_update_job quiet_update_operation)+

lemma quiet_publish: "quiet (publish w c content chunks)"
proof -
  have "quiet (insert_chunk w j content row)" for j row
    by (auto simp: stays_def elim!: insert_chunk_run)
  moreover have "quiet (drop_embeddings rid gen)" for rid gen
    unfolding drop_embeddings_def by (rule quiet_modify) simp
  ultimately show ?thesis unfolding publish_def
    by (intro quiet_within quiet_finish quiet_policy_step) auto
qed

lemma leases_memories:
  assumes "leases w s t c" shows "db_memories t = db_memories s"
proof -
  from assms obtain js turn spaces where t: "t = s\<lparr>db_next := db_next s + 1, db_jobs := js, db_turn := turn, db_spaces := spaces\<rparr>"
    unfolding leases_def by blast
  show ?thesis unfolding t by simp
qed

lemma quiet_claim: "quiet (claim w b)"
proof
  fix s r t assume "claim w b s = Inr (r, t)"
  note run = claim_run [OF this]
  show "same db_memories s t"
  proof (cases r)
    case None
    then show ?thesis using run by simp
  next
    case (Some c)
    then show ?thesis using run leases_memories by simp
  qed
qed

lemma quiet_model_state: "quiet (model_state_of rg space)"
  by (rule quiet_reads) (rule model_state_of_same)

lemma quiet_index_jobs: "quiet (cancel_index_jobs space gen run)" "quiet (retry_failed space k)"
  unfolding cancel_index_jobs_def retry_failed_def by (intro quiet_modify, simp)+

lemma quiet_runs: "quiet (update_run space k f)" "quiet (update_settings space g)" "quiet (insert_run k r)"
    "quiet (point_to_candidate space gen k)"
  unfolding update_run_def update_settings_def insert_run_def point_to_candidate_def by (intro quiet_modify, simp)+

lemmas quiet_reindex = quiet_within quiet_model_state quiet_index_jobs quiet_runs

lemma quiet_start: "quiet (start rg hash i space c key)"
proof -
  have "quiet (tx_modify (\<lambda>s. s\<lparr>db_model_receipts := f r s\<rparr>))" for f and r :: model_state
    by (rule quiet_modify) simp
  moreover have "quiet (model_idempotency i space key d)" for d
    by (auto simp: stays_def model_idempotency_def tx_runs split: option.splits if_splits prod.splits)
  moreover have "quiet (start_new rg i space c)" unfolding start_new_def by (intro quiet_reindex)
  ultimately show ?thesis unfolding start_def by (intro quiet_reindex)
qed

lemma quiet_control: "quiet (control rg i space k action version approve)"
proof -
  have "quiet (control_action rg space k run old action)" for run old
    unfolding control_action_def activate_def cancel_run_def by (intro quiet_reindex)
  then show ?thesis unfolding control_def control_checked_def approve_egress_def by (intro quiet_reindex)
qed

lemma quiet_resume: "quiet (resume_processing rg i space expected approve)"
  unfolding resume_processing_def by (intro quiet_reindex)

lemma stays_list: "stays R m \<Longrightarrow> (\<And>y ys. stays R (f y ys)) \<Longrightarrow> stays R (case xs of [] \<Rightarrow> m | y # ys \<Rightarrow> f y ys)"
  by (cases xs) simp_all

lemma quiet_claim_run: "quiet (claim_reindex gens)"
  unfolding claim_reindex_def by (intro quiet_reindex stays_list)

lemma quiet_backfill: "quiet (backfill_batch batch c)"
proof -
  have "quiet (enqueue_candidate a space m rid run gen)" for a space m rid run gen
    by (auto simp: stays_def enqueue_candidate_def tx_runs add_operation_def add_job_def split: if_splits)
  moreover have "quiet (defer_held space run rid)" for space run rid
    unfolding defer_held_def by (rule quiet_modify) simp
  ultimately have "quiet (backfill_revision k run row)" for k run row
    unfolding backfill_revision_def by (intro quiet_within)
  then show ?thesis unfolding backfill_batch_def by (intro quiet_reindex)
qed

lemma quiet_retry: "quiet (retry_operation i k)"
proof -
  have m: "quiet (tx_modify (\<lambda>s. s\<lparr>db_jobs := f s\<rparr>))" "quiet (tx_modify (\<lambda>s. s\<lparr>db_operations := g s\<rparr>))" for f g
    by (rule quiet_modify, simp)+
  show ?thesis unfolding retry_operation_def by (intro quiet_within m)
qed

lemma quiet_put_block: "quiet (put_block alnum i space key c)"
  by (auto simp: stays_def put_block_def Let_def tx_runs transaction_Inr elim!: audit_run)

lemma quiet_fences: "quiet (pause_space space reason)" "quiet (resume_space space token)"
  unfolding pause_space_def resume_space_def by (intro quiet_within quiet_modify, simp)+

section \<open>Requests\<close>

lemma purge_ledger:
  assumes "purge c s = Inr (b, t)" "known c s"
  shows "ledger t = ledger s"
proof (cases "owned c s")
  case False
  then show ?thesis using purge_run [OF assms] by simp
next
  case True
  show ?thesis
  proof (cases b)
    case True
    then obtain m u where e: "erased_tables m s u" and f: "finish c Ready u = Inr ((), t)"
      using purge_run [OF assms] by blast
    have "ledger t = ledger u" by (rule ledger_cong) (rule staysD [OF quiet_finish f])
    also have "ledger u = ledger s"
      using e by (auto simp: erased_tables_def ledger_def fun_eq_iff split: option.splits)
    finally show ?thesis .
  next
    case False
    then have "db_memories t = db_memories s" using assms(1) True
      by (auto simp: purge_def tx_runs finish_def split: option.splits if_splits)
    then show ?thesis by (rule ledger_cong)
  qed
qed


lemma request_committed: "transaction i body s = Inr (a, t) \<Longrightarrow> body (s\<lparr>db_callbacks := []\<rparr>) = Inr (a, t)"
  by (simp add: transaction_Inr)

lemma ledger_callbacks [simp]: "ledger (s\<lparr>db_callbacks := x\<rparr>) = ledger s"
  by (rule ledger_cong) simp

lemma wf_callbacks: "wf s \<Longrightarrow> wf (s\<lparr>db_callbacks := x\<rparr>)"
  by simp

lemma replay_ledger: "replay_previous sv r s = Inr (rc, t) \<Longrightarrow> ledger t = ledger s"
  by (auto elim!: replay_previous_run intro!: ledger_cong)

lemma save_ledger:
  assumes wf: "wf s" and run: "save_in_transaction sv i space c key s = Inr (rc, t)"
  shows "ledger_step (Call i (SaveCommand space c) key) (ledger s) (ledger t)"
proof (cases "map_of (db_receipts s) (space, id_principal i, key)")
  case (Some d)
  then have "ledger t = ledger s" using run by (cases d) (auto simp: save_in_transaction_Inr intro: replay_ledger)
  then show ?thesis by (simp add: stutter)
next
  case None
  then have "save_new sv i space c key (sv_request sv (IngestRequest c)) s = Inr (rc, t)"
    using run by (simp add: save_in_transaction_Inr)
  then obtain row rid revs so sr ops jobs rcs where
    w: "wrote s t ((db_next s, row) # t_update (\<lambda>k r. k = db_next s) (\<lambda>r. r\<lparr>m_current := Some rid, m_version := 1\<rparr>) (db_memories s))
       revs so sr ops jobs rcs" and row: "m_version row = 1" "m_deleted_at row = None"
    by (rule save_new_run) blast
  have new: "map_of (db_memories s) (db_next s) = None"
    using wf by (force simp: wf_def wf_keys_def keys_below_def map_of_eq_None_iff)
  then have "ledger t = (ledger s)(db_next s := At 1)"
    using row by (simp add: ledger_def fun_eq_iff wrote_core(2) [OF w])
  moreover have "ledger s (db_next s) = Absent" using new by (simp add: ledger_def)
  ultimately show ?thesis using enter [of "ledger s" "db_next s"] by simp
qed

lemma bumped_ledger:
  assumes "map_of (db_memories s) m = Some row" "m_deleted_at row = None"
    "db_memories t = t_update (\<lambda>k r. k = m) f (db_memories s)"
    "m_version (f row) = m_version row + 1" "m_deleted_at (f row) = None"
  shows "ledger s m = At (m_version row) \<and> ledger t = (ledger s)(m := At (m_version row + 1))"
  using assms ledger_update [OF assms(3)] by (auto simp: fun_eq_iff) (simp add: ledger_def)

lemma revise_apply_ledger:
  assumes run: "revise_apply sv i m c row ev reason slot s = Inr (rc, t)"
    and row: "map_of (db_memories s) m = Some row" "m_deleted_at row = None"
  shows "ledger s m = At (m_version row) \<and> ledger t = (ledger s)(m := At (m_version row + 1))"
proof -
  from run obtain rid now revs so sr ops jobs rcs where
    w: "wrote s t (t_update (\<lambda>k r. k = m) (\<lambda>r. r\<lparr>m_current := Some rid, m_version := m_version row + 1,
                 m_subject := in_subject c, m_kind := in_kind c, m_updated_at := now\<rparr>) (db_memories s)) revs so sr ops jobs rcs"
    by (rule revise_apply_run) blast
  show ?thesis by (rule bumped_ledger [OF row wrote_core(2) [OF w]]) (simp_all add: row(2))
qed

lemma revise_ledger:
  assumes run: "revise_in_transaction sv i m c key preserve s = Inr (rc, t)"
  shows "ledger t = ledger s \<or> (\<exists>v. ledger s m = At v \<and> ledger t = (ledger s)(m := At (v + 1)))"
proof -
  from run obtain row :: memory and rv where k: "revise_keyed sv i (m_space row) m c key preserve rv s = Inr (rc, t)"
    unfolding revise_in_transaction_Inr by blast
  have locked: "\<exists>v. ledger s m = At v \<and> ledger t = (ledger s)(m := At (v + 1))"
    if "revise_locked sv i space m c slot preserve rv s = Inr (rc, t)" for space slot rv
    using that revise_apply_ledger by (fastforce simp: revise_locked_Inr memory_row_Inr dest: select_memory_Some)
  show ?thesis
  proof (cases key)
    case None
    with k locked show ?thesis by (simp add: revise_keyed_def)
  next
    case (Some x)
    with k locked replay_ledger show ?thesis
      by (cases "map_of (db_receipts s) (m_space row, id_principal i, x)") (auto simp: revise_keyed_Inr)
  qed
qed

lemma review_ledger:
  assumes run: "review_in_transaction sv i m c s = Inr (res, t)"
  shows "\<exists>v. ledger s m = At v \<and> ledger t = (ledger s)(m := At (v + 1))"
proof -
  obtain row where row: "map_of (db_memories s) m = Some row" "m_deleted_at row = None"
    and r: "review_apply sv i m c row s = Inr (res, t)"
    using run by (auto simp: review_in_transaction_def tx_runs memory_row_Inr require_version_def dest!: select_memory_Some)
  have "db_memories t = t_update (\<lambda>k r. k = m) (\<lambda>r. r\<lparr>m_review := rv_state c,
       m_version := m_version row + 1, m_updated_at := db_now s\<rparr>) (db_memories s)"
    using review_apply_run [OF r] unfolding reviewed_def by (elim conjE exE) simp
  from bumped_ledger [OF row this] row(2) show ?thesis by simp
qed

section \<open>Withdrawals\<close>

definition withdraws :: "db \<Rightarrow> db \<Rightarrow> bool" where
  "withdraws s t \<longleftrightarrow> safe s t \<and> (wf s \<longrightarrow>
     (\<forall>k. ledger t k = ledger s k \<or> (\<exists>v. ledger s k = At v) \<and> ledger t k = Gone))"

interpretation withdrawing: kept_relation withdraws
proof
  show "withdraws s s" for s by (simp add: withdraws_def safe.kept_refl)
next
  fix s t u assume st: "withdraws s t" and tu: "withdraws t u"
  then have "safe s u" using safe.kept_trans by (auto simp: withdraws_def)
  moreover have "ledger u k = ledger s k \<or> (\<exists>v. ledger s k = At v) \<and> ledger u k = Gone" if "wf s" for k
    using st tu that by (simp add: withdraws_def safe_def) metis
  ultimately show "withdraws s u" by (simp add: withdraws_def)
qed

lemma withdraws_quiet: "safe s t \<Longrightarrow> ledger t = ledger s \<Longrightarrow> withdraws s t"
  by (simp add: withdraws_def)

lemma forget_record_withdraws:
  assumes run: "forget_record sv i m row s = Inr (rc, t)"
    and row: "map_of (db_memories s) m = Some row0" "m_space row0 = m_space row"
  shows "withdraws s t"
proof -
  from run obtain ops jobs where f: "forgot i (m_space row) m s t ops jobs (rc_operation rc)"
    by (rule forget_record_run)
  note c = forgot_core [OF f]
  have "ledger t k = ledger s k \<or> (\<exists>v. ledger s k = At v) \<and> ledger t k = Gone" if wf: "wf s" for k
  proof -
    have "m_deleted_at row0 = None" using deletion_iff [OF wf, of m] c(12) row(1) by auto
    moreover have "ledger t k = (if k \<noteq> m then ledger s k else Gone)"
      using ledger_update [OF c(2) [unfolded deleted_row_def], of k] row(1) by simp
    ultimately show ?thesis using row(1) by (simp add: ledger_def)
  qed
  then show ?thesis using forget_record_safe [OF assms] by (simp add: withdraws_def)
qed

lemma receipts_withdraws: "remember_receipt i space key d r s = Inr (rc, t) \<Longrightarrow> withdraws s t"
  using receipt_safe by (auto simp: remember_receipt_Inr intro!: withdraws_quiet ledger_cong)

lemma forget_with_withdraws:
  assumes w: "stays withdraws (withdraw m)"
  shows "stays withdraws (forget_with withdraw sv i m expected key)"
proof
  fix s rc t assume "forget_with withdraw sv i m expected key s = Inr (rc, t)"
  then obtain row previous where row: "map_of (db_memories s) m = Some row"
    and r: "forget_row withdraw sv i m expected key row previous s = Inr (rc, t)"
    unfolding forget_with_Inr may_withdraw_def by (blast dest: select_memory_Some)
  consider (replay) p where "replay_previous sv p s = Inr (rc, t)"
    | (again) d where "forget_again i m key d row s = Inr (rc, t)"
    | (live) cf s1 rc0 s2 d x where "withdraw m s = Inr (cf, s1)" "forget_record sv i m row s1 = Inr (rc0, s2)"
        "remember_receipt i (m_space row) key d x s2 = Inr (rc, t)"
    using r by (cases previous; cases "m_deleted_at row")
      (auto simp: forget_row_def forget_live_def tx_runs require_version_def)
  then show "withdraws s t"
  proof cases
    case replay
    then show ?thesis using replay_safe replay_ledger by (auto intro: withdraws_quiet)
  next
    case again
    moreover from again have "ledger t = ledger s"
      by (auto simp: forget_again_def tx_runs remember_receipt_Inr intro!: ledger_cong split: option.splits)
    ultimately show ?thesis using forget_again_safe by (auto intro: withdraws_quiet)
  next
    case live
    have a: "withdraws s s1" using staysD [OF w live(1)] .
    show ?thesis
    proof (cases "wf s")
      case True
      from a True row obtain row1 where "map_of (db_memories s1) m = Some row1" "m_space row1 = m_space row"
        by (auto simp: withdraws_def safe_def row_evolves_def dest!: evolves_memory)
      then have "withdraws s1 s2" by (rule forget_record_withdraws [OF live(2)])
      with a receipts_withdraws [OF live(3)] show ?thesis using withdrawing.kept_trans by blast
    qed (simp add: withdraws_def safe_def)
  qed
qed

lemma forget_withdraws: "stays withdraws (forget_in_transaction sv i fk m expected key)"
proof -
  have plain: "stays withdraws (forget_plain sv i k e key)" for k e key
    unfolding forget_plain_def by (rule forget_with_withdraws) (rule withdrawing.kept_return)
  have "stays withdraws (forget_sibling sv i m fk k)" for k
    unfolding forget_sibling_def
    by (intro withdrawing.kept_bind withdrawing.kept_read stays_option stays_if withdrawing.kept_return plain)
  then have "stays withdraws (forget_siblings sv i fk m)"
    unfolding forget_siblings_def
    by (intro withdrawing.kept_bind withdrawing.kept_read stays_option withdrawing.kept_return withdrawing.kept_then
        withdrawing.kept_each)
  then show ?thesis unfolding forget_in_transaction_def by (rule forget_with_withdraws)
qed

lemma withdraws_ledger:
  assumes "wf s" "withdraws s t"
  shows "ledger_step (Call i (ForgetCommand m expected) key) (ledger s) (ledger t)"
proof -
  let ?gone = "{k. ledger t k \<noteq> ledger s k}"
  have "ledger t k = ledger s k \<or> (\<exists>v. ledger s k = At v) \<and> ledger t k = Gone" for k
    using assms by (simp add: withdraws_def)
  then have "ledger t = (\<lambda>k. if k \<in> ?gone then Gone else ledger s k)" "\<forall>k\<in>?gone. \<exists>v. ledger s k = At v"
    by (auto simp: fun_eq_iff)
  then show ?thesis using withdraw [of ?gone "ledger s" i m expected key] by simp
qed


section \<open>The machine refines the ledger\<close>

lemma on_db_same:
  "(\<And>a t. m (tn_db s) = Inr (a, t) \<Longrightarrow> ledger t = ledger (tn_db s)) \<Longrightarrow> ledger (tn_db (on_db m s)) = ledger (tn_db s)"
  by (cases "m (tn_db s)") (auto simp: on_db_def)

lemma on_db_quiet: "quiet m \<Longrightarrow> ledger (tn_db (on_db m s)) = ledger (tn_db s)"
  by (rule on_db_same) (auto intro: ledger_cong dest: staysD)

lemma on_claim_quiet: "(\<And>c. quiet (m c)) \<Longrightarrow> ledger (tn_db (on_claim n m s)) = ledger (tn_db s)"
  by (simp add: on_claim_def on_db_quiet)

lemma on_db_ledger:
  assumes "\<And>a t. m (tn_db s) = Inr (a, t) \<Longrightarrow> ledger_step e (ledger (tn_db s)) (ledger t)"
  shows "ledger_step e (ledger (tn_db s)) (ledger (tn_db (on_db m s)))"
  using assms by (cases "m (tn_db s)") (auto simp: on_db_def stutter)

lemma call_ledger:
  assumes wf: "wf s" and run: "keyed_call sv fk i c key s = Inr (rc, t)"
  shows "ledger_step (Call i c key) (ledger s) (ledger t)"
proof (cases c)
  case (SaveCommand space x)
  then have "save_in_transaction sv i space x key (s\<lparr>db_callbacks := []\<rparr>) = Inr (rc, t)"
    using run by (simp add: save_def request_committed)
  from save_ledger [OF wf_callbacks [OF wf] this] show ?thesis by (simp add: SaveCommand)
next
  case (ReviseCommand m x)
  then have "revise_in_transaction sv i m x (Some key) False (s\<lparr>db_callbacks := []\<rparr>) = Inr (rc, t)"
    using run by (simp add: revise_def request_committed)
  from revise_ledger [OF this] show ?thesis
    using advance [of "ledger s" m _ i x key] stutter by (fastforce simp: ReviseCommand)
next
  case (ForgetCommand m x)
  then have "forget_in_transaction sv i fk m x key (s\<lparr>db_callbacks := []\<rparr>) = Inr (rc, t)"
    using run by (simp add: forget_def request_committed)
  from withdraws_ledger [OF wf_callbacks [OF wf] staysD [OF forget_withdraws this]] show ?thesis
    by (simp add: ForgetCommand)
qed

lemma claim_next_ledger: "ledger (tn_db (claim_next w b s)) = ledger (tn_db s)"
proof -
  have "tn_db (claim_next w b s) = tn_db (on_db (claim w b) s)"
    by (auto simp: claim_next_def on_db_def split: prod.splits sum.splits option.splits)
  then show ?thesis by (simp add: on_db_quiet quiet_claim)
qed

lemma claim_run_next_ledger: "ledger (tn_db (claim_run_next rg s)) = ledger (tn_db s)"
proof -
  have "tn_db (claim_run_next rg s) = tn_db (on_db (claim_reindex (generation_ids rg)) s)"
    by (auto simp: claim_run_next_def on_db_def split: prod.splits sum.splits option.splits)
  then show ?thesis by (simp add: on_db_quiet quiet_claim_run)
qed

lemma erase_ledger:
  assumes "tenant_ok s" shows "ledger (tn_db (on_claim n purge s)) = ledger (tn_db s)"
proof (cases "n < length (tn_claims s)")
  case True
  then have "known (tn_claims s ! n) (tn_db s)" using assms by (simp add: tenant_ok_def)
  then have "ledger (tn_db (on_db (purge (tn_claims s ! n)) s)) = ledger (tn_db s)"
    by (intro on_db_same) (rule purge_ledger)
  then show ?thesis using True by (simp add: on_claim_def)
qed (simp add: on_claim_def)

lemma elapse_quiet: "quiet (tx_modify (\<lambda>s. s\<lparr>db_now := f s\<rparr>))"
  by (rule quiet_modify) simp

definition changes_ledger :: "tenant_event \<Rightarrow> bool" where
  "changes_ledger e = (case e of Call i c key \<Rightarrow> True | Review i m c \<Rightarrow> True | _ \<Rightarrow> False)"

lemma quiet_events:
  assumes "tenant_ok s" "\<not> changes_ledger e"
  shows "ledger (tn_db (tenant_apply dp e s)) = ledger (tn_db s)"
  using assms by (cases e) (simp_all add: changes_ledger_def on_db_quiet on_claim_quiet erase_ledger claim_next_ledger claim_run_next_ledger
      elapse_quiet quiet_worker quiet_publish quiet_start quiet_control quiet_resume quiet_backfill quiet_retry quiet_put_block quiet_fences)

text \<open>
  C2. The whole tenant refines the ledger of its memories: from a sound state, a save enters at most
  one new memory at version 1, a revision or a review moves at most its own memory to the next
  version, a withdrawal ends live memories for good, and every other event (retries, blocks, time,
  workers, erasure, reindexing) leaves the ledger as it is.
\<close>

theorem tenant_refines_the_ledger:
  assumes "tenant_ok s" "tenant_step dp s e = Inr t"
  shows "ledger_step e (ledger (tn_db s)) (ledger (tn_db t))"
proof -
  have t: "t = tenant_apply dp e s" using assms(2) by (simp add: tenant_step_def)
  have wf: "wf (tn_db s)" using assms(1) by (simp add: tenant_ok_def sound_def)
  consider (call) i c key where "e = Call i c key" | (review) i m c where "e = Review i m c"
    | (quiet) "\<not> changes_ledger e"
    by (cases e) (auto simp: changes_ledger_def)
  then show ?thesis
  proof cases
    case call
    have "ledger_step e (ledger (tn_db s)) (ledger (tn_db (on_db (keyed_call (dp_service dp) (dp_forget_key dp) i c key) s)))"
      unfolding call by (rule on_db_ledger) (rule call_ledger [OF wf])
    then show ?thesis unfolding t by (simp add: call)
  next
    case (review i m c)
    have "ledger_step e (ledger (tn_db s)) (ledger u)" if "review (dp_service dp) i m c (tn_db s) = Inr (a, u)" for a u
    proof -
      have "review_in_transaction (dp_service dp) i m c ((tn_db s)\<lparr>db_callbacks := []\<rparr>) = Inr (a, u)"
        using that by (simp add: review_def request_committed)
      from review_ledger [OF this] show ?thesis
        using rule_on [of "ledger (tn_db s)" m _ i c] by (fastforce simp: review)
    qed
    then show ?thesis unfolding t by (simp add: review on_db_ledger)
  next
    case quiet
    then show ?thesis unfolding t by (simp add: quiet_events [OF assms(1)] stutter)
  qed
qed

end
