(* ===== verification/Tenant_Properties.thy ===== *)
theory Tenant_Properties
  imports Tenant_Ledger
begin

text \<open>
  What holds in every state a tenant can reach: the database is sound, what must persist persists,
  and an erasure is final.
\<close>

lemma run_moves: "run_events (tenant_step dp) s es = Inr t \<Longrightarrow> moves_on s t"
proof (induction es arbitrary: s)
  case Nil
  then show ?case by (simp add: moves_on_refl)
next
  case (Cons e es)
  then have "run_events (tenant_step dp) (tenant_apply dp e s) es = Inr t" by (simp add: tenant_step_def [of dp s e])
  from moves_on_trans [OF tenant_apply_moves Cons.IH [OF this]] show ?case .
qed

lemma every_state_run:
  assumes "tenant_ok s" "run_events (tenant_step dp) s es = Inr t"
  shows "tenant_ok t" "wf (tn_db t)" "indexed (tn_db t)" "persists (tn_db s) (tn_db t)" "prefix (tn_claims s) (tn_claims t)"
  using tenant_machine.run_ok [OF assms] run_moves [OF assms(2)] assms(1)
  by (simp_all add: tenant_ok_def sound_def moves_on_def)

text \<open>
  C3. Every state a tenant reaches from a sound one, under any interleaving of requests, workers,
  reindexing and time, is well typed: keys are unique and allocated, references resolve, versions
  and current revisions agree, deletions, denials and jobs match, every embedding belongs to a
  stored revision, and every claim a worker holds names a job that is still the same; and between
  the two states nothing that must persist is lost.
\<close>

theorem every_state_is_sound:
  assumes "tenant_ok s" "run_events (tenant_step dp) s es = Inr t"
  shows "wf (tn_db t) \<and> indexed (tn_db t) \<and> (\<forall>c\<in>set (tn_claims t). known c (tn_db t))
    \<and> persists (tn_db s) (tn_db t) \<and> prefix (tn_claims s) (tn_claims t)"
  using every_state_run [OF assms] by (simp add: tenant_ok_def)

lemma persists_absent:
  assumes "persists s t" "is_deleted s m" "\<forall>(k, r)\<in>set (db_revisions s). r_memory r \<noteq> m" "wf t"
  shows "\<forall>(k, r)\<in>set (db_revisions t). r_memory r \<noteq> m"
proof clarify
  fix k r assume "(k, r) \<in> set (db_revisions t)" "m = r_memory r"
  then have "map_of (db_revisions t) k = Some r" using assms(4) by (simp add: wf_def wf_keys_def keys_below_def)
  from persists_revision [OF assms(1) this] assms(2,3) \<open>m = r_memory r\<close> show False
    by (auto dest: map_of_SomeD)
qed

text \<open>
  C1. Erasure is final: once a worker has purged a forgotten memory, then whatever happens
  afterwards (requests, stale publications of old claims, backfills, activations) the memory
  stays deleted, no revision of it is stored, and every embedding belongs to a stored revision of
  another memory.
\<close>

theorem erasure_is_final:
  assumes ok: "tenant_ok s" and c: "n < length (tn_claims s)" "c = tn_claims s ! n"
    and purged: "purge c (tn_db s) = Inr (True, d)"
    and op: "map_of (db_operations (tn_db s)) (j_operation (snd c)) = Some op"
    and run: "run_events (tenant_step dp) s (Erase n # es) = Inr t"
  shows "is_deleted (tn_db t) (o_memory op)
    \<and> (\<forall>(k, r)\<in>set (db_revisions (tn_db t)). r_memory r \<noteq> o_memory op)
    \<and> (\<forall>(k, x)\<in>set (db_embeddings (tn_db t)). \<exists>r. map_of (db_revisions (tn_db t)) (fst k) = Some r \<and> r_memory r \<noteq> o_memory op)"
proof -
  let ?u = "tenant_apply dp (Erase n) s" and ?m = "o_memory op"
  have d: "tn_db ?u = d" using c purged by (simp add: on_claim_def on_db_def commit_def)
  have known: "known c (tn_db s)" and wf: "wf (tn_db s)" using ok c by (simp_all add: tenant_ok_def sound_def)
  from purge_run [OF purged known] obtain op' v where op': "map_of (db_operations (tn_db s)) (j_operation (snd c)) = Some op'"
    and 1: "is_deleted (tn_db s) (o_memory op')" "erased_tables (o_memory op') (tn_db s) v" "finish c Ready v = Inr ((), d)" by blast
  have del: "is_deleted (tn_db s) ?m" and e: "erased_tables ?m (tn_db s) v" and f: "finish c Ready v = Inr ((), d)"
    using 1 op op' by simp_all
  have "db_revisions d = db_revisions v" using f by (auto simp: finish_def tx_runs)
  moreover have "db_revisions v = t_delete (\<lambda>k r. r_memory r = ?m) (db_revisions (tn_db s))"
    using e unfolding erased_tables_def by blast
  ultimately have gone: "\<forall>(k, r)\<in>set (db_revisions d). r_memory r \<noteq> ?m" by auto
  from run have rest: "run_events (tenant_step dp) ?u es = Inr t" by (simp add: tenant_step_def [of dp s])
  have u: "tenant_ok ?u" "persists (tn_db s) (tn_db ?u)" using tenant_apply_moves [of s dp "Erase n"] ok by (simp_all add: moves_on_def)
  from every_state_run [OF u(1) rest] have t: "wf (tn_db t)" "indexed (tn_db t)" "persists d (tn_db t)" unfolding d by simp_all
  have del_d: "is_deleted d ?m" using persists_deleted [OF u(2) del] unfolding d .
  have none: "\<forall>(k, r)\<in>set (db_revisions (tn_db t)). r_memory r \<noteq> ?m"
    by (rule persists_absent [OF t(3) del_d gone t(1)])
  have "\<exists>r. map_of (db_revisions (tn_db t)) (fst k) = Some r \<and> r_memory r \<noteq> ?m" if "(k, x) \<in> set (db_embeddings (tn_db t))" for k x
    using t(2) that none by (fastforce simp: indexed_def dest: map_of_SomeD)
  with none persists_deleted [OF t(3) del_d] show ?thesis by auto
qed


section \<open>Witnesses\<close>

definition demo_dp :: deployment where
  "demo_dp = \<lparr>dp_service = demo_sv, dp_forget_key = demo_fk, dp_worker = demo_worker, dp_registry = demo_registry,
     dp_reindex_hash = xi_profile, dp_alnum = (\<lambda>c. True), dp_batch = 5\<rparr>"

definition tenant_of :: "db \<Rightarrow> claimed list \<Rightarrow> tenant" where
  "tenant_of s cs = \<lparr>tn_db = s, tn_claims = cs, tn_runs = []\<rparr>"

lemma demo_tenant_ok: "tenant_ok (tenant_of demo_db [])"
  using demo_wf by (simp add: tenant_of_def tenant_ok_def sound_def indexed_def) (simp add: demo_db_def)

theorem every_state_is_sound_witness:
  "\<exists>t. run_events (tenant_step demo_dp) (tenant_of demo_db [])
       [Call alice (SaveCommand 7 demo_input) ''k1'', Claim True, Elapse 5, Publish 0 ''tea'' [(0, 3, [1])]] = Inr t
     \<and> wf (tn_db t) \<and> indexed (tn_db t)"
proof -
  obtain t where t: "run_events (tenant_step demo_dp) (tenant_of demo_db [])
       [Call alice (SaveCommand 7 demo_input) ''k1'', Claim True, Elapse 5, Publish 0 ''tea'' [(0, 3, [1])]] = Inr t"
    by (simp add: tenant_step_def)
  from every_state_is_sound [OF demo_tenant_ok t] t show ?thesis by blast
qed

theorem erasure_is_final_witness:
  "\<exists>s m t. run_events (tenant_step demo_dp) s [Erase 0, Elapse 5, Call alice (SaveCommand 7 demo_input) ''k9''] = Inr t
     \<and> is_deleted (tn_db t) m \<and> (\<forall>(k, r)\<in>set (db_revisions (tn_db t)). r_memory r \<noteq> m)"
proof -
  from purged_run obtain rc t rc' u c v x where s: "save demo_sv alice 7 demo_input ''k1'' demo_db = Inr (rc, t)"
    and f: "forget demo_sv alice demo_fk 50 1 ''k3'' t = Inr (rc', u)" and c: "claim demo_worker True u = Inr (Some c, v)"
    and k: "known c v" and p: "purge c v = Inr (True, x)" by blast
  have "leases demo_worker u v c" using claim_run [OF c] by simp
  from leases_effect [OF this forgotten_wf [OF saved_wf [OF s] f]] forgotten_sound [OF saved_sound [OF s] f]
  have ok: "tenant_ok (tenant_of v [c])" using k by (simp add: tenant_ok_def tenant_of_def tends_def)
  from purge_run [OF p k] obtain op where op: "map_of (db_operations v) (j_operation (snd c)) = Some op" by blast
  obtain y where y: "run_events (tenant_step demo_dp) (tenant_of v [c]) [Erase 0, Elapse 5, Call alice (SaveCommand 7 demo_input) ''k9''] = Inr y"
    by (simp add: tenant_step_def)
  from erasure_is_final [OF ok _ _ _ _ y, of c x op] p op y show ?thesis by (auto simp: tenant_of_def)
qed

theorem tenant_refines_the_ledger_witness:
  "\<exists>t. tenant_step demo_dp (tenant_of demo_db []) (Call alice (SaveCommand 7 demo_input) ''k1'') = Inr t
     \<and> ledger_step (Call alice (SaveCommand 7 demo_input) ''k1'') (ledger demo_db) (ledger (tn_db t))"
proof -
  obtain t where t: "tenant_step demo_dp (tenant_of demo_db []) (Call alice (SaveCommand 7 demo_input) ''k1'') = Inr t"
    by (simp add: tenant_step_def)
  from tenant_refines_the_ledger [OF demo_tenant_ok t] t show ?thesis by (auto simp: tenant_of_def)
qed

end
