(* ===== verification/Memory_Reads.thy ===== *)
theory Memory_Reads
  imports Memory_Forget "HOL-Library.List_Lexorder"
begin

text \<open>
  The reads of the memory service (\<open>service/memory.py\<close>): one memory with its rights, its source,
  its attachments, its history, the paginated listing, the status of a space and its activity.
  A pagination cursor is the base64 text of a JSON object: \<open>BadCursor\<close> is any text that does not
  decode to one with the expected keys and types, \<open>Cursor c\<close> one that decodes to the fields \<open>c\<close>.
\<close>

section \<open>One memory\<close>

record fetched =
  fe_view :: memory_view
  fe_can_forget :: bool
  fe_capture :: "capture_preview option"

definition fetch :: "identity \<Rightarrow> uuid \<Rightarrow> uuid option \<Rightarrow> bool \<Rightarrow> fetched act" where
  "fetch i m rid rv = transaction i
     (tx_bind (memory_row i m rv) (\<lambda>row.
      tx_bind (tx_read (withdrawal_allowed i m row)) (\<lambda>can.
      tx_bind (hydrate m row rid) (\<lambda>v.
      tx_read (\<lambda>s. \<lparr>fe_view = v, fe_can_forget = can,
        fe_capture = (if can then capture_preview_of m s else None)\<rparr>)))))"

text \<open>The revisions that a select sees, newest version first.\<close>

definition revisions_of :: "uuid \<Rightarrow> db \<Rightarrow> uuid list" where
  "revisions_of m s = map fst (take 1000 (rev (sort_key (\<lambda>(k, r). r_version r)
     (filter (\<lambda>(k, r). r_memory r = m) (db_revisions s)))))"

fun hydrate_each :: "uuid \<Rightarrow> memory \<Rightarrow> uuid list \<Rightarrow> memory_view list act" where
  "hydrate_each m row [] = tx_return []"
| "hydrate_each m row (rid # rids) =
     tx_bind (hydrate m row (Some rid)) (\<lambda>v. tx_bind (hydrate_each m row rids) (\<lambda>vs. tx_return (v # vs)))"

definition history :: "identity \<Rightarrow> uuid \<Rightarrow> bool \<Rightarrow> memory_view list act" where
  "history i m rv = transaction i
     (tx_bind (memory_row i m rv) (\<lambda>row.
      tx_bind (tx_read (revisions_of m)) (hydrate_each m row)))"

section \<open>Sources and attachments\<close>

record attachment_view =
  av_attachment :: uuid
  av_name :: string
  av_media :: string
  av_hash :: digest
  av_size :: nat

record source_view =
  sw_revision :: uuid
  sw_source :: uuid
  sw_space :: uuid
  sw_content :: string
  sw_hash :: digest
  sw_media :: string
  sw_recorded_at :: time
  sw_title :: string
  sw_uri :: "string option"
  sw_attachments :: "attachment_view list"

text \<open>The first visible live memory that cites the source revision decides.\<close>

definition citing :: "identity \<Rightarrow> uuid \<Rightarrow> db \<Rightarrow> uuid option" where
  "citing i revision s =
     (let ms = filter (\<lambda>(m, row). m_deleted_at row = None \<and> sees_memory s (id_principal i) (m_space row) m
                 \<and> list_ex (\<lambda>(k, r). r_space r = m_space row \<and> r_memory r = m \<and> r_source r = revision) (db_revisions s))
               (db_memories s)
      in case sort_key fst ms of [] \<Rightarrow> None | (m, row) # _ \<Rightarrow> Some m)"

definition source_access :: "identity \<Rightarrow> uuid \<Rightarrow> bool \<Rightarrow> unit act" where
  "source_access i revision rv =
     tx_bind (tx_read (citing i revision)) (\<lambda>found.
     case found of
       None \<Rightarrow> tx_raise not_found
     | Some m \<Rightarrow> tx_bind (memory_row i m rv) (\<lambda>_. tx_return ()))"

definition attachments_of :: "uuid \<Rightarrow> db \<Rightarrow> attachment_view list" where
  "attachments_of revision s =
     map (\<lambda>(k, a). \<lparr>av_attachment = k, av_name = at_name a, av_media = at_media a, av_hash = at_hash a,
                      av_size = length (at_content a)\<rparr>)
       (sort_key (\<lambda>(k, a). (map (of_char :: char \<Rightarrow> nat) (at_name a), k))
         (filter (\<lambda>(k, a). at_revision a = revision) (db_attachments s)))"

definition source_of :: "uuid \<Rightarrow> db \<Rightarrow> source_view option" where
  "source_of revision s =
     (case map_of (db_source_revisions s) revision of
        None \<Rightarrow> None
      | Some sr \<Rightarrow>
         (case map_of (db_sources s) (sr_source sr) of
            None \<Rightarrow> None
          | Some so \<Rightarrow>
              if s_space so \<noteq> sr_space sr \<or> s_deleted_at so \<noteq> None then None
              else Some \<lparr>sw_revision = revision, sw_source = sr_source sr, sw_space = sr_space sr,
                sw_content = sr_content sr, sw_hash = sr_hash sr, sw_media = sr_media sr,
                sw_recorded_at = sr_recorded_at sr, sw_title = s_title so, sw_uri = s_uri so,
                sw_attachments = attachments_of revision s\<rparr>))"

definition read_source :: "identity \<Rightarrow> uuid \<Rightarrow> bool \<Rightarrow> source_view act" where
  "read_source i revision rv = transaction i
     (tx_then (source_access i revision rv)
     (tx_bind (tx_read (source_of revision)) (\<lambda>found.
      case found of None \<Rightarrow> tx_raise not_found | Some v \<Rightarrow> tx_return v)))"

definition read_attachment :: "identity \<Rightarrow> uuid \<Rightarrow> uuid \<Rightarrow> bool \<Rightarrow> attachment act" where
  "read_attachment i revision k rv = transaction i
     (tx_then (source_access i revision rv)
     (tx_bind (tx_read (\<lambda>s. map_of (db_attachments s) k)) (\<lambda>found.
      case found of
        None \<Rightarrow> tx_raise not_found
      | Some a \<Rightarrow> if at_revision a = revision then tx_return a else tx_raise not_found)))"

section \<open>Listing\<close>

datatype 'c cursor = NoCursor | BadCursor | Cursor 'c

record list_cursor =
  lc_space :: uuid
  lc_after :: uuid
  lc_snapshot :: time

record ('r, 'c) page =
  pg_items :: "'r list"
  pg_next :: "'c option"

definition list_start :: "uuid \<Rightarrow> time \<Rightarrow> list_cursor cursor \<Rightarrow> (uuid \<times> time) res" where
  "list_start space now c =
     (case c of
        NoCursor \<Rightarrow> Inr (0, now)
      | BadCursor \<Rightarrow> Inl (ServiceError 422 ''invalid_cursor'')
      | Cursor x \<Rightarrow> if lc_space x \<noteq> space then Inl (ServiceError 422 ''invalid_cursor'')
                    else Inr (lc_after x, lc_snapshot x))"

definition listable :: "identity \<Rightarrow> uuid \<Rightarrow> bool \<Rightarrow> time \<Rightarrow> db \<Rightarrow> uuid \<Rightarrow> memory \<Rightarrow> bool" where
  "listable i space rv snapshot s k row \<longleftrightarrow> m_space row = space \<and> sees_memory s (id_principal i) space k
     \<and> m_created_at row \<le> snapshot \<and> m_deleted_at row = None \<and> (m_review row = Ordinary \<or> rv)"

text \<open>The row's current revision with a retained source.\<close>

definition current_source :: "db \<Rightarrow> uuid \<Rightarrow> memory \<Rightarrow> (uuid \<times> revision) option" where
  "current_source s k row =
     (case m_current row of
        None \<Rightarrow> None
      | Some rid \<Rightarrow>
         (case map_of (db_revisions s) rid of
            None \<Rightarrow> None
          | Some r \<Rightarrow>
              if r_space r = m_space row \<and> r_memory r = k
                 \<and> (case map_of (db_source_revisions s) (r_source r) of
                      None \<Rightarrow> False
                    | Some sr \<Rightarrow> sr_space sr = m_space row
                        \<and> (case map_of (db_sources s) (sr_source sr) of
                             None \<Rightarrow> False | Some so \<Rightarrow> s_space so = sr_space sr \<and> s_deleted_at so = None))
              then Some (rid, r) else None))"

definition by_id :: "(uuid \<Rightarrow> memory \<Rightarrow> bool) \<Rightarrow> db \<Rightarrow> (uuid \<times> memory) list" where
  "by_id p s = sort_key fst (filter (\<lambda>(k, row). p k row) (db_memories s))"

definition cut_page :: "nat \<Rightarrow> ('a \<Rightarrow> 'c) \<Rightarrow> 'a list \<Rightarrow> 'a list \<times> 'c option" where
  "cut_page limit f rows = (take limit rows, if limit < length rows then Some (f (rows ! (limit - 1))) else None)"

definition list_cursor_at :: "uuid \<Rightarrow> time \<Rightarrow> uuid \<times> memory \<Rightarrow> list_cursor" where
  "list_cursor_at space snapshot row = \<lparr>lc_space = space, lc_after = fst row, lc_snapshot = snapshot\<rparr>"

fun hydrate_rows :: "(uuid \<times> memory) list \<Rightarrow> memory_view list act" where
  "hydrate_rows [] = tx_return []"
| "hydrate_rows ((k, row) # rows) =
     tx_bind (hydrate k row None) (\<lambda>v. tx_bind (hydrate_rows rows) (\<lambda>vs. tx_return (v # vs)))"

definition list_memories ::
  "identity \<Rightarrow> uuid \<Rightarrow> nat \<Rightarrow> time \<Rightarrow> list_cursor cursor \<Rightarrow> bool \<Rightarrow> (memory_view, list_cursor) page act" where
  "list_memories i space limit now c rv =
     (if \<not> (1 \<le> limit \<and> limit \<le> 100) then tx_raise (ServiceError 422 ''invalid_limit'')
      else case list_start space now c of
        Inl e \<Rightarrow> tx_raise e
      | Inr (after, snapshot) \<Rightarrow> transaction i
         (tx_then (require_space i space (if rv then 30 else 10) False)
         (tx_bind (tx_read (\<lambda>s. cut_page limit (list_cursor_at space snapshot) (take (limit + 1)
              (by_id (\<lambda>k row. listable i space rv snapshot s k row \<and> after < k) s)))) (\<lambda>(rows, next).
          tx_bind (hydrate_rows rows) (\<lambda>vs. tx_return \<lparr>pg_items = vs, pg_next = next\<rparr>)))))"

text \<open>
  The summary form. A subject longer than 160 UTF-8 bytes is cut to the characters that fit; the
  characters of the model are those up to code point 255, of one or two bytes.
\<close>

record summary =
  su_memory :: uuid
  su_version :: nat
  su_review :: review_state
  su_revision :: uuid
  su_revision_version :: nat
  su_subject :: "string option"
  su_truncated :: bool
  su_kind :: string
  su_claim :: claim_status
  su_created_by :: uuid
  su_recorded_at :: time

definition utf8_size :: "char \<Rightarrow> nat" where
  "utf8_size c = (if (of_char c :: nat) < 128 then 1 else 2)"

fun utf8_prefix :: "nat \<Rightarrow> string \<Rightarrow> string" where
  "utf8_prefix n [] = []"
| "utf8_prefix n (c # cs) = (if utf8_size c \<le> n then c # utf8_prefix (n - utf8_size c) cs else [])"

definition summary_of :: "db \<Rightarrow> uuid \<times> memory \<Rightarrow> summary list" where
  "summary_of s = (\<lambda>(k, row).
     case current_source s k row of
       None \<Rightarrow> []
     | Some (rid, r) \<Rightarrow>
        (let size = (case r_subject r of None \<Rightarrow> 0 | Some x \<Rightarrow> sum_list (map utf8_size x)) in
         [\<lparr>su_memory = k, su_version = m_version row, su_review = m_review row, su_revision = rid,
           su_revision_version = r_version r,
           su_subject = (if 160 < size then map_option (utf8_prefix 160) (r_subject r) else r_subject r),
           su_truncated = (160 < size), su_kind = r_kind r, su_claim = r_claim r,
           su_created_by = r_created_by r, su_recorded_at = r_recorded_at r\<rparr>]))"

definition summarized :: "identity \<Rightarrow> uuid \<Rightarrow> bool \<Rightarrow> time \<Rightarrow> db \<Rightarrow> uuid \<Rightarrow> memory \<Rightarrow> bool" where
  "summarized i space rv snapshot s k row \<longleftrightarrow>
     listable i space rv snapshot s k row \<and> current_source s k row \<noteq> None"

definition list_summaries ::
  "identity \<Rightarrow> uuid \<Rightarrow> nat \<Rightarrow> time \<Rightarrow> list_cursor cursor \<Rightarrow> bool \<Rightarrow> (summary, list_cursor) page act" where
  "list_summaries i space limit now c rv =
     (if \<not> (1 \<le> limit \<and> limit \<le> 100) then tx_raise (ServiceError 422 ''invalid_limit'')
      else case list_start space now c of
        Inl e \<Rightarrow> tx_raise e
      | Inr (after, snapshot) \<Rightarrow> transaction i
         (tx_then (require_space i space (if rv then 30 else 10) False)
         (tx_bind (tx_read (\<lambda>s. cut_page limit (list_cursor_at space snapshot) (take (limit + 1)
              (by_id (\<lambda>k row. summarized i space rv snapshot s k row \<and> after < k) s)))) (\<lambda>(rows, next).
          tx_then (require_space i space (if rv then 30 else 10) False)
                  (tx_read (\<lambda>s. \<lparr>pg_items = concat (map (summary_of s) rows), pg_next = next\<rparr>))))))"

section \<open>Status\<close>

record space_status =
  ss_space :: uuid
  ss_memories :: nat
  ss_operations :: "(op_state \<times> nat \<times> time) list"
  ss_generation :: string

definition operations_in :: "identity \<Rightarrow> uuid \<Rightarrow> op_state \<Rightarrow> db \<Rightarrow> (uuid \<times> operation) list" where
  "operations_in i space st s = filter (\<lambda>(k, op). o_space op = space \<and> o_state op = st
     \<and> (case map_of (db_memories s) (o_memory op) of
          None \<Rightarrow> False
        | Some row \<Rightarrow> m_space row = o_space op \<and> sees_memory s (id_principal i) space (o_memory op)
            \<and> (m_review row = Ordinary \<or> authorized s (id_principal i) space 30))) (db_operations s)"

text \<open>Grouped by state, in the order of the states' names.\<close>

definition operation_counts :: "identity \<Rightarrow> uuid \<Rightarrow> db \<Rightarrow> (op_state \<times> nat \<times> time) list" where
  "operation_counts i space s =
     concat (map (\<lambda>st. case map (\<lambda>(k, op). o_created_at op) (operations_in i space st s) of
                         [] \<Rightarrow> [] | t # ts \<Rightarrow> [(st, Suc (length ts), fold min ts t)])
              [Accepted, OpCancelled, OpFailed, Indexing, OpReady])"

definition status :: "svc \<Rightarrow> identity \<Rightarrow> uuid \<Rightarrow> space_status act" where
  "status sv i space = transaction i
     (tx_then (require_space i space 10 False)
       (tx_read (\<lambda>s. \<lparr>ss_space = space,
          ss_memories = length (filter (\<lambda>(k, row). m_space row = space \<and> sees_memory s (id_principal i) space k
              \<and> m_deleted_at row = None \<and> m_review row = Ordinary) (db_memories s)),
          ss_operations = operation_counts i space s,
          ss_generation = ro_generation (settings (sv_generation sv) space s)\<rparr>)))"

section \<open>Activity\<close>

record activity_cursor =
  ac_space :: uuid
  ac_at :: time
  ac_id :: uuid
  ac_memory :: "string option"
  ac_action :: "string option"

record activity_item =
  ai_id :: uuid
  ai_event :: audit_event
  ai_reason :: "string option"

definition activity_start :: "uuid \<Rightarrow> string option \<Rightarrow> string option \<Rightarrow> activity_cursor cursor \<Rightarrow> (time \<times> uuid) option res" where
  "activity_start space resource action c =
     (case c of
        NoCursor \<Rightarrow> Inr None
      | BadCursor \<Rightarrow> Inl (ServiceError 422 ''invalid_cursor'')
      | Cursor x \<Rightarrow> if ac_space x \<noteq> space \<or> ac_memory x \<noteq> resource \<or> ac_action x \<noteq> action
                    then Inl (ServiceError 422 ''invalid_cursor'') else Inr (Some (ac_at x, ac_id x)))"

definition active_event :: "uuid \<Rightarrow> string option \<Rightarrow> string option \<Rightarrow> audit_event \<Rightarrow> bool" where
  "active_event space resource action e \<longleftrightarrow> a_space e = Some space
     \<and> (resource = None \<or> resource = Some (a_resource e)) \<and> (action = None \<or> action = Some (a_action e))"

definition before_event :: "(time \<times> uuid) option \<Rightarrow> uuid \<times> audit_event \<Rightarrow> bool" where
  "before_event bound = (\<lambda>(k, e). case bound of
     None \<Rightarrow> True | Some (moment, x) \<Rightarrow> a_created_at e < moment \<or> (a_created_at e = moment \<and> k < x))"

definition activity_rows :: "uuid \<Rightarrow> string option \<Rightarrow> string option \<Rightarrow> (time \<times> uuid) option \<Rightarrow> db \<Rightarrow> (uuid \<times> audit_event) list" where
  "activity_rows space resource action bound s =
     newest_first (filter (\<lambda>(k, e). active_event space resource action e \<and> before_event bound (k, e)) (db_audit s)) a_created_at"

definition activity ::
  "identity \<Rightarrow> uuid \<Rightarrow> nat \<Rightarrow> uuid option \<Rightarrow> string option \<Rightarrow> activity_cursor cursor \<Rightarrow> (activity_item, activity_cursor) page act" where
  "activity i space limit m action c =
     (let resource = map_option uuid_text m in
      if \<not> (1 \<le> limit \<and> limit \<le> 100) then tx_raise (ServiceError 422 ''invalid_limit'')
      else if (case action of None \<Rightarrow> False | Some a \<Rightarrow> \<not> (1 \<le> length a \<and> length a \<le> 100))
      then tx_raise (ServiceError 422 ''invalid_action'')
      else case activity_start space resource action c of
        Inl e \<Rightarrow> tx_raise e
      | Inr bound \<Rightarrow> transaction i
         (tx_then (require_space i space 30 False)
         (tx_bind (tx_read (\<lambda>s. cut_page limit
              (\<lambda>(k, e). \<lparr>ac_space = space, ac_at = a_created_at e, ac_id = k, ac_memory = resource, ac_action = action\<rparr>)
              (take (limit + 1) (activity_rows space resource action bound s)))) (\<lambda>(rows, next).
          tx_then (require_space i space 30 False)
                  (tx_read (\<lambda>s. \<lparr>pg_items = map (\<lambda>(k, e). \<lparr>ai_id = k, ai_event = e,
                       ai_reason = map_option n_reason (map_of (db_notes s) k)\<rparr>) rows, pg_next = next\<rparr>))))))"

end
