(* ===== verification/Memory_Pages.thy ===== *)
theory Memory_Pages
  imports Memory_Reads Memory_Examples
begin

text \<open>
  Pagination: whoever follows the cursors of a listing through an unchanged database sees every row
  exactly once, in order. The argument is made once, for any keyset query, and instantiated for the
  listing of memories and for the activity log.
\<close>

section \<open>Keyset pagination\<close>

text \<open>The pages of \<open>rest\<close>, where the rows after a cursor are selected again from all rows.\<close>

fun walk :: "nat \<Rightarrow> nat \<Rightarrow> ('r \<Rightarrow> 'r \<Rightarrow> bool) \<Rightarrow> 'r list \<Rightarrow> 'r list \<Rightarrow> 'r list option" where
  "walk 0 limit after all rest = None"
| "walk (Suc n) limit after all rest =
     (case cut_page limit (\<lambda>x. x) (take (limit + 1) rest) of
        (items, None) \<Rightarrow> Some items
      | (items, Some x) \<Rightarrow> map_option ((@) items) (walk n limit after all (filter (after x) all)))"

lemma cut_page_next:
  assumes "0 < limit"
  shows "cut_page limit f (take (limit + 1) rest) = (take limit rest,
     if limit < length rest then Some (f (last (take limit rest))) else None)"
proof -
  have "take (limit + 1) rest ! (limit - 1) = last (take limit rest)" if "limit < length rest"
  proof -
    have "take limit rest \<noteq> []" using that assms by auto
    then show ?thesis using that by (simp add: last_conv_nth min_def)
  qed
  then show ?thesis by (simp add: cut_page_def min_def)
qed

locale keyset =
  fixes rows :: "'s \<Rightarrow> 'r list" and ok :: "'s \<Rightarrow> bool" and after :: "'r \<Rightarrow> 'r \<Rightarrow> bool"
  assumes rest_after: "ok s \<Longrightarrow> rows s = xs @ x # ys \<Longrightarrow> filter (after x) (rows s) = ys"
begin

lemma walk_rest:
  assumes "ok s" "0 < limit" "rows s = xs @ rest" "length rest \<le> n * limit" "0 < n"
  shows "walk n limit after (rows s) rest = Some rest"
  using assms(3-5)
proof (induction n arbitrary: xs rest)
  case 0
  then show ?case by simp
next
  case (Suc n)
  show ?case
  proof (cases "limit < length rest")
    case False
    then show ?thesis unfolding walk.simps cut_page_next [OF assms(2)] by simp
  next
    case True
    define x where "x = last (take limit rest)"
    have "take limit rest \<noteq> []" using True assms(2) by auto
    then have "rest = butlast (take limit rest) @ x # drop limit rest"
      unfolding x_def by (metis append_butlast_last_id append_take_drop_id append.assoc append_Cons append_Nil)
    with Suc.prems(1) have split: "rows s = (xs @ butlast (take limit rest)) @ x # drop limit rest" by simp
    note tail = rest_after [OF assms(1) split]
    have n: "0 < n" using True Suc.prems(2) by (cases n) auto
    have "walk n limit after (rows s) (drop limit rest) = Some (drop limit rest)"
      by (rule Suc.IH [where xs = "xs @ butlast (take limit rest) @ [x]"]) (use split Suc.prems(2) n in auto)
    with True tail show ?thesis unfolding walk.simps cut_page_next [OF assms(2)] by (simp flip: x_def)
  qed
qed

lemma walk_all: "ok s \<Longrightarrow> 0 < limit \<Longrightarrow> length (rows s) \<le> n * limit \<Longrightarrow> 0 < n \<Longrightarrow>
   walk n limit after (rows s) (rows s) = Some (rows s)"
  using walk_rest [where xs = "[]"] by simp

end

lemma sorted_tail:
  fixes f :: "'r \<Rightarrow> 'k :: linorder"
  assumes sorted: "sorted (map f ys)" and dist: "distinct (map f ys)" and ys: "ys = xs @ x # zs"
  shows "filter (\<lambda>y. f x < f y) ys = zs"
proof -
  have "\<forall>y\<in>set xs. f y \<le> f x" using sorted by (simp add: ys sorted_append)
  then have "filter (\<lambda>y. f x < f y) xs = []" by (auto simp: filter_empty_conv)
  moreover have "\<forall>y\<in>set zs. f x < f y"
    using sorted dist by (fastforce simp: ys sorted_append less_le image_iff)
  then have "filter (\<lambda>y. f x < f y) zs = zs" by (auto intro: filter_True)
  ultimately show ?thesis by (simp add: ys)
qed

lemma sorted_front:
  fixes f :: "'r \<Rightarrow> 'k :: linorder"
  assumes sorted: "sorted (map f (rev ys))" and dist: "distinct (map f ys)" and ys: "ys = xs @ x # zs"
  shows "filter (\<lambda>y. f y < f x) ys = zs"
proof -
  have "\<forall>y\<in>set xs. f x \<le> f y" using sorted by (simp add: ys sorted_append)
  then have "filter (\<lambda>y. f y < f x) xs = []" by (auto simp: filter_empty_conv)
  moreover have "\<forall>y\<in>set zs. f y < f x"
    using sorted dist by (fastforce simp: ys sorted_append less_le image_iff)
  then have "filter (\<lambda>y. f y < f x) zs = zs" by (auto intro: filter_True)
  ultimately show ?thesis by (simp add: ys)
qed

section \<open>Listing memories\<close>

lemma by_id_sorted: "sorted (map fst (by_id p s))"
  by (simp add: by_id_def)

lemma by_id_distinct: "distinct (map fst (db_memories s)) \<Longrightarrow> distinct (map fst (by_id p s))"
  by (simp add: by_id_def distinct_map inj_on_def) (metis (no_types, lifting) distinct_map inj_on_def filter_drop_distinct_keys)?

interpretation listing: keyset "\<lambda>s. by_id (p s) s" "\<lambda>s. distinct (map fst (db_memories s))" "\<lambda>x y. fst x < fst y"
  for p
  by unfold_locales (rule sorted_tail [OF by_id_sorted by_id_distinct])

text \<open>Reading a page changes nothing but the empty list of callbacks.\<close>

lemma current_source_callbacks [simp]: "current_source (s\<lparr>db_callbacks := c\<rparr>) = current_source s"
  by (simp add: current_source_def fun_eq_iff cong: option.case_cong)

lemma sees_memory_callbacks [simp]: "sees_memory (s\<lparr>db_callbacks := c\<rparr>) = sees_memory s"
  by (rule access_view_eq) simp

lemma summarized_callbacks [simp]: "summarized i space rv snap (s\<lparr>db_callbacks := c\<rparr>) = summarized i space rv snap s"
  by (simp add: summarized_def listable_def fun_eq_iff)

lemma by_id_callbacks [simp]: "by_id p (s\<lparr>db_callbacks := c\<rparr>) = by_id p s"
  by (simp add: by_id_def)

lemma summary_of_callbacks [simp]: "summary_of (s\<lparr>db_callbacks := c\<rparr>) = summary_of s"
  by (simp add: summary_of_def fun_eq_iff)

definition eligible :: "identity \<Rightarrow> uuid \<Rightarrow> bool \<Rightarrow> time \<Rightarrow> db \<Rightarrow> (uuid \<times> memory) list" where
  "eligible i space rv snapshot s = by_id (\<lambda>k row. summarized i space rv snapshot s k row \<and> 0 < k) s"

text \<open>A client that follows the cursors; the fuel bounds the number of requests.\<close>

fun summary_pages ::
  "nat \<Rightarrow> identity \<Rightarrow> uuid \<Rightarrow> nat \<Rightarrow> time \<Rightarrow> list_cursor cursor \<Rightarrow> bool \<Rightarrow> db \<Rightarrow> summary list option res" where
  "summary_pages 0 i space limit now c rv s = Inr None"
| "summary_pages (Suc n) i space limit now c rv s =
     (case list_summaries i space limit now c rv s of
        Inl e \<Rightarrow> Inl e
      | Inr (p, t) \<Rightarrow>
         (case pg_next p of
            None \<Rightarrow> Inr (Some (pg_items p))
          | Some next \<Rightarrow>
             (case summary_pages n i space limit now (Cursor next) rv t of
                Inl e \<Rightarrow> Inl e | Inr rest \<Rightarrow> Inr (map_option ((@) (pg_items p)) rest))))"

lemma by_id_after: "filter (\<lambda>y. k < fst y) (by_id p s) = by_id (\<lambda>x row. p x row \<and> k < x) s"
  by (auto simp: by_id_def filter_sort intro!: arg_cong [of _ _ "sort_key fst"] filter_cong)

lemma list_summaries_run:
  assumes "identity_ok i s" "authorized s (id_principal i) space (if rv then 30 else 10)" "1 \<le> limit" "limit \<le> 100"
    and "list_start space now c = Inr (after, snapshot)"
  shows "list_summaries i space limit now c rv s =
     (let (rows, next) = cut_page limit (list_cursor_at space snapshot) (take (limit + 1)
            (by_id (\<lambda>k row. summarized i space rv snapshot s k row \<and> after < k) s))
      in Inr (\<lparr>pg_items = concat (map (summary_of s) rows), pg_next = next\<rparr>, s\<lparr>db_callbacks := []\<rparr>))"
proof -
  have "authorized s (id_principal i) space 10" using assms(2) by (auto intro: authorized_mono split: if_splits)
  with assms show ?thesis
    by (cases rv) (simp_all add: list_summaries_def transaction_def check_identity_def require_space_def tx_bind_at
        tx_then_at tx_guard_at Let_def split: prod.splits)
qed

lemma eligible_after:
  "filter (\<lambda>y. k < fst y) (eligible i space rv snapshot s) = by_id (\<lambda>x row. summarized i space rv snapshot s x row \<and> k < x) s"
  unfolding eligible_def by_id_after by (rule arg_cong [of _ _ "\<lambda>p. by_id p s"]) (auto simp: fun_eq_iff)

lemma summary_pages_walk:
  assumes "identity_ok i s" "authorized s (id_principal i) space (if rv then 30 else 10)" "1 \<le> limit" "limit \<le> 100"
    and "list_start space now c = Inr (after, snapshot)"
  shows "summary_pages n i space limit now c rv s =
     Inr (map_option (\<lambda>rows. concat (map (summary_of s) rows))
       (walk n limit (\<lambda>x y. fst x < fst y) (eligible i space rv snapshot s)
          (by_id (\<lambda>k row. summarized i space rv snapshot s k row \<and> after < k) s)))"
  using assms
proof (induction n arbitrary: c after s)
  case 0
  then show ?case by simp
next
  case (Suc n)
  let ?rest = "by_id (\<lambda>k row. summarized i space rv snapshot s k row \<and> after < k) s"
  let ?s = "s\<lparr>db_callbacks := []\<rparr>"
  from Suc.prems(3) have limit: "0 < limit" by simp
  note page = list_summaries_run [OF Suc.prems]
  show ?case
  proof (cases "limit < length ?rest")
    case False
    then show ?thesis
      unfolding summary_pages.simps page walk.simps cut_page_next [OF limit] by simp
  next
    case True
    define x where "x = last (take limit ?rest)"
    have "summary_pages n i space limit now (Cursor (list_cursor_at space snapshot x)) rv ?s =
      Inr (map_option (\<lambda>rows. concat (map (summary_of ?s) rows))
       (walk n limit (\<lambda>x y. fst x < fst y) (eligible i space rv snapshot ?s)
          (by_id (\<lambda>k row. summarized i space rv snapshot ?s k row \<and> fst x < k) ?s)))"
      by (rule Suc.IH) (use Suc.prems in \<open>simp_all add: list_start_def list_cursor_at_def\<close>)
    then have "summary_pages n i space limit now (Cursor (list_cursor_at space snapshot x)) rv ?s =
      Inr (map_option (\<lambda>rows. concat (map (summary_of s) rows))
       (walk n limit (\<lambda>x y. fst x < fst y) (eligible i space rv snapshot s)
          (filter (\<lambda>y. fst x < fst y) (eligible i space rv snapshot s))))"
      by (simp add: eligible_after) (simp add: eligible_def)
    with True show ?thesis
      unfolding summary_pages.simps page walk.simps cut_page_next [OF limit]
      by (simp add: option.map_comp comp_def flip: x_def)
  qed
qed

lemma length_concat_single: "(\<And>x. x \<in> set xs \<Longrightarrow> length (f x) = 1) \<Longrightarrow> length (concat (map f xs)) = length xs"
  by (induction xs) auto

text \<open>
  C27. Pagination of the listing is exact: a client that follows the cursors through an unchanged
  database gets every memory of the space that it may see, as of the first request, exactly once
  and in the order of the identifiers, whatever the page size, and needs no more requests than
  the rows divided by the page size, rounded up.
\<close>

theorem pages_list_everything:
  assumes "wf s" and "identity_ok i s" and "authorized s (id_principal i) space (if rv then 30 else 10)"
    and "1 \<le> limit" and "limit \<le> 100" and "0 < n" and "length (eligible i space rv now s) \<le> n * limit"
  shows "summary_pages n i space limit now NoCursor rv s =
     Inr (Some (concat (map (summary_of s) (eligible i space rv now s))))
   \<and> distinct (map fst (eligible i space rv now s)) \<and> sorted (map fst (eligible i space rv now s))
   \<and> length (concat (map (summary_of s) (eligible i space rv now s))) = length (eligible i space rv now s)"
proof -
  have dist: "distinct (map fst (db_memories s))" using assms(1) by (simp add: wf_def wf_keys_def keys_below_def)
  have len: "length (concat (map (summary_of s) (eligible i space rv now s))) = length (eligible i space rv now s)"
    by (rule length_concat_single) (auto simp: eligible_def by_id_def summary_of_def summarized_def Let_def split: option.splits)
  have "summary_pages n i space limit now NoCursor rv s =
     Inr (map_option (\<lambda>rows. concat (map (summary_of s) rows))
       (walk n limit (\<lambda>x y. fst x < fst y) (eligible i space rv now s) (eligible i space rv now s)))"
    unfolding eligible_def [of _ _ _ _ s]
    by (subst summary_pages_walk [OF assms(2-5)]) (simp_all add: list_start_def eligible_def)
  also have "\<dots> = Inr (Some (concat (map (summary_of s) (eligible i space rv now s))))"
    using listing.walk_all [of s limit "\<lambda>s k row. summarized i space rv now s k row \<and> 0 < k" n] dist assms(4,6,7)
    by (simp add: eligible_def)
  finally show ?thesis using len by_id_sorted by_id_distinct [OF dist] by (simp add: eligible_def)
qed

lemma eligible_run:
  "\<exists>rc t rc' u. save demo_sv alice 7 demo_input ''k1'' demo_db = Inr (rc, t)
     \<and> save demo_sv alice 7 demo_input ''k4'' t = Inr (rc', u)
     \<and> identity_ok alice u \<and> authorized u (id_principal alice) 7 10 \<and> length (eligible alice 7 False 100 u) = 2"
  by (simp add: demo_defs run_defs save_defs identity_ok_def eligible_def by_id_def summarized_def listable_def
      sees_memory_def withheld_def current_source_def Let_def)

theorem pages_list_everything_witness:
  "\<exists>u xs. summary_pages 2 alice 7 1 100 NoCursor False u = Inr (Some xs) \<and> length xs = 2"
proof -
  from eligible_run obtain rc t rc' u where t: "save demo_sv alice 7 demo_input ''k1'' demo_db = Inr (rc, t)"
    and u: "save demo_sv alice 7 demo_input ''k4'' t = Inr (rc', u)" and i: "identity_ok alice u"
    and a: "authorized u (id_principal alice) 7 10" and n: "length (eligible alice 7 False 100 u) = 2" by blast
  have "wf t" using staysD [OF transaction_safe [OF save_safe]] t demo_wf by (auto simp: save_def safe_def)
  then have "wf u" using staysD [OF transaction_safe [OF save_safe]] u by (auto simp: save_def safe_def)
  from pages_list_everything [OF this i, of 7 False 1 2 100] a n
  have "summary_pages 2 alice 7 1 100 NoCursor False u = Inr (Some (concat (map (summary_of u) (eligible alice 7 False 100 u))))
      \<and> length (concat (map (summary_of u) (eligible alice 7 False 100 u))) = 2" by simp
  then show ?thesis by blast
qed

end
