(* ===== verification/Backup_Catalog.thy ===== *)
theory Backup_Catalog
  imports Prelude
begin

text \<open>
  The private inventory of encrypted backup copies (\<open>backup_catalog.py\<close>): which files of a backup
  folder this installation wrote, with their sizes and digests, under a scope that names the
  workspace and the very folder. The folder is a piece of a file system: directories map names to
  inodes, the backup path leads to one of them. SHA-256, the parser of timestamps and the parser of
  UUID texts are parameters. Characters are those of HOL, so the digits of a name are ASCII.
\<close>

section \<open>Files\<close>

text \<open>What the status of an open file tells, and its content.\<close>

record inode =
  in_regular :: bool
  in_links :: nat
  in_device :: nat
  in_modified :: time
  in_changed :: time
  in_content :: string

type_synonym file_stamp = "nat \<times> nat \<times> nat \<times> time \<times> time"
type_synonym folder_id = "string \<times> string"

text \<open>
  \<open>fs_at\<close> is what the path of the backup folder leads to, \<open>fs_dirs\<close> the entries of each directory,
  \<open>fs_refused\<close> the names whose access is refused or whose entry is a link.
\<close>

datatype folder_stat = NoFolder | NotDirectory | Directory folder_id

record files =
  fs_path :: string
  fs_at :: folder_stat
  fs_dirs :: "folder_id \<Rightarrow> string \<Rightarrow> nat option"
  fs_inodes :: "nat \<Rightarrow> inode"
  fs_refused :: "string \<Rightarrow> bool"

definition problem :: error where
  "problem = SetupError ''backup_catalog''"

definition folder_identity :: "files \<Rightarrow> folder_id res" where
  "folder_identity fs = (case fs_at fs of
       NoFolder \<Rightarrow> Inl OSError
     | NotDirectory \<Rightarrow> Inl problem
     | Directory d \<Rightarrow> Inr d)"

definition file_identity :: "nat \<Rightarrow> inode \<Rightarrow> file_stamp res" where
  "file_identity ino x =
     (if \<not> in_regular x \<or> in_links x \<noteq> 1 then Inl problem
      else Inr (in_device x, ino, length (in_content x), in_modified x, in_changed x))"

text \<open>A name looked up in a given directory, and through the path.\<close>

definition entry_in :: "folder_id \<Rightarrow> string \<Rightarrow> files \<Rightarrow> nat res" where
  "entry_in d name fs =
     (if fs_refused fs name then Inl OSError
      else case fs_dirs fs d name of None \<Rightarrow> Inl OSError | Some ino \<Rightarrow> Inr ino)"

definition stat_in :: "folder_id \<Rightarrow> string \<Rightarrow> files \<Rightarrow> file_stamp res" where
  "stat_in d name fs = (case entry_in d name fs of Inl e \<Rightarrow> Inl e | Inr ino \<Rightarrow> file_identity ino (fs_inodes fs ino))"

definition stat_path :: "string \<Rightarrow> files \<Rightarrow> file_stamp res" where
  "stat_path name fs = (case fs_at fs of Directory d \<Rightarrow> stat_in d name fs | _ \<Rightarrow> Inl OSError)"

section \<open>Names\<close>

datatype copy_kind = Snapshot | Ledger

definition hex :: "nat \<Rightarrow> string \<Rightarrow> bool" where
  "hex n s \<longleftrightarrow> length s = n \<and> (\<forall>c\<in>set s. c \<in> set ''0123456789abcdef'')"

definition digits :: "string \<Rightarrow> bool" where
  "digits s \<longleftrightarrow> (\<forall>c\<in>set s. c \<in> set ''0123456789'')"

fun kind_name :: "copy_kind \<Rightarrow> string" where
  "kind_name Snapshot = ''snapshot''"
| "kind_name Ledger = ''ledger''"

text \<open>The part of a name after its kind: a stamp, an operation and the suffix.\<close>

definition after_kind :: "string \<Rightarrow> string option" where
  "after_kind t =
     (if length t = 62 \<and> t ! 0 = CHR ''-'' \<and> digits (take 8 (drop 1 t)) \<and> t ! 9 = CHR ''T''
         \<and> digits (take 6 (drop 10 t)) \<and> take 2 (drop 16 t) = ''Z-'' \<and> hex 32 (take 32 (drop 18 t))
         \<and> drop 50 t = ''.mnemion.enc''
      then Some (take 32 (drop 18 t)) else None)"

definition name_groups :: "string \<Rightarrow> (copy_kind \<times> string) option" where
  "name_groups s =
     (if prefix ''snapshot'' s then map_option (Pair Snapshot) (after_kind (drop 8 s))
      else if prefix ''ledger'' s then map_option (Pair Ledger) (after_kind (drop 6 s))
      else None)"

section \<open>The inventory\<close>

record copy_row =
  cp_sequence :: nat
  cp_scope :: string
  cp_name :: string
  cp_kind :: copy_kind
  cp_operation :: string
  cp_key :: string
  cp_bytes :: nat
  cp_sha :: string
  cp_verified_at :: string
  cp_attempts :: nat

record scope_row =
  sc_workspace :: string
  sc_folder :: string
  sc_identity :: folder_id

record catalog =
  ct_scopes :: "(string \<times> scope_row) list"
  ct_copies :: "copy_row list"
  ct_last :: nat

record primitives =
  pr_sha :: "string \<Rightarrow> string"
  pr_aware :: "string \<Rightarrow> bool"
  pr_uuid :: "string \<Rightarrow> string option"

definition MAX_BACKUP_BYTES :: nat where
  "MAX_BACKUP_BYTES = 50 * 1024 ^ 3 + 2048"

definition stamp_ok :: "primitives \<Rightarrow> string \<Rightarrow> bool" where
  "stamp_ok pr s \<longleftrightarrow> length s \<le> 40 \<and> pr_aware pr s"

definition validate_row :: "primitives \<Rightarrow> copy_row \<Rightarrow> bool" where
  "validate_row pr r \<longleftrightarrow> name_groups (cp_name r) = Some (cp_kind r, cp_operation r) \<and> 1 \<le> cp_sequence r
     \<and> 1 \<le> cp_bytes r \<and> cp_bytes r \<le> MAX_BACKUP_BYTES \<and> hex 64 (cp_sha r) \<and> hex 24 (cp_key r)
     \<and> stamp_ok pr (cp_verified_at r)"

definition scope_id :: "primitives \<Rightarrow> string \<Rightarrow> string \<Rightarrow> folder_id \<Rightarrow> string" where
  "scope_id pr workspace path d =
     pr_sha pr (workspace @ [CHR 0x00] @ path @ [CHR 0x00] @ fst d @ [CHR 0x00] @ snd d)"

definition scope :: "primitives \<Rightarrow> files \<Rightarrow> string \<Rightarrow> bool \<Rightarrow> (catalog, string option) tx" where
  "scope pr fs workspace create = (\<lambda>c.
     case folder_identity fs of
       Inl e \<Rightarrow> Inl e
     | Inr d \<Rightarrow>
         (let identifier = scope_id pr workspace (fs_path fs) d in
          case map_of (ct_scopes c) identifier of
            None \<Rightarrow>
              if create
              then Inr (Some identifier, c\<lparr>ct_scopes := (identifier,
                      \<lparr>sc_workspace = workspace, sc_folder = fs_path fs, sc_identity = d\<rparr>) # ct_scopes c\<rparr>)
              else Inr (None, c)
          | Some row \<Rightarrow>
              if sc_workspace row \<noteq> workspace \<or> sc_folder row \<noteq> fs_path fs \<or> sc_identity row \<noteq> d
              then Inl (SetupError ''backup_destination_changed'')
              else Inr (Some identifier, c)))"

section \<open>Registration\<close>

record copy_receipt =
  re_parent :: string
  re_name :: string
  re_authenticated :: bool
  re_bytes :: nat
  re_sha :: string
  re_key :: string

record capture_receipt =
  rc_workspace :: string
  rc_operation :: string
  rc_verified_at :: string
  rc_snapshot :: "copy_receipt option"
  rc_ledger :: "copy_receipt option"

definition copy_ok :: "files \<Rightarrow> string \<Rightarrow> copy_kind \<Rightarrow> copy_receipt \<Rightarrow> bool" where
  "copy_ok fs operation kind v \<longleftrightarrow> re_parent v = fs_path fs \<and> name_groups (re_name v) = Some (kind, operation)
     \<and> re_authenticated v \<and> 1 \<le> re_bytes v \<and> re_bytes v \<le> MAX_BACKUP_BYTES \<and> hex 64 (re_sha v) \<and> hex 24 (re_key v)
     \<and> (case stat_path (re_name v) fs of Inl _ \<Rightarrow> False | Inr (_, _, n, _) \<Rightarrow> n = re_bytes v)"

definition receipt_files :: "capture_receipt \<Rightarrow> (copy_kind \<times> copy_receipt) list" where
  "receipt_files r = (case rc_snapshot r of None \<Rightarrow> [] | Some v \<Rightarrow> [(Snapshot, v)])
     @ (case rc_ledger r of None \<Rightarrow> [] | Some v \<Rightarrow> [(Ledger, v)])"

definition receipt_ok :: "primitives \<Rightarrow> files \<Rightarrow> capture_receipt \<Rightarrow> bool" where
  "receipt_ok pr fs r \<longleftrightarrow> pr_uuid pr (rc_workspace r) \<noteq> None \<and> hex 32 (rc_operation r)
     \<and> stamp_ok pr (rc_verified_at r)
     \<and> (\<forall>(kind, v)\<in>set (receipt_files r). copy_ok fs (rc_operation r) kind v)
     \<and> receipt_files r \<noteq> [] \<and> Ledger \<in> fst ` set (receipt_files r)
     \<and> card ((\<lambda>(kind, v). re_key v) ` set (receipt_files r)) = 1"

definition copy_values :: "copy_row \<Rightarrow> string \<times> copy_kind \<times> string \<times> string \<times> nat \<times> string \<times> string" where
  "copy_values r = (cp_name r, cp_kind r, cp_operation r, cp_key r, cp_bytes r, cp_sha r, cp_verified_at r)"

definition register_copy :: "string \<Rightarrow> string \<times> copy_kind \<times> string \<times> string \<times> nat \<times> string \<times> string \<Rightarrow> (catalog, unit) tx" where
  "register_copy identifier values = (\<lambda>c.
     case List.find (\<lambda>r. cp_scope r = identifier \<and> cp_name r = fst values) (ct_copies c) of
       Some previous \<Rightarrow> if copy_values previous \<noteq> values then Inl problem else Inr ((), c)
     | None \<Rightarrow>
         (case values of (name, kind, operation, key, bytes, sha, stamp) \<Rightarrow>
            Inr ((), c\<lparr>ct_copies := ct_copies c @ [\<lparr>cp_sequence = ct_last c + 1, cp_scope = identifier,
                 cp_name = name, cp_kind = kind, cp_operation = operation, cp_key = key, cp_bytes = bytes,
                 cp_sha = sha, cp_verified_at = stamp, cp_attempts = 0\<rparr>], ct_last := ct_last c + 1\<rparr>)))"

definition receipt_values :: "capture_receipt \<Rightarrow> (string \<times> copy_kind \<times> string \<times> string \<times> nat \<times> string \<times> string) list" where
  "receipt_values r = map (\<lambda>(kind, v). (re_name v, kind, rc_operation r, re_key v, re_bytes v, re_sha v, rc_verified_at r))
     (receipt_files r)"

definition register :: "primitives \<Rightarrow> files \<Rightarrow> capture_receipt \<Rightarrow> (catalog, unit) tx" where
  "register pr fs r =
     (if \<not> receipt_ok pr fs r then tx_raise problem
      else tx_bind (scope pr fs (the (pr_uuid pr (rc_workspace r))) True) (\<lambda>identifier.
             case identifier of
               None \<Rightarrow> tx_return ()
             | Some k \<Rightarrow> tx_each (register_copy k) (receipt_values r)))"

section \<open>Availability\<close>

datatype availability = Present | Changed | Missing | Unavailable

definition row_available :: "primitives \<Rightarrow> files \<Rightarrow> copy_row \<Rightarrow> (availability \<times> file_stamp option) res" where
  "row_available pr fs r =
     (if \<not> validate_row pr r then Inl problem
      else case stat_path (cp_name r) fs of
             Inr stamp \<Rightarrow> Inr (if fst (snd (snd stamp)) = cp_bytes r then Present else Changed, Some stamp)
           | Inl e \<Rightarrow>
               if (case fs_at fs of Directory d \<Rightarrow> \<not> fs_refused fs (cp_name r) \<and> fs_dirs fs d (cp_name r) = None
                   | NoFolder \<Rightarrow> True | NotDirectory \<Rightarrow> False)
               then Inr (Missing, None) else Inr (Unavailable, None))"

end
