(* ===== verification/Backup_Retention.thy ===== *)
theory Backup_Retention
  imports Backup_Catalog "HOL-Library.Product_Lexorder"
begin

text \<open>
  Retention of backup copies (\<open>backup_retention.py\<close>): the plan, which protects the newest recovery
  points of a key and offers the other copies of that key for removal, and one bounded cleanup.
  Cleanup runs while other processes may change the files, cancel it or lock the inventory: before
  each of its observations and file operations the next interference of a list takes place. The
  POSIX branch of \<open>_opened\<close> is modelled. Computing the plan is one step, and so is each read of a
  block; progress events, messages and completion times are left out.
\<close>

section \<open>The plan\<close>

datatype retention_mode = KeepAll | Limited

record retention_policy =
  rp_mode :: retention_mode
  rp_snapshots :: nat
  rp_ledgers :: nat

definition policy_ok :: "retention_policy \<Rightarrow> bool" where
  "policy_ok p \<longleftrightarrow> 2 \<le> rp_snapshots p \<and> rp_snapshots p \<le> 365 \<and> 2 \<le> rp_ledgers p \<and> rp_ledgers p \<le> 10000"

definition BATCH_LIMIT :: nat where
  "BATCH_LIMIT = 200"

definition RECENT_LIMIT :: nat where
  "RECENT_LIMIT = 100"

text \<open>The copies of one scope and key, newest first.\<close>

definition own :: "string \<Rightarrow> string \<Rightarrow> copy_row list \<Rightarrow> copy_row list" where
  "own k key rows = filter (\<lambda>r. cp_scope r = k \<and> cp_key r = key) rows"

definition newest_copies :: "copy_row list \<Rightarrow> copy_row list" where
  "newest_copies rows = rev (sort_key cp_sequence rows)"

definition newest_of :: "copy_kind \<Rightarrow> nat \<Rightarrow> copy_row list \<Rightarrow> copy_row list" where
  "newest_of kind n rows = take n (newest_copies (filter (\<lambda>r. cp_kind r = kind) rows))"

text \<open>The common table expression \<open>_PROTECTION\<close>, over the copies of the scope and key.\<close>

definition protected_sequences :: "retention_policy \<Rightarrow> string \<times> string \<Rightarrow> copy_row list \<Rightarrow> nat list" where
  "protected_sequences p named rows =
     (let snapshot_points = newest_of Snapshot (rp_snapshots p) rows;
          recent_ledgers = newest_of Ledger (rp_ledgers p) rows in
      map cp_sequence snapshot_points @ map cp_sequence recent_ledgers
      @ map cp_sequence (filter (\<lambda>r. cp_kind r = Ledger \<and> cp_operation r \<in> set (map cp_operation snapshot_points)) rows)
      @ map cp_sequence (filter (\<lambda>r. cp_name r = fst named \<or> cp_name r = snd named) rows))"

text \<open>A saved receipt: of which workspace, and where each of its files lies under which key.\<close>

record last_record =
  lr_workspace :: string
  lr_entries :: "copy_kind \<Rightarrow> (string \<times> string \<times> string) option"

definition last_name :: "string \<Rightarrow> string \<Rightarrow> string \<Rightarrow> copy_kind \<Rightarrow> last_record option res \<Rightarrow> string res" where
  "last_name path workspace key kind record =
     (case record of
        Inl e \<Rightarrow> Inl e
      | Inr None \<Rightarrow> Inr []
      | Inr (Some l) \<Rightarrow>
          if lr_workspace l \<noteq> workspace then Inr []
          else case lr_entries l kind of
                 None \<Rightarrow> Inr []
               | Some (parent, name, k) \<Rightarrow>
                   if parent = path \<and> k = key
                   then if name_groups name = None then Inl problem else Inr name
                   else Inr [])"

type_synonym lasts = "last_record option res \<times> last_record option res"

definition last_names :: "string \<Rightarrow> string \<Rightarrow> string \<Rightarrow> lasts \<Rightarrow> (string \<times> string) res" where
  "last_names path workspace key ls =
     (case last_name path workspace key Snapshot (fst ls) of
        Inl e \<Rightarrow> Inl e
      | Inr snapshot \<Rightarrow>
          (case last_name path workspace key Ledger (snd ls) of
             Inl e \<Rightarrow> Inl e
           | Inr ledger \<Rightarrow> Inr (snapshot, ledger)))"

record recent_copy =
  rt_name :: string
  rt_kind :: copy_kind
  rt_key :: string
  rt_bytes :: nat
  rt_verified_at :: string
  rt_availability :: availability
  rt_protected :: bool

definition projection :: "primitives \<Rightarrow> files \<Rightarrow> copy_row \<Rightarrow> bool \<Rightarrow> recent_copy res" where
  "projection pr fs r guarded = (case row_available pr fs r of
       Inl e \<Rightarrow> Inl e
     | Inr (a, _) \<Rightarrow> Inr \<lparr>rt_name = cp_name r, rt_kind = cp_kind r, rt_key = cp_key r, rt_bytes = cp_bytes r,
                         rt_verified_at = cp_verified_at r, rt_availability = a, rt_protected = guarded\<rparr>)"

fun projections :: "primitives \<Rightarrow> files \<Rightarrow> (copy_row \<Rightarrow> bool) \<Rightarrow> copy_row list \<Rightarrow> recent_copy list res" where
  "projections pr fs guarded [] = Inr []"
| "projections pr fs guarded (r # rs) =
     (case projection pr fs r (guarded r) of
        Inl e \<Rightarrow> Inl e
      | Inr x \<Rightarrow> (case projections pr fs guarded rs of Inl e \<Rightarrow> Inl e | Inr xs \<Rightarrow> Inr (x # xs)))"

datatype plan_state = AllKept | Untracked | PlanReady | InsufficientRecovery

record plan =
  pl_workspace :: string
  pl_key :: string
  pl_folder :: string
  pl_policy :: retention_policy
  pl_snapshots :: nat
  pl_ledgers :: nat
  pl_bytes :: nat
  pl_other_files :: nat
  pl_candidate_files :: nat
  pl_candidate_bytes :: nat
  pl_batch_files :: nat
  pl_batch_bytes :: nat
  pl_recent :: "recent_copy list"
  pl_state :: plan_state
  pl_token :: string

text \<open>What the token of a plan is the digest of.\<close>

datatype token_data =
    UntrackedPlan plan
  | TrackedPlan retention_policy string folder_id string "copy_row list" "copy_row list" nat nat nat

definition base_plan :: "string \<Rightarrow> string \<Rightarrow> string \<Rightarrow> retention_policy \<Rightarrow> plan" where
  "base_plan workspace key path p = \<lparr>pl_workspace = workspace, pl_key = key, pl_folder = path, pl_policy = p,
     pl_snapshots = 0, pl_ledgers = 0, pl_bytes = 0, pl_other_files = 0, pl_candidate_files = 0,
     pl_candidate_bytes = 0, pl_batch_files = 0, pl_batch_bytes = 0, pl_recent = [],
     pl_state = (if rp_mode p = KeepAll then AllKept else Untracked), pl_token = []\<rparr>"

definition total_bytes :: "copy_row list \<Rightarrow> nat" where
  "total_bytes rows = sum_list (map cp_bytes rows)"

definition removable :: "retention_policy \<Rightarrow> string \<times> string \<Rightarrow> copy_row list \<Rightarrow> copy_row list" where
  "removable p named rows =
     (if rp_mode p = Limited
      then filter (\<lambda>r. cp_sequence r \<notin> set (protected_sequences p named rows)) rows else [])"

definition batch_of :: "copy_row list \<Rightarrow> copy_row list" where
  "batch_of rows = take BATCH_LIMIT (sort_key (\<lambda>r. (cp_attempts r, cp_sequence r)) rows)"

definition plan_scope :: "primitives \<Rightarrow> files \<Rightarrow> catalog option \<Rightarrow> string \<Rightarrow> string option res" where
  "plan_scope pr fs catalog workspace = (case catalog of
       None \<Rightarrow> Inr None
     | Some c \<Rightarrow> if fs_at fs = NoFolder then Inr None
                 else case scope pr fs workspace False c of Inl e \<Rightarrow> Inl e | Inr (k, _) \<Rightarrow> Inr k)"

type_synonym planned = "plan \<times> copy_row list \<times> copy_row list \<times> string option"

definition tracked_plan :: "primitives \<Rightarrow> (token_data \<Rightarrow> string) \<Rightarrow> files \<Rightarrow> copy_row list \<Rightarrow> string \<Rightarrow> string \<Rightarrow> string
    \<Rightarrow> retention_policy \<Rightarrow> folder_id \<Rightarrow> string \<times> string \<Rightarrow> planned res" where
  "tracked_plan pr token fs copies k workspace key p d named =
     (let rows = own k key copies;
          snapshots = length (filter (\<lambda>r. cp_kind r = Snapshot) rows);
          ledgers = length (filter (\<lambda>r. cp_kind r = Ledger) rows);
          sequences = protected_sequences p named rows;
          protected = newest_copies (filter (\<lambda>r. cp_sequence r \<in> set sequences) rows);
          candidates = batch_of (removable p named rows) in
      if \<not> list_all (validate_row pr) protected then Inl problem
      else case projections pr fs (\<lambda>r. rp_mode p = KeepAll \<or> cp_sequence r \<in> set sequences) (take RECENT_LIMIT (newest_copies rows)) of
        Inl e \<Rightarrow> Inl e
      | Inr recent \<Rightarrow>
          if \<not> list_all (validate_row pr) candidates then Inl problem
          else Inr ((base_plan workspace key (fs_path fs) p)
            \<lparr>pl_snapshots := snapshots, pl_ledgers := ledgers, pl_bytes := total_bytes rows,
             pl_other_files := length (filter (\<lambda>r. cp_scope r = k \<and> cp_key r \<noteq> key) copies),
             pl_candidate_files := length (removable p named rows), pl_candidate_bytes := total_bytes (removable p named rows),
             pl_batch_files := length candidates, pl_batch_bytes := total_bytes candidates, pl_recent := recent,
             pl_state := (if rp_mode p = KeepAll then AllKept else if snapshots < 2 then InsufficientRecovery else PlanReady),
             pl_token := token (TrackedPlan p k d key protected candidates (length (removable p named rows)) snapshots ledgers)\<rparr>,
            protected, candidates, Some k))"

definition plan_of :: "primitives \<Rightarrow> (token_data \<Rightarrow> string) \<Rightarrow> files \<Rightarrow> catalog option \<Rightarrow> lasts \<Rightarrow> string \<Rightarrow> string
    \<Rightarrow> retention_policy \<Rightarrow> planned res" where
  "plan_of pr token fs catalog ls workspace key p =
     (case plan_scope pr fs catalog workspace of
        Inl e \<Rightarrow> Inl e
      | Inr None \<Rightarrow>
          (let base = base_plan workspace key (fs_path fs) p in
           Inr (base\<lparr>pl_token := token (UntrackedPlan base)\<rparr>, [], [], None))
      | Inr (Some k) \<Rightarrow>
          (case last_names (fs_path fs) workspace key ls of
             Inl e \<Rightarrow> Inl e
           | Inr named \<Rightarrow>
               (case (catalog, folder_identity fs) of
                  (Some c, Inr d) \<Rightarrow> tracked_plan pr token fs (ct_copies c) k workspace key p d named
                | (_, Inl e) \<Rightarrow> Inl e
                | (None, _) \<Rightarrow> Inl problem)))"

definition backup_inventory :: "primitives \<Rightarrow> (token_data \<Rightarrow> string) \<Rightarrow> files \<Rightarrow> catalog option \<Rightarrow> lasts \<Rightarrow> string \<Rightarrow> string
    \<Rightarrow> retention_policy \<Rightarrow> plan res" where
  "backup_inventory pr token fs catalog ls workspace key p = map_sum id fst (plan_of pr token fs catalog ls workspace key p)"

end
