(* ===== verification/Backup_Cleanup.thy ===== *)
theory Backup_Cleanup
  imports Backup_Retention
begin

text \<open>
  One bounded cleanup of backup copies (\<open>cleanup\<close> of \<open>backup_retention.py\<close>), as a program over a
  world that others change. A raised exception does not undo what was done before it. The files that
  the program unlinks are kept in a log, newest last.
\<close>

section \<open>Programs in a changing world\<close>

text \<open>
  What others may change: the files, whether a cancellation is requested, whether the inventory can be
  written, whether a file or directory fails to close, and how saving the report fails (the error, and
  whether the record was replaced before it, as when only the directory could not be flushed).
\<close>

record outside =
  ou_files :: files
  ou_cancelled :: bool
  ou_locked :: bool
  ou_unclosed :: bool
  ou_save :: "(error \<times> bool) option"

datatype report_state = Complete | Partial | Blocked | Stopped

record report =
  rp_state :: report_state
  rp_deleted :: nat
  rp_deleted_bytes :: nat
  rp_skipped :: nat
  rp_remaining :: nat

text \<open>\<open>wd_held\<close> counts the retained files that a cleanup holds open, none before it.\<close>

record world =
  wd_outside :: outside
  wd_future :: "(outside \<Rightarrow> outside) list"
  wd_catalog :: catalog
  wd_report :: report
  wd_saved :: "report option"
  wd_unlinked :: "(string \<times> nat) list"
  wd_held :: nat

type_synonym 'a io = "world \<Rightarrow> 'a res \<times> world"

definition io_return :: "'a \<Rightarrow> 'a io" where
  "io_return a = (\<lambda>w. (Inr a, w))"

definition io_raise :: "error \<Rightarrow> 'a io" where
  "io_raise e = (\<lambda>w. (Inl e, w))"

definition io_bind :: "'a io \<Rightarrow> ('a \<Rightarrow> 'b io) \<Rightarrow> 'b io" where
  "io_bind m f = (\<lambda>w. case m w of (Inl e, v) \<Rightarrow> (Inl e, v) | (Inr a, v) \<Rightarrow> f a v)"

definition io_then :: "unit io \<Rightarrow> 'b io \<Rightarrow> 'b io" where
  "io_then m n = io_bind m (\<lambda>_. n)"

definition io_catch :: "'a io \<Rightarrow> (error \<Rightarrow> bool) \<Rightarrow> 'a io \<Rightarrow> 'a io" where
  "io_catch m caught h = (\<lambda>w. case m w of (Inl e, v) \<Rightarrow> (if caught e then h v else (Inl e, v)) | (Inr a, v) \<Rightarrow> (Inr a, v))"

text \<open>The second program always runs; if it raises, its error replaces the outcome of the first.\<close>

definition io_finally :: "'a io \<Rightarrow> unit io \<Rightarrow> 'a io" where
  "io_finally m n = (\<lambda>w. let (r, v) = m w in (case n v of (Inl e, u) \<Rightarrow> (Inl e, u) | (Inr _, u) \<Rightarrow> (r, u)))"

definition io_report :: "(report \<Rightarrow> report) \<Rightarrow> unit io" where
  "io_report f = (\<lambda>w. (Inr (), w\<lparr>wd_report := f (wd_report w)\<rparr>))"

text \<open>The next interference takes place.\<close>

definition tick :: "world \<Rightarrow> world" where
  "tick w = (case wd_future w of [] \<Rightarrow> w | f # fs \<Rightarrow> w\<lparr>wd_outside := f (wd_outside w), wd_future := fs\<rparr>)"

definition observe :: "(outside \<Rightarrow> 'a res) \<Rightarrow> 'a io" where
  "observe f = (\<lambda>w. (f (wd_outside (tick w)), tick w))"

section \<open>Verification of a file\<close>

definition io_cancel :: "unit io" where
  "io_cancel = observe (\<lambda>o'. if ou_cancelled o' then Inl Cancelled else Inr ())"

definition CHUNK_BYTES :: nat where
  "CHUNK_BYTES = 1024 * 1024"

text \<open>\<open>_opened\<close>: the directory and the inode stay the same however the names change afterwards.\<close>

definition opened :: "string \<Rightarrow> (folder_id \<times> nat) io" where
  "opened name =
     (if name_groups name = None then io_raise problem
      else io_bind (observe (\<lambda>o'. case fs_at (ou_files o') of Directory d \<Rightarrow> Inr d | _ \<Rightarrow> Inl OSError)) (\<lambda>d.
           io_bind (observe (\<lambda>o'. entry_in d name (ou_files o'))) (\<lambda>ino. io_return (d, ino))))"

text \<open>Leaving \<open>_opened\<close> closes the file and its directory.\<close>

definition io_close :: "unit io" where
  "io_close = observe (\<lambda>o'. if ou_unclosed o' then Inl OSError else Inr ())"

text \<open>The files that are verified first stay open until the cleanup ends.\<close>

definition io_hold :: "unit io" where
  "io_hold = (\<lambda>w. (Inr (), w\<lparr>wd_held := wd_held w + 1\<rparr>))"

definition io_release :: "unit io" where
  "io_release = (\<lambda>w. if wd_held w = 0 then (Inr (), w) else io_close (w\<lparr>wd_held := 0\<rparr>))"

definition fstat :: "nat \<Rightarrow> file_stamp io" where
  "fstat ino = observe (\<lambda>o'. file_identity ino (fs_inodes (ou_files o') ino))"

definition content_at :: "nat \<Rightarrow> world \<Rightarrow> string" where
  "content_at ino w = in_content (fs_inodes (ou_files (wd_outside w)) ino)"

text \<open>The read loop: the digest is over the blocks read so far.\<close>

function read_blocks :: "nat \<Rightarrow> string \<Rightarrow> string io" where
  "read_blocks ino got w =
     (let v = tick w in
      if ou_cancelled (wd_outside v) then (Inl Cancelled, v)
      else (let u = tick v; block = take CHUNK_BYTES (drop (length got) (content_at ino u)) in
            if block = [] then (Inr got, u) else read_blocks ino (got @ block) u))"
  by pat_completeness auto

lemma tick_future: "wd_future (tick w) = tl (wd_future w)"
  by (simp add: tick_def split: list.split)

lemma tick_idle: "wd_future w = [] \<Longrightarrow> tick w = w"
  by (simp add: tick_def)

termination read_blocks
proof (relation "measures [\<lambda>(ino, got, w). length (wd_future w), \<lambda>(ino, got, w). length (content_at ino w) - length got]", simp)
  fix ino :: nat and got :: string and w v u :: world and block
  assume v: "v = tick w" and u: "u = tick v" and block: "block = take CHUNK_BYTES (drop (length got) (content_at ino u))"
    and more: "block \<noteq> []"
  show "((ino, got @ block, u), ino, got, w) \<in> measures
      [\<lambda>(ino, got, w). length (wd_future w), \<lambda>(ino, got, w). length (content_at ino w) - length got]"
  proof (cases "wd_future w = []")
    case True
    then have "u = w" by (simp add: u v tick_idle)
    moreover have "length got < length (content_at ino w)" using more block \<open>u = w\<close> by auto
    ultimately show ?thesis using more by (auto simp: length_greater_0_conv[symmetric] simp del: length_greater_0_conv)
  next
    case False
    then show ?thesis by (cases "wd_future w") (auto simp: u v tick_future)
  qed
qed

declare read_blocks.simps [simp del]

definition verify_file :: "primitives \<Rightarrow> nat \<Rightarrow> copy_row \<Rightarrow> file_stamp io" where
  "verify_file pr ino row =
     io_bind (fstat ino) (\<lambda>before.
       if fst (snd (snd before)) \<noteq> cp_bytes row then io_raise problem
       else io_bind (read_blocks ino []) (\<lambda>content.
            io_bind (fstat ino) (\<lambda>after.
              if after \<noteq> before \<or> pr_sha pr content \<noteq> cp_sha row then io_raise problem
              else io_return before)))"

fun check_names :: "(string \<times> file_stamp) list \<Rightarrow> unit io" where
  "check_names [] = io_return ()"
| "check_names ((name, stamp) # rest) =
     io_bind (observe (\<lambda>o'. stat_path name (ou_files o'))) (\<lambda>s.
       if s \<noteq> stamp then io_raise problem else check_names rest)"

definition check_retained :: "folder_id \<Rightarrow> (string \<times> file_stamp) list \<Rightarrow> unit io" where
  "check_retained d retained =
     io_bind (observe (\<lambda>o'. folder_identity (ou_files o'))) (\<lambda>now.
       if now \<noteq> d then io_raise problem else check_names retained)"

section \<open>Removal\<close>

definition unlink_in :: "folder_id \<Rightarrow> string \<Rightarrow> files \<Rightarrow> files" where
  "unlink_in d name fs = fs\<lparr>fs_dirs := (fs_dirs fs)(d := (fs_dirs fs d)(name := None))\<rparr>"

definition unlink :: "folder_id \<Rightarrow> string \<Rightarrow> unit io" where
  "unlink d name = (\<lambda>w. let v = tick w; o' = wd_outside v in
     case entry_in d name (ou_files o') of
       Inl e \<Rightarrow> (Inl e, v)
     | Inr ino \<Rightarrow> (Inr (), v\<lparr>wd_outside := o'\<lparr>ou_files := unlink_in d name (ou_files o')\<rparr>,
                              wd_unlinked := wd_unlinked v @ [(name, ino)]\<rparr>))"

definition remove :: "folder_id \<Rightarrow> string \<Rightarrow> file_stamp \<Rightarrow> unit io" where
  "remove d name expected =
     io_bind (observe (\<lambda>o'. stat_in d name (ou_files o'))) (\<lambda>current.
       if current \<noteq> expected then io_raise problem else unlink d name)"

text \<open>A write of the inventory and its commit.\<close>

definition locked :: error where
  "locked = DatabaseError ''locked''"

definition write_copies :: "(copy_row list \<Rightarrow> copy_row list) \<Rightarrow> unit io" where
  "write_copies f = io_then (observe (\<lambda>o'. if ou_locked o' then Inl locked else Inr ()))
     (\<lambda>w. (Inr (), w\<lparr>wd_catalog := (wd_catalog w)\<lparr>ct_copies := f (ct_copies (wd_catalog w))\<rparr>\<rparr>))"

definition expected_failure :: "error \<Rightarrow> bool" where
  "expected_failure e = (case e of OSError \<Rightarrow> True | SetupError _ \<Rightarrow> True | _ \<Rightarrow> False)"

definition delete_file :: "primitives \<Rightarrow> folder_id \<Rightarrow> (string \<times> file_stamp) list \<Rightarrow> copy_row \<Rightarrow> unit io" where
  "delete_file pr d retained row =
     io_bind (opened (cp_name row)) (\<lambda>(dir, ino).
     io_finally
       (io_bind (verify_file pr ino row) (\<lambda>stamp.
        io_then io_cancel (io_then (check_retained d retained) (remove dir (cp_name row) stamp))))
       io_close)"

definition delete_copy :: "primitives \<Rightarrow> string \<Rightarrow> folder_id \<Rightarrow> (string \<times> file_stamp) list \<Rightarrow> copy_row \<Rightarrow> unit io" where
  "delete_copy pr k d retained row =
     io_catch
       (io_then (delete_file pr d retained row)
       (io_then (io_report (\<lambda>r. r\<lparr>rp_deleted := rp_deleted r + 1, rp_deleted_bytes := rp_deleted_bytes r + cp_bytes row\<rparr>))
         (write_copies (filter (\<lambda>r. \<not> (cp_sequence r = cp_sequence row \<and> cp_scope r = k))))))
       expected_failure
       (io_then (io_report (\<lambda>r. r\<lparr>rp_skipped := rp_skipped r + 1\<rparr>))
         (write_copies (map (\<lambda>r. if cp_sequence r = cp_sequence row
                                  then r\<lparr>cp_attempts := min (cp_attempts r + 1) 1000000\<rparr> else r))))"

text \<open>The loop over the candidates; it stops when a retained file is no longer what it was.\<close>

fun delete_copies :: "primitives \<Rightarrow> string \<Rightarrow> folder_id \<Rightarrow> (string \<times> file_stamp) list \<Rightarrow> copy_row list \<Rightarrow> unit io" where
  "delete_copies pr k d retained [] = io_return ()"
| "delete_copies pr k d retained (row # rows) =
     io_then io_cancel
      (io_bind (io_catch (io_then (check_retained d retained) (io_return True)) expected_failure (io_return False)) (\<lambda>intact.
         if intact then io_then (delete_copy pr k d retained row) (delete_copies pr k d retained rows)
         else io_report (\<lambda>r. r\<lparr>rp_state := Partial\<rparr>)))"

section \<open>Cleanup\<close>

definition add_row :: "copy_row \<Rightarrow> copy_row list \<Rightarrow> copy_row list" where
  "add_row row keep = (if cp_sequence row \<in> set (map cp_sequence keep) then keep else keep @ [row])"

fun partners :: "copy_row list \<Rightarrow> copy_row list \<Rightarrow> copy_row list \<Rightarrow> copy_row list option" where
  "partners protected [] keep = Some keep"
| "partners protected (s # ss) keep =
     (case List.find (\<lambda>r. cp_kind r = Ledger \<and> cp_operation r = cp_operation s) protected of
        None \<Rightarrow> None
      | Some l \<Rightarrow> partners protected ss (add_row l keep))"

text \<open>The rows that a cleanup verifies first: two snapshots, the newest ledger, the ledgers of the snapshots.\<close>

definition keep_rows :: "copy_row list \<Rightarrow> copy_row list option" where
  "keep_rows protected =
     (let snapshots = take 2 (filter (\<lambda>r. cp_kind r = Snapshot) protected);
          newest = List.find (\<lambda>r. cp_kind r = Ledger) protected in
      case partners protected snapshots (case newest of None \<Rightarrow> snapshots | Some l \<Rightarrow> add_row l snapshots) of
        None \<Rightarrow> None
      | Some keep \<Rightarrow> if length snapshots \<noteq> 2 \<or> newest = None then None else Some keep)"

fun verify_all :: "primitives \<Rightarrow> copy_row list \<Rightarrow> (string \<times> file_stamp) list \<Rightarrow> (string \<times> file_stamp) list io" where
  "verify_all pr [] got = io_return got"
| "verify_all pr (row # rows) got =
     io_bind (opened (cp_name row)) (\<lambda>(dir, ino).
     io_then io_hold
     (io_bind (verify_file pr ino row) (\<lambda>stamp. verify_all pr rows (got @ [(cp_name row, stamp)]))))"

definition io_state :: "report_state \<Rightarrow> unit io" where
  "io_state x = io_report (\<lambda>r. r\<lparr>rp_state := x\<rparr>)"

definition finish_cleanup :: "nat \<Rightarrow> unit io" where
  "finish_cleanup count = io_report (\<lambda>r. r\<lparr>rp_remaining := count - rp_deleted r,
     rp_state := (if rp_skipped r > 0 \<or> count - rp_deleted r > 0 then Partial else Complete)\<rparr>)"

definition cleanup_steps :: "primitives \<Rightarrow> planned \<Rightarrow> unit io" where
  "cleanup_steps pr x = (case x of (p, protected, candidates, scoped) \<Rightarrow>
     if pl_state p \<noteq> PlanReady \<or> candidates = []
     then io_state (if pl_state p = InsufficientRecovery then Blocked else Complete)
     else io_bind (observe (\<lambda>o'. folder_identity (ou_files o'))) (\<lambda>d.
       case keep_rows protected of
         None \<Rightarrow> io_state Blocked
       | Some keep \<Rightarrow>
           io_bind (io_catch (io_bind (verify_all pr keep []) (\<lambda>r. io_return (Some r))) expected_failure (io_return None)) (\<lambda>verified.
             case verified of
               None \<Rightarrow> io_state Blocked
             | Some retained \<Rightarrow>
                 io_then (delete_copies pr (the scoped) d retained candidates) (finish_cleanup (pl_candidate_files p)))))"

text \<open>The retained files are closed before the report is saved.\<close>

definition cleanup_body :: "primitives \<Rightarrow> planned \<Rightarrow> unit io" where
  "cleanup_body pr x = io_finally (cleanup_steps pr x) io_release"

text \<open>
  \<open>_record_cleanup\<close> around the body, then \<open>open_catalog\<close>, which turns a database error into its own. An
  error of saving the report replaces how the body ended.
\<close>

definition record_cleanup :: "nat \<Rightarrow> unit io \<Rightarrow> unit io" where
  "record_cleanup count m = (\<lambda>w.
     let (r, v) = m w;
         report = (case r of
             Inr _ \<Rightarrow> wd_report v
           | Inl e \<Rightarrow> if e = Cancelled then (wd_report v)\<lparr>rp_state := Stopped\<rparr>
             else if expected_failure e \<or> e = locked
                     then (wd_report v)\<lparr>rp_state := (if rp_deleted (wd_report v) > 0 then Partial else Blocked)\<rparr>
                     else wd_report v);
         final = report\<lparr>rp_remaining := count - rp_deleted report\<rparr>;
         u = (tick v)\<lparr>wd_report := final\<rparr> in
     (case ou_save (wd_outside u) of
        None \<Rightarrow> (case r of Inl e \<Rightarrow> Inl (if e = locked then problem else e) | Inr a \<Rightarrow> Inr a, u\<lparr>wd_saved := Some final\<rparr>)
      | Some (e, replaced) \<Rightarrow> (Inl e, if replaced then u\<lparr>wd_saved := Some final\<rparr> else u)))"

definition fresh_report :: "nat \<Rightarrow> report" where
  "fresh_report count = \<lparr>rp_state = Complete, rp_deleted = 0, rp_deleted_bytes = 0, rp_skipped = 0, rp_remaining = count\<rparr>"

definition cleanup :: "primitives \<Rightarrow> (token_data \<Rightarrow> string) \<Rightarrow> lasts \<Rightarrow> bool \<Rightarrow> string \<Rightarrow> string \<Rightarrow> retention_policy
    \<Rightarrow> string option \<Rightarrow> report io" where
  "cleanup pr token ls opens workspace key p expected =
     io_then io_cancel
      (io_bind (\<lambda>w. (plan_of pr token (ou_files (wd_outside (tick w))) (if opens then Some (wd_catalog w) else None) ls workspace key p, tick w)) (\<lambda>x.
         if expected \<noteq> None \<and> expected \<noteq> Some (pl_token (fst x)) then io_raise (SetupError ''backup_plan_changed'')
         else io_then (io_report (\<lambda>_. fresh_report (pl_candidate_files (fst x))))
             (io_then (record_cleanup (pl_candidate_files (fst x)) (cleanup_body pr x))
               (\<lambda>w. (Inr (wd_report w), w)))))"

end
