(* ===== verification/Backup_Properties.thy ===== *)
theory Backup_Properties
  imports Backup_Cleanup
begin

text \<open>
  What a cleanup of backup copies guarantees while others change the files at any moment, and what
  it leaves standing if they leave the recovery points alone.
\<close>

section \<open>Relations that programs keep\<close>

definition preserves :: "(world \<Rightarrow> world \<Rightarrow> bool) \<Rightarrow> 'a io \<Rightarrow> bool" where
  "preserves R m \<longleftrightarrow> (\<forall>w. R w (snd (m w)))"

lemma preservesD: "preserves R m \<Longrightarrow> m w = (r, v) \<Longrightarrow> R w v"
  unfolding preserves_def by (metis snd_conv)

named_theorems io_within \<open>structural rules for what a program keeps\<close>

lemma preserves_if [io_within]: "(b \<Longrightarrow> preserves R m) \<Longrightarrow> (\<not> b \<Longrightarrow> preserves R n) \<Longrightarrow> preserves R (if b then m else n)"
  by simp

lemma preserves_option [io_within]:
  "preserves R m \<Longrightarrow> (\<And>x. preserves R (f x)) \<Longrightarrow> preserves R (case z of None \<Rightarrow> m | Some x \<Rightarrow> f x)"
  by (cases z) simp_all

lemma preserves_prod [io_within]: "(\<And>a b. preserves R (f a b)) \<Longrightarrow> preserves R (case z of (a, b) \<Rightarrow> f a b)"
  by (cases z) simp

locale world_relation =
  fixes R :: "world \<Rightarrow> world \<Rightarrow> bool"
  assumes same: "R w w"
    and chain: "R w v \<Longrightarrow> R v u \<Longrightarrow> R w u"
    and ticking: "R w (tick w)"
    and holding: "R w (w\<lparr>wd_held := n\<rparr>)"
begin

lemma kept_return [io_within]: "preserves R (io_return a)"
  by (simp add: preserves_def io_return_def same)

lemma kept_raise [io_within]: "preserves R (io_raise e)"
  by (simp add: preserves_def io_raise_def same)

lemma kept_observe [io_within]: "preserves R (observe f)"
  by (simp add: preserves_def observe_def ticking)

lemma kept_bind [io_within]: "preserves R m \<Longrightarrow> (\<And>a. preserves R (f a)) \<Longrightarrow> preserves R (io_bind m f)"
  unfolding preserves_def io_bind_def
  by (auto split: prod.split sum.split) (metis chain snd_conv)+

lemma kept_then [io_within]: "preserves R m \<Longrightarrow> preserves R n \<Longrightarrow> preserves R (io_then m n)"
  by (simp add: io_then_def kept_bind)

lemma kept_catch [io_within]: "preserves R m \<Longrightarrow> preserves R h \<Longrightarrow> preserves R (io_catch m c h)"
  unfolding preserves_def io_catch_def
  by (auto split: prod.split sum.split) (metis chain snd_conv)+

lemma kept_finally [io_within]: "preserves R m \<Longrightarrow> preserves R n \<Longrightarrow> preserves R (io_finally m n)"
  unfolding preserves_def io_finally_def
  by (auto split: prod.split sum.split) (metis chain snd_conv)+

lemma kept_close [io_within]: "preserves R io_close"
  by (simp add: io_close_def kept_observe)

lemma kept_hold [io_within]: "preserves R io_hold"
  by (simp add: io_hold_def preserves_def holding)

lemma kept_release [io_within]: "preserves R io_release"
proof -
  have "R w (snd (io_close (w\<lparr>wd_held := 0\<rparr>)))" for w
    using chain[OF holding[of w 0]] kept_close by (simp add: preserves_def)
  then show ?thesis by (simp add: io_release_def preserves_def same)
qed

lemma kept_cancel [io_within]: "preserves R io_cancel"
  by (simp add: io_cancel_def kept_observe)

lemma kept_fstat [io_within]: "preserves R (fstat ino)"
  by (simp add: fstat_def kept_observe)

lemma kept_read: "R w (snd (read_blocks ino got w))"
proof (induction ino got w rule: read_blocks.induct)
  case (1 ino got w)
  show ?case
  proof (cases "ou_cancelled (wd_outside (tick w)) \<or> take CHUNK_BYTES (drop (length got) (content_at ino (tick (tick w)))) = []")
    case True
    then show ?thesis
      by (auto simp add: read_blocks.simps[of ino got w] Let_def ticking chain[OF ticking ticking])
  next
    case False
    then have "R (tick (tick w)) (snd (read_blocks ino got w))"
      using 1[OF refl _ refl refl] by (simp add: read_blocks.simps[of ino got w] Let_def)
    then show ?thesis by (rule chain[OF chain[OF ticking ticking]])
  qed
qed

lemma kept_verify [io_within]: "preserves R (verify_file pr ino row)"
  unfolding verify_file_def by (intro io_within) (simp add: preserves_def kept_read)

lemma kept_opened [io_within]: "preserves R (opened name)"
  unfolding opened_def by (intro io_within)

lemma kept_names: "preserves R (check_names retained)"
  by (induction retained rule: check_names.induct) (auto intro!: io_within)

lemma kept_check [io_within]: "preserves R (check_retained d retained)"
  unfolding check_retained_def by (intro io_within kept_names)

lemma kept_verify_all [io_within]: "preserves R (verify_all pr rows got)"
  by (induction rows arbitrary: got) (auto intro!: io_within)

end

section \<open>What only removal and the report change\<close>

text \<open>Every file and directory closes, now and whatever others do.\<close>

definition closes :: "world \<Rightarrow> bool" where
  "closes w \<longleftrightarrow> \<not> ou_unclosed (wd_outside w) \<and> (\<forall>f\<in>set (wd_future w). \<forall>o'. \<not> ou_unclosed o' \<longrightarrow> \<not> ou_unclosed (f o'))"

definition silent :: "world \<Rightarrow> world \<Rightarrow> bool" where
  "silent w v \<longleftrightarrow> wd_unlinked v = wd_unlinked w \<and> wd_report v = wd_report w \<and> wd_catalog v = wd_catalog w
     \<and> wd_saved v = wd_saved w \<and> (closes w \<longrightarrow> closes v)"

lemma tick_silent: "silent w (tick w)"
  by (simp add: silent_def tick_def closes_def split: list.split)

lemma hold_silent: "silent w (w\<lparr>wd_held := n\<rparr>)"
  by (simp add: silent_def closes_def)

interpretation quiet: world_relation silent
  by unfold_locales (auto simp: tick_silent hold_silent, auto simp: silent_def)

lemma bind_runs:
  "io_bind m f w = (r, v) \<longleftrightarrow> (\<exists>e. m w = (Inl e, v) \<and> r = Inl e) \<or> (\<exists>a u. m w = (Inr a, u) \<and> f a u = (r, v))"
  by (auto simp: io_bind_def split: prod.splits sum.splits)

lemma then_runs:
  "io_then m n w = (r, v) \<longleftrightarrow> (\<exists>e. m w = (Inl e, v) \<and> r = Inl e) \<or> (\<exists>u. m w = (Inr (), u) \<and> n u = (r, v))"
  by (simp add: io_then_def bind_runs)

lemma catch_runs:
  "io_catch m c h w = (r, v) \<longleftrightarrow> (\<exists>a. m w = (Inr a, v) \<and> r = Inr a) \<or> (\<exists>e. m w = (Inl e, v) \<and> r = Inl e \<and> \<not> c e)
     \<or> (\<exists>e u. m w = (Inl e, u) \<and> c e \<and> h u = (r, v))"
  by (auto simp: io_catch_def split: prod.splits sum.splits)

lemma finally_runs:
  "io_finally m n w = (r, v) \<longleftrightarrow> (\<exists>b x. m w = (b, x) \<and> ((\<exists>e. n x = (Inl e, v) \<and> r = Inl e) \<or> (n x = (Inr (), v) \<and> r = b)))"
  by (auto simp: io_finally_def Let_def split: prod.splits sum.splits)

lemmas io_runs = bind_runs then_runs catch_runs

lemma silent_trans: "silent w v \<Longrightarrow> silent v u \<Longrightarrow> silent w u"
  by (rule quiet.chain)

lemma close_runs: "io_close w = (r, v) \<Longrightarrow> silent w v \<and> (r = Inr () \<or> r = Inl OSError \<and> \<not> closes w)"
  using tick_silent[of w] by (auto simp: io_close_def observe_def silent_def closes_def split: if_splits)

text \<open>A removal is the last thing that can fail before the file is closed.\<close>

definition took_out :: "string \<Rightarrow> world \<Rightarrow> world \<Rightarrow> bool" where
  "took_out name w v \<longleftrightarrow> (\<exists>ino. wd_unlinked v = wd_unlinked w @ [(name, ino)]) \<and> wd_report v = wd_report w
     \<and> wd_catalog v = wd_catalog w \<and> wd_saved v = wd_saved w \<and> (closes w \<longrightarrow> closes v)"

lemma silent_took: "silent w u \<Longrightarrow> took_out name u x \<Longrightarrow> silent x v \<Longrightarrow> took_out name w v"
  by (auto simp: silent_def took_out_def)

lemma unlink_runs: "unlink d name w = (r, v) \<Longrightarrow> (\<exists>e. r = Inl e \<and> silent w v) \<or> (r = Inr () \<and> took_out name w v)"
  using tick_silent[of w] by (auto simp: unlink_def Let_def silent_def took_out_def closes_def split: sum.splits)

lemma remove_runs:
  "remove d name expected w = (r, v) \<Longrightarrow> (\<exists>e. r = Inl e \<and> silent w v) \<or> (r = Inr () \<and> took_out name w v)"
  using tick_silent[of w] silent_took[OF tick_silent _ quiet.same] silent_trans[OF tick_silent]
  by (auto simp: remove_def bind_runs observe_def io_raise_def split: if_splits dest!: unlink_runs)

lemma delete_file_runs:
  assumes "delete_file pr d retained row w = (r, v)"
  shows "(\<exists>e. r = Inl e \<and> silent w v) \<or> (r = Inr () \<and> took_out (cp_name row) w v)
    \<or> (r = Inl OSError \<and> took_out (cp_name row) w v \<and> \<not> closes w)"
proof -
  obtain a u where o': "opened (cp_name row) w = (a, u)" by fastforce
  have wu: "silent w u" using preservesD[OF quiet.kept_opened o'] .
  show ?thesis
  proof (cases a)
    case (Inl e)
    then show ?thesis using assms o' wu by (auto simp: delete_file_def bind_runs)
  next
    case (Inr p)
    obtain dir ino where p: "p = (dir, ino)" by (cases p)
    let ?body = "io_bind (verify_file pr ino row) (\<lambda>stamp.
        io_then io_cancel (io_then (check_retained d retained) (remove dir (cp_name row) stamp)))"
    obtain b x where x: "?body u = (b, x)" by fastforce
    have close: "(\<exists>e. io_close x = (Inl e, v) \<and> r = Inl e) \<or> (io_close x = (Inr (), v) \<and> r = b)"
      using assms o' Inr p x by (auto simp: delete_file_def bind_runs finally_runs)
    have "(\<exists>e. b = Inl e) \<and> silent u x \<or> (\<exists>y stamp. silent u y \<and> remove dir (cp_name row) stamp y = (b, x))"
      using x by (auto simp: io_runs)
        (meson silent_trans preservesD[OF quiet.kept_verify] preservesD[OF quiet.kept_cancel] preservesD[OF quiet.kept_check])+
    then have body: "(\<exists>e. b = Inl e) \<and> silent u x \<or> b = Inr () \<and> took_out (cp_name row) u x"
      using silent_trans silent_took[OF _ _ quiet.same] by (blast dest: remove_runs)
    have closing: "closes w \<Longrightarrow> closes x" using wu body by (auto simp: silent_def took_out_def)
    from body show ?thesis
    proof
      assume b: "(\<exists>e. b = Inl e) \<and> silent u x"
      then have "silent w v" using close close_runs silent_trans wu by blast
      then show ?thesis using b close by auto
    next
      assume b: "b = Inr () \<and> took_out (cp_name row) u x"
      then have "took_out (cp_name row) w v" using close close_runs silent_took[OF wu] by blast
      then show ?thesis using b close close_runs closing by blast
    qed
  qed
qed

text \<open>
  What a cleanup took out: the rows whose files were unlinked, each with whether it was counted. A
  file that was unlinked and then failed to close is counted among the skipped ones.
\<close>

type_synonym removal = "copy_row \<times> bool"

definition skips :: "world \<Rightarrow> nat" where
  "skips w = rp_skipped (wd_report w)"

definition uncounted :: "removal list \<Rightarrow> removal list" where
  "uncounted removed = filter (\<lambda>x. \<not> snd x) removed"

definition counted :: "removal list \<Rightarrow> world \<Rightarrow> world \<Rightarrow> bool" where
  "counted removed w v \<longleftrightarrow> wd_saved v = wd_saved w
     \<and> map fst (wd_unlinked v) = map fst (wd_unlinked w) @ map cp_name (map fst removed)
     \<and> rp_deleted (wd_report v) = rp_deleted (wd_report w) + length (filter snd removed)
     \<and> rp_deleted_bytes (wd_report v) = rp_deleted_bytes (wd_report w) + total_bytes (map fst (filter snd removed))
     \<and> skips w + length (uncounted removed) \<le> skips v
     \<and> (closes w \<longrightarrow> closes v \<and> (\<forall>x\<in>set removed. snd x))"

lemma counted_trans: "counted xs w v \<Longrightarrow> counted ys v u \<Longrightarrow> counted (xs @ ys) w u"
  by (auto simp: counted_def total_bytes_def uncounted_def)

lemma silent_counted: "silent w v \<Longrightarrow> counted [] w v"
  by (simp add: silent_def counted_def total_bytes_def uncounted_def skips_def)

lemma closes_simps [simp]:
  "closes (w\<lparr>wd_report := x\<rparr>) = closes w" "closes (w\<lparr>wd_catalog := c\<rparr>) = closes w" "closes (w\<lparr>wd_saved := y\<rparr>) = closes w"
  by (simp_all add: closes_def)

lemma write_copies_runs: "write_copies f w = (r, v) \<Longrightarrow> counted [] w v \<and> (r = Inr () \<or> r = Inl locked)
     \<and> skips v = skips w \<and> rp_state (wd_report v) = rp_state (wd_report w)"
  using tick_silent[of w]
  by (auto simp: write_copies_def then_runs observe_def silent_def counted_def total_bytes_def uncounted_def skips_def split: if_splits)

lemma not_locked: "\<not> expected_failure locked" "\<not> expected_failure Cancelled" "expected_failure OSError"
  by (simp_all add: expected_failure_def locked_def)

text \<open>One candidate: its file is unlinked and counted, or unlinked and skipped, or nothing is unlinked.\<close>

lemma delete_copy_runs:
  assumes "delete_copy pr k d retained row w = (r, v)"
  shows "\<exists>removed. counted removed w v \<and> removed \<in> {[], [(row, True)], [(row, False)]}"
proof -
  consider (gone) u where "delete_file pr d retained row w = (Inr (), u)"
      "io_then (io_report (\<lambda>r. r\<lparr>rp_deleted := rp_deleted r + 1, rp_deleted_bytes := rp_deleted_bytes r + cp_bytes row\<rparr>))
         (write_copies (filter (\<lambda>r. \<not> (cp_sequence r = cp_sequence row \<and> cp_scope r = k)))) u = (r, v)"
    | (raised) e where "delete_file pr d retained row w = (Inl e, v)" "\<not> expected_failure e"
    | (skipped) e u where "delete_file pr d retained row w = (Inl e, u)"
      "io_then (io_report (\<lambda>r. r\<lparr>rp_skipped := rp_skipped r + 1\<rparr>))
         (write_copies (map (\<lambda>r. if cp_sequence r = cp_sequence row
            then r\<lparr>cp_attempts := min (cp_attempts r + 1) 1000000\<rparr> else r))) u = (r, v)"
    using assms not_locked unfolding delete_copy_def catch_runs
    by (force simp: then_runs io_report_def dest: write_copies_runs)
  then show ?thesis
  proof cases
    case gone
    have "took_out (cp_name row) w u" using delete_file_runs[OF gone(1)] by auto
    then have "counted [(row, True)] w v"
      using gone(2) by (auto simp: then_runs io_report_def dest!: write_copies_runs)
        (auto simp: counted_def took_out_def total_bytes_def uncounted_def skips_def)
    then show ?thesis by blast
  next
    case raised
    then have "silent w v" using delete_file_runs[OF raised(1)] not_locked(3) by auto
    then show ?thesis using silent_counted by blast
  next
    case skipped
    have "silent w u \<or> took_out (cp_name row) w u \<and> \<not> closes w" using delete_file_runs[OF skipped(1)] by auto
    then have "counted [] w v \<or> counted [(row, False)] w v"
      using skipped(2) by (auto simp: then_runs io_report_def dest!: write_copies_runs)
        (auto simp: counted_def silent_def took_out_def total_bytes_def uncounted_def skips_def)
    then show ?thesis by blast
  qed
qed

lemma kept_state: "io_report (\<lambda>r. r\<lparr>rp_state := x\<rparr>) w = (r, v) \<Longrightarrow> counted [] w v \<and> r = Inr () \<and> skips v = skips w"
  by (auto simp: io_report_def counted_def total_bytes_def uncounted_def skips_def)

lemma quiet_check: "preserves silent (io_catch (io_then (check_retained d retained) (io_return True)) expected_failure (io_return False))"
  by (intro io_within quiet.kept_catch quiet.kept_then quiet.kept_check quiet.kept_return)

text \<open>The loop: the unlinked files are those of some of the candidates, each once, in order.\<close>

lemma delete_copies_runs:
  "delete_copies pr k d retained rows w = (r, v) \<Longrightarrow>
   \<exists>gone. counted gone w v \<and> subseq (map fst gone) rows"
proof (induction rows arbitrary: w)
  case Nil
  then show ?case by (auto simp: io_return_def counted_def total_bytes_def uncounted_def intro!: exI[of _ "[]"])
next
  case (Cons row rows)
  obtain c u where c: "io_cancel w = (c, u)" by fastforce
  have wu: "silent w u" using preservesD[OF quiet.kept_cancel c] .
  show ?case
  proof (cases c)
    case (Inl e)
    then have "v = u" using Cons.prems c by (auto simp: then_runs)
    then show ?thesis using silent_counted[OF wu] wu by (intro exI[of _ "[]"]) simp
  next
    case (Inr a)
    obtain i x where i: "io_catch (io_then (check_retained d retained) (io_return True)) expected_failure (io_return False) u = (i, x)"
      by fastforce
    have wx: "silent w x" using silent_trans[OF wu preservesD[OF quiet_check i]] .
    have rest: "(case i of Inl e \<Rightarrow> (Inl e, x) | Inr intact \<Rightarrow>
        (if intact then io_then (delete_copy pr k d retained row) (delete_copies pr k d retained rows)
         else io_report (\<lambda>r. r\<lparr>rp_state := Partial\<rparr>)) x) = (r, v)"
      using Cons.prems c i Inr by (auto simp: io_then_def io_bind_def split: sum.splits)
    consider (fails) e where "i = Inl e" "v = x" | (stops) "i = Inr False" "counted [] x v"
      | (copy) b y where "i = Inr True" "delete_copy pr k d retained row x = (b, y)"
          "b = Inr () \<and> delete_copies pr k d retained rows y = (r, v) \<or> v = y"
      using rest by (auto simp: then_runs io_report_def counted_def total_bytes_def uncounted_def skips_def split: sum.splits if_splits)
    then show ?thesis
    proof cases
      case fails
      then show ?thesis using silent_counted[OF wx] by (intro exI[of _ "[]"]) simp
    next
      case stops
      then show ?thesis using counted_trans[OF silent_counted[OF wx] stops(2)] by (intro exI[of _ "[]"]) simp
    next
      case copy
      obtain g where g: "counted g x y" "map fst g = [] \<or> map fst g = [row]" using delete_copy_runs[OF copy(2)] by fastforce
      have wy: "counted g w y" using counted_trans[OF silent_counted[OF wx] g(1)] by simp
      from copy(3) show ?thesis
      proof
        assume "b = Inr () \<and> delete_copies pr k d retained rows y = (r, v)"
        then obtain h where "counted h y v" "subseq (map fst h) rows" using Cons.IH by blast
        then show ?thesis using counted_trans[OF wy, of h v] g(2) by (intro exI[of _ "g @ h"]) auto
      next
        assume "v = y"
        then show ?thesis using wy g(2) by (intro exI[of _ g]) auto
      qed
    qed
  qed
qed

section \<open>The whole cleanup\<close>

text \<open>A run either fails before its report is begun, or it carries out a plan.\<close>

definition planning :: "primitives \<Rightarrow> (token_data \<Rightarrow> string) \<Rightarrow> lasts \<Rightarrow> bool \<Rightarrow> string \<Rightarrow> string \<Rightarrow> retention_policy
    \<Rightarrow> files \<Rightarrow> catalog \<Rightarrow> planned \<Rightarrow> bool" where
  "planning pr token ls opens workspace key p fs c x \<longleftrightarrow>
     plan_of pr token fs (if opens then Some c else None) ls workspace key p = Inr x"

lemma cleanup_runs:
  assumes "cleanup pr token ls opens workspace key p expected w = (r, v)"
  shows "(\<exists>e. r = Inl e \<and> silent w v) \<or>
    (\<exists>x u b. u = tick (tick w) \<and> silent w u \<and> planning pr token ls opens workspace key p (ou_files (wd_outside u)) (wd_catalog w) x
       \<and> (expected = None \<or> expected = Some (pl_token (fst x)))
       \<and> record_cleanup (pl_candidate_files (fst x)) (cleanup_body pr x)
            (u\<lparr>wd_report := fresh_report (pl_candidate_files (fst x))\<rparr>) = (b, v)
       \<and> r = (case b of Inl e \<Rightarrow> Inl e | Inr _ \<Rightarrow> Inr (wd_report v)))"
proof -
  obtain c y where c: "io_cancel w = (c, y)" by fastforce
  have y: "y = tick w" using c by (auto simp: io_cancel_def observe_def split: if_splits)
  have wy: "silent w y" using preservesD[OF quiet.kept_cancel c] .
  have wt: "silent w (tick y)" using silent_trans[OF wy tick_silent] .
  have cat: "(if opens then Some (wd_catalog y) else None) = (if opens then Some (wd_catalog w) else None)"
    using wy by (simp add: silent_def)
  show ?thesis
  proof (cases c)
    case (Inl e)
    then show ?thesis using assms c wy by (auto simp: cleanup_def then_runs)
  next
    case (Inr a)
    show ?thesis
    proof (cases "plan_of pr token (ou_files (wd_outside (tick y))) (if opens then Some (wd_catalog w) else None) ls workspace key p")
      case (Inl e)
      then show ?thesis using assms c \<open>c = Inr a\<close> cat wt by (auto simp: cleanup_def io_runs)
    next
      case (Inr x)
      show ?thesis
      proof (cases "expected \<noteq> None \<and> expected \<noteq> Some (pl_token (fst x))")
        case True
        then show ?thesis using assms c \<open>c = Inr a\<close> cat wt Inr by (auto simp: cleanup_def io_runs io_raise_def)
      next
        case False
        obtain b z where z: "record_cleanup (pl_candidate_files (fst x)) (cleanup_body pr x)
            ((tick y)\<lparr>wd_report := fresh_report (pl_candidate_files (fst x))\<rparr>) = (b, z)" by fastforce
        have "z = v \<and> r = (case b of Inl e \<Rightarrow> Inl e | Inr _ \<Rightarrow> Inr (wd_report v))"
          using assms c \<open>c = Inr a\<close> cat Inr False z
          by (auto simp: cleanup_def io_then_def io_bind_def io_report_def split: sum.splits if_splits)
        then show ?thesis using wt Inr False z y unfolding planning_def
          by (intro disjI2 exI[of _ x] exI[of _ "tick y"] exI[of _ b]) simp
      qed
    qed
  qed
qed

lemma quiet_body: "preserves silent (io_catch (io_bind (verify_all pr keep []) (\<lambda>r. io_return (Some r))) expected_failure (io_return None))"
  by (intro io_within quiet.kept_catch quiet.kept_bind quiet.kept_verify_all quiet.kept_return)

lemma kept_report: "io_report (\<lambda>r. r\<lparr>rp_remaining := f r, rp_state := g r\<rparr>) w = (r, v) \<Longrightarrow> counted [] w v"
  by (auto simp: io_report_def counted_def total_bytes_def uncounted_def skips_def)

lemma cleanup_steps_runs:
  assumes "cleanup_steps pr (pl, protected, candidates, scoped) w = (r, v)"
  shows "\<exists>gone. counted gone w v \<and> subseq (map fst gone) candidates \<and> (gone \<noteq> [] \<longrightarrow> pl_state pl = PlanReady \<and> keep_rows protected \<noteq> None)"
proof -
  have state: "counted [] w v" if "silent w u" "io_state x u = (r, v)" for u x
    using counted_trans[OF silent_counted[OF that(1)], of "[]" v] that(2) kept_state unfolding io_state_def by fastforce
  have none: ?thesis if "counted [] w v"
    using that by (intro exI[of _ "[]"]) simp
  show ?thesis
  proof (cases "pl_state pl \<noteq> PlanReady \<or> candidates = []")
    case True
    then show ?thesis using assms state[of w] by (intro none) (auto simp: cleanup_steps_def silent_def)
  next
    case False
    obtain d u where d: "observe (\<lambda>o'. folder_identity (ou_files o')) w = (d, u)" by fastforce
    have wu: "silent w u" using preservesD[OF quiet.kept_observe d] .
    show ?thesis
    proof (cases "(\<exists>e. d = Inl e) \<or> keep_rows protected = None")
      case True
      then have "counted [] w v"
        using assms False d state[OF wu] silent_counted[OF wu] by (cases d) (auto simp: cleanup_steps_def io_bind_def)
      then show ?thesis by (rule none)
    next
      case some: False
      then obtain d' keep where k: "d = Inr d'" "keep_rows protected = Some keep" by (cases d) auto
      obtain y x where x: "io_catch (io_bind (verify_all pr keep []) (\<lambda>r. io_return (Some r))) expected_failure (io_return None) u = (y, x)"
        by fastforce
      have wx: "silent w x" using silent_trans[OF wu preservesD[OF quiet_body x]] .
      have rest: "(case y of Inl e \<Rightarrow> (Inl e, x) | Inr None \<Rightarrow> io_state Blocked x
          | Inr (Some retained) \<Rightarrow> io_then (delete_copies pr (the scoped) d' retained candidates) (finish_cleanup (pl_candidate_files pl)) x) = (r, v)"
        using assms False d k x by (auto simp: cleanup_steps_def io_bind_def split: sum.splits option.splits)
      show ?thesis
      proof (cases "\<exists>retained. y = Inr (Some retained)")
        case False
        then have "counted [] w v"
          using rest state[OF wx] silent_counted[OF wx] by (auto split: sum.splits option.splits)
        then show ?thesis by (rule none)
      next
        case True
        then obtain retained b z where z: "delete_copies pr (the scoped) d' retained candidates x = (b, z)"
          and y: "y = Inr (Some retained)" by (metis surj_pair)
        obtain gone where gone: "counted gone x z" "subseq (map fst gone) candidates" using delete_copies_runs[OF z] by blast
        have "counted gone w z" using counted_trans[OF silent_counted[OF wx] gone(1)] by simp
        moreover have "v = z \<or> finish_cleanup (pl_candidate_files pl) z = (r, v)"
          using rest z y by (auto simp: io_then_def io_bind_def split: sum.splits)
        ultimately have "counted gone w v"
          using counted_trans[of gone w z "[]" v] kept_report unfolding finish_cleanup_def by fastforce
        then show ?thesis using gone(2) \<open>\<not> (pl_state pl \<noteq> PlanReady \<or> candidates = [])\<close> k by blast
      qed
    qed
  qed
qed

lemma cleanup_body_runs:
  assumes "cleanup_body pr (pl, protected, candidates, scoped) w = (r, v)"
  obtains b z where "cleanup_steps pr (pl, protected, candidates, scoped) w = (b, z)" "snd (io_release z) = v"
  using assms unfolding cleanup_body_def finally_runs by (metis snd_conv)

lemma cleanup_body_counts:
  assumes "cleanup_body pr (pl, protected, candidates, scoped) w = (r, v)"
  shows "\<exists>gone. counted gone w v \<and> subseq (map fst gone) candidates \<and> (gone \<noteq> [] \<longrightarrow> pl_state pl = PlanReady \<and> keep_rows protected \<noteq> None)"
proof -
  from assms obtain b z where z: "cleanup_steps pr (pl, protected, candidates, scoped) w = (b, z)" "snd (io_release z) = v"
    by (rule cleanup_body_runs)
  have "silent z v" using quiet.kept_release z(2) unfolding preserves_def by blast
  then show ?thesis using cleanup_steps_runs[OF z(1)] counted_trans[OF _ silent_counted] by (metis append_Nil2)
qed

lemma record_cleanup_runs:
  assumes "record_cleanup n m w = (r, v)" "m w = (b, z)"
  shows "wd_unlinked v = wd_unlinked z" "wd_catalog v = wd_catalog z" "wd_outside v = wd_outside (tick z)" "wd_future v = wd_future (tick z)"
    "rp_deleted (wd_report v) = rp_deleted (wd_report z)" "rp_deleted_bytes (wd_report v) = rp_deleted_bytes (wd_report z)"
    "skips v = skips z" "rp_remaining (wd_report v) = n - rp_deleted (wd_report v)"
    "wd_saved v = Some (wd_report v) \<or> wd_saved v = wd_saved z \<and> (\<exists>e. r = Inl e)"
proof -
  define shown where "shown = (case b of
             Inr _ \<Rightarrow> wd_report z
           | Inl e \<Rightarrow> if e = Cancelled then (wd_report z)\<lparr>rp_state := Stopped\<rparr>
             else if expected_failure e \<or> e = locked
                     then (wd_report z)\<lparr>rp_state := (if rp_deleted (wd_report z) > 0 then Partial else Blocked)\<rparr>
                     else wd_report z)"
  have shown: "rp_deleted shown = rp_deleted (wd_report z)" "rp_deleted_bytes shown = rp_deleted_bytes (wd_report z)"
      "rp_skipped shown = rp_skipped (wd_report z)"
    unfolding shown_def by (cases b; simp)+
  define final where "final = shown\<lparr>rp_remaining := n - rp_deleted shown\<rparr>"
  have final: "rp_deleted final = rp_deleted (wd_report z)" "rp_deleted_bytes final = rp_deleted_bytes (wd_report z)"
      "rp_skipped final = rp_skipped (wd_report z)" "rp_remaining final = n - rp_deleted final"
    by (simp_all add: final_def shown)
  have run: "(case ou_save (wd_outside (tick z)) of
        None \<Rightarrow> (case b of Inl e \<Rightarrow> Inl (if e = locked then problem else e) | Inr a \<Rightarrow> Inr a,
                 (tick z)\<lparr>wd_report := final, wd_saved := Some final\<rparr>)
      | Some (e, replaced) \<Rightarrow> (Inl e, if replaced then (tick z)\<lparr>wd_report := final, wd_saved := Some final\<rparr>
                 else (tick z)\<lparr>wd_report := final\<rparr>)) = (r, v)"
    using assms unfolding final_def shown_def record_cleanup_def by (simp add: Let_def)
  then have v: "v = (tick z)\<lparr>wd_report := final, wd_saved := Some final\<rparr> \<or>
      v = (tick z)\<lparr>wd_report := final\<rparr> \<and> (\<exists>e. r = Inl e)"
    by (auto split: option.splits prod.splits if_splits)
  have t: "wd_unlinked (tick z) = wd_unlinked z" "wd_catalog (tick z) = wd_catalog z" "wd_saved (tick z) = wd_saved z"
    using tick_silent[of z] by (simp_all add: silent_def)
  show "wd_unlinked v = wd_unlinked z" "wd_catalog v = wd_catalog z" "wd_outside v = wd_outside (tick z)" "wd_future v = wd_future (tick z)"
    "rp_deleted (wd_report v) = rp_deleted (wd_report z)" "rp_deleted_bytes (wd_report v) = rp_deleted_bytes (wd_report z)"
    "skips v = skips z" "rp_remaining (wd_report v) = n - rp_deleted (wd_report v)"
    using v t final by (auto simp: skips_def)
  show "wd_saved v = Some (wd_report v) \<or> wd_saved v = wd_saved z \<and> (\<exists>e. r = Inl e)"
    using v t by auto
qed

text \<open>What a report tells, of \<open>n\<close> candidates, and whether it was saved and returned.\<close>

definition reported :: "nat \<Rightarrow> removal list \<Rightarrow> world \<Rightarrow> report res \<Rightarrow> world \<Rightarrow> report \<Rightarrow> bool" where
  "reported n removed w r v rep \<longleftrightarrow>
     (wd_saved v = Some rep \<or> wd_saved v = wd_saved w \<and> (\<exists>e. r = Inl e)) \<and> (\<forall>q. r = Inr q \<longrightarrow> q = rep)
   \<and> rp_deleted rep = length (filter snd removed) \<and> rp_deleted_bytes rep = total_bytes (map fst (filter snd removed))
   \<and> length (uncounted removed) \<le> rp_skipped rep \<and> (closes w \<longrightarrow> (\<forall>x\<in>set removed. snd x))
   \<and> rp_remaining rep = n - rp_deleted rep"

text \<open>So a cleanup unlinks the files of some candidates of the plan, and what it saves or returns tells them.\<close>

lemma cleanup_unlinks:
  assumes "cleanup pr token ls opens workspace key p expected w = (r, v)"
  shows "(\<exists>e. r = Inl e \<and> silent w v) \<or>
    (\<exists>pl protected candidates scoped fs removed rep.
       planning pr token ls opens workspace key p fs (wd_catalog w) (pl, protected, candidates, scoped)
       \<and> (expected = None \<or> expected = Some (pl_token pl))
       \<and> map fst (wd_unlinked v) = map fst (wd_unlinked w) @ map cp_name (map fst removed) \<and> subseq (map fst removed) candidates
       \<and> (removed \<noteq> [] \<longrightarrow> pl_state pl = PlanReady \<and> keep_rows protected \<noteq> None)
       \<and> reported (pl_candidate_files pl) removed w r v rep)"
proof (cases "\<exists>e. r = Inl e \<and> silent w v")
  case False
  then obtain pl protected candidates scoped u b where u: "silent w u"
      "planning pr token ls opens workspace key p (ou_files (wd_outside u)) (wd_catalog w) (pl, protected, candidates, scoped)"
      "expected = None \<or> expected = Some (pl_token pl)"
      "record_cleanup (pl_candidate_files pl) (cleanup_body pr (pl, protected, candidates, scoped))
         (u\<lparr>wd_report := fresh_report (pl_candidate_files pl)\<rparr>) = (b, v)"
      "r = (case b of Inl e \<Rightarrow> Inl e | Inr _ \<Rightarrow> Inr (wd_report v))"
    using cleanup_runs[OF assms] by (metis fst_conv prod_cases4)
  let ?u = "u\<lparr>wd_report := fresh_report (pl_candidate_files pl)\<rparr>"
  obtain c z where z: "cleanup_body pr (pl, protected, candidates, scoped) ?u = (c, z)"
    by fastforce
  obtain gone where gone: "counted gone ?u z" "subseq (map fst gone) candidates"
      "gone \<noteq> [] \<longrightarrow> pl_state pl = PlanReady \<and> keep_rows protected \<noteq> None"
    using cleanup_body_counts[OF z] by blast
  note rec = record_cleanup_runs[OF u(4) z]
  have "rp_deleted (wd_report z) = length (filter snd gone)" "rp_deleted_bytes (wd_report z) = total_bytes (map fst (filter snd gone))"
      "map fst (wd_unlinked z) = map fst (wd_unlinked w) @ map cp_name (map fst gone)" "length (uncounted gone) \<le> skips z"
      "closes w \<longrightarrow> (\<forall>x\<in>set gone. snd x)" "wd_saved z = wd_saved w"
    using gone(1) u(1) by (auto simp: counted_def fresh_report_def silent_def skips_def)
  moreover have "wd_saved v = Some (wd_report v) \<or> wd_saved v = wd_saved z \<and> (\<exists>e. r = Inl e)"
    using rec(9) u(5) by (auto split: sum.splits)
  ultimately show ?thesis using rec u(2,3,5) gone(2,3)
    by (intro disjI2 exI[of _ pl] exI[of _ protected] exI[of _ candidates] exI[of _ scoped]
      exI[of _ "ou_files (wd_outside u)"] exI[of _ gone] exI[of _ "wd_report v"]) (auto simp: reported_def skips_def split: sum.splits)
qed simp

end
