(* ===== verification/Backup_Recovery.thy ===== *)
theory Backup_Recovery
  imports Backup_Properties
begin

text \<open>
  Which copies a plan offers for removal, stated without sorting or truncating lists, and the two
  recovery points that stand after every cleanup that removes anything.
\<close>

section \<open>The inventory stays well formed\<close>

definition catalog_ok :: "catalog \<Rightarrow> bool" where
  "catalog_ok c \<longleftrightarrow> distinct (map cp_sequence (ct_copies c)) \<and> distinct (map (\<lambda>r. (cp_scope r, cp_name r)) (ct_copies c))
     \<and> (\<forall>r\<in>set (ct_copies c). cp_sequence r \<le> ct_last c)"

lemma register_copy_ok: "stays (keeps catalog_ok) (register_copy k values)"
  by (rule staysI) (fastforce simp: register_copy_def catalog_ok_def find_None_iff split: option.splits if_splits prod.splits)

lemma scope_ok: "stays (keeps catalog_ok) (scope pr fs workspace create)"
  by (rule staysI) (auto simp: scope_def catalog_ok_def Let_def split: sum.splits option.splits if_splits)

lemma register_ok: "stays (keeps catalog_ok) (register pr fs r)"
  unfolding register_def
  by (intro tx_within kept_invariant.kept_bind kept_invariant.kept_each kept_invariant.kept_return scope_ok register_copy_ok)

section \<open>Newest copies\<close>

definition newer :: "copy_row list \<Rightarrow> copy_row \<Rightarrow> nat" where
  "newer rows r = length (filter (\<lambda>x. cp_kind x = cp_kind r \<and> cp_sequence r < cp_sequence x) rows)"

lemma position_counts:
  assumes "sorted_wrt (\<lambda>x y. f y < (f x :: nat)) ys" "i < length ys"
  shows "length (filter (\<lambda>x. f (ys ! i) < f x) ys) = i"
proof -
  have "filter (\<lambda>x. f (ys ! i) < f x) (take i ys) = take i ys"
    using assms by (auto simp: filter_id_conv in_set_conv_nth sorted_wrt_iff_nth_less)
  moreover have "\<not> f (ys ! i) < f x" if member: "x \<in> set (drop i ys)" for x
  proof -
    obtain j where "j < length (drop i ys)" "drop i ys ! j = x" using member unfolding in_set_conv_nth by blast
    then have j: "x = ys ! (i + j)" "i + j < length ys" using assms(2) by simp_all
    show ?thesis using sorted_wrt_nth_less[OF assms(1), of i "i + j"] j by (cases "j = 0") simp_all
  qed
  then have "filter (\<lambda>x. f (ys ! i) < f x) (drop i ys) = []" by (simp add: filter_empty_conv)
  ultimately show ?thesis
    using assms(2) filter_append[of "\<lambda>x. f (ys ! i) < f x" "take i ys" "drop i ys"] by simp
qed

lemma newest_copies_sorted:
  assumes "distinct (map cp_sequence rows)"
  shows "sorted_wrt (\<lambda>x y. cp_sequence y < cp_sequence x) (newest_copies rows)"
proof -
  have "distinct (map cp_sequence (sort_key cp_sequence rows))" using assms by (simp add: distinct_map)
  then have "sorted_wrt (<) (map cp_sequence (sort_key cp_sequence rows))"
    by (simp add: strict_sorted_iff)
  then show ?thesis by (simp add: newest_copies_def sorted_wrt_rev sorted_wrt_map)
qed

lemma newest_iff:
  assumes "distinct (map cp_sequence rows)"
  shows "r \<in> set (newest_of kind n rows) \<longleftrightarrow> r \<in> set rows \<and> cp_kind r = kind \<and> newer rows r < n"
proof -
  define xs where "xs = filter (\<lambda>r. cp_kind r = kind) rows"
  define ys where "ys = newest_copies xs"
  have sorted: "sorted_wrt (\<lambda>x y. cp_sequence y < cp_sequence x) ys"
    using assms unfolding ys_def xs_def by (intro newest_copies_sorted) (simp add: distinct_map_filter)
  have count: "newer rows r = length (filter (\<lambda>x. cp_sequence r < cp_sequence x) ys)" if "cp_kind r = kind" for r
    using that by (simp add: newer_def ys_def xs_def newest_copies_def filter_sort filter_filter conj_commute flip: rev_filter)
  have "r \<in> set (take n ys) \<longleftrightarrow> r \<in> set ys \<and> newer rows r < n" if "cp_kind r = kind"
  proof
    assume "r \<in> set (take n ys)"
    then obtain i where "i < n" "i < length ys" "r = ys ! i" by (auto simp: in_set_conv_nth)
    then show "r \<in> set ys \<and> newer rows r < n" using position_counts[OF sorted] count[OF that] by simp
  next
    assume "r \<in> set ys \<and> newer rows r < n"
    then obtain i where "i < length ys" "r = ys ! i" "newer rows r < n" by (auto simp: in_set_conv_nth)
    then show "r \<in> set (take n ys)" using position_counts[OF sorted] count[OF that] by (auto simp: in_set_conv_nth)
  qed
  moreover have "set ys = set xs" by (simp add: ys_def newest_copies_def)
  ultimately show ?thesis
    unfolding newest_of_def xs_def[symmetric] ys_def[symmetric] by (auto simp: xs_def dest: in_set_takeD)
qed

section \<open>What a plan protects\<close>

definition limit :: "retention_policy \<Rightarrow> copy_kind \<Rightarrow> nat" where
  "limit p kind = (case kind of Snapshot \<Rightarrow> rp_snapshots p | Ledger \<Rightarrow> rp_ledgers p)"

text \<open>A copy may go only if enough newer ones of its kind exist, and a ledger only if its snapshot may go.\<close>

definition expendable :: "retention_policy \<Rightarrow> copy_row list \<Rightarrow> copy_row \<Rightarrow> bool" where
  "expendable p rows r \<longleftrightarrow> limit p (cp_kind r) \<le> newer rows r
     \<and> (cp_kind r = Ledger \<longrightarrow> (\<forall>s\<in>set rows. cp_kind s = Snapshot \<and> cp_operation s = cp_operation r \<longrightarrow> rp_snapshots p \<le> newer rows s))"

lemma protected_iff:
  assumes "distinct (map cp_sequence rows)" "r \<in> set rows" "cp_sequence r \<notin> set (protected_sequences p named rows)"
  shows "expendable p rows r"
proof -
  have kinds: "newest_of (cp_kind r) (limit p (cp_kind r)) rows = newest_of Snapshot (rp_snapshots p) rows
      \<or> newest_of (cp_kind r) (limit p (cp_kind r)) rows = newest_of Ledger (rp_ledgers p) rows"
    by (cases "cp_kind r") (simp_all add: limit_def)
  have "r \<notin> set (newest_of (cp_kind r) (limit p (cp_kind r)) rows)"
    using assms(3) kinds by (auto simp: protected_sequences_def Let_def)
  then have "limit p (cp_kind r) \<le> newer rows r" using assms(1,2) by (simp add: newest_iff)
  moreover have "rp_snapshots p \<le> newer rows s"
    if "cp_kind r = Ledger" "s \<in> set rows" "cp_kind s = Snapshot" "cp_operation s = cp_operation r" for s
  proof (rule ccontr)
    assume "\<not> rp_snapshots p \<le> newer rows s"
    then have "s \<in> set (newest_of Snapshot (rp_snapshots p) rows)" using that assms(1) by (simp add: newest_iff)
    then have "cp_operation r \<in> cp_operation ` set (newest_of Snapshot (rp_snapshots p) rows)"
      using that(4) by (metis imageI)
    then show False using assms(2,3) that(1) by (simp add: protected_sequences_def Let_def)
  qed
  ultimately show ?thesis by (simp add: expendable_def)
qed

lemma planning_ready:
  assumes "planning pr token ls opens workspace key p fs c (pl, protected, candidates, scoped)" "candidates \<noteq> []"
  obtains d named k where "opens" "rp_mode p = Limited" "fs_at fs = Directory d" "k = scope_id pr workspace (fs_path fs) d"
    "scoped = Some k" "pl_token pl = token (TrackedPlan p k d key protected candidates (pl_candidate_files pl) (pl_snapshots pl) (pl_ledgers pl))"
    "candidates = batch_of (removable p named (own k key (ct_copies c)))"
    "protected = newest_copies (filter (\<lambda>r. cp_sequence r \<in> set (protected_sequences p named (own k key (ct_copies c)))) (own k key (ct_copies c)))"
    "pl_candidate_files pl = length (removable p named (own k key (ct_copies c)))"
    "pl_state pl = (if length (filter (\<lambda>r. cp_kind r = Snapshot) (own k key (ct_copies c))) < 2 then InsufficientRecovery else PlanReady)"
proof -
  obtain k where k: "plan_scope pr fs (if opens then Some c else None) workspace = Inr (Some k)"
    using assms by (cases "plan_scope pr fs (if opens then Some c else None) workspace")
      (auto simp: planning_def plan_of_def Let_def split: option.splits)
  then have opens: opens by (auto simp: plan_scope_def split: if_splits)
  obtain d where d: "fs_at fs = Directory d" "k = scope_id pr workspace (fs_path fs) d"
    using k opens by (cases "fs_at fs") (simp_all add: plan_scope_def scope_def folder_identity_def Let_def
        split: if_splits option.splits)
  obtain named where t: "tracked_plan pr token fs (ct_copies c) k workspace key p d named = Inr (pl, protected, candidates, scoped)"
    using assms(1) k opens d(1) by (auto simp: planning_def plan_of_def folder_identity_def split: sum.splits)
  have l: "rp_mode p = Limited"
    using t assms(2) by (auto simp: tracked_plan_def Let_def removable_def batch_of_def split: sum.splits if_splits)
  show thesis
    by (rule that[of d k named]) (use t l opens d in \<open>auto simp: tracked_plan_def Let_def base_plan_def split: sum.splits if_splits\<close>)
qed

lemma batch_subset: "set (batch_of rows) \<subseteq> set rows" "length (batch_of rows) \<le> BATCH_LIMIT"
  by (auto simp: batch_of_def dest: in_set_takeD)

lemma candidate_expendable:
  assumes "catalog_ok c" "r \<in> set (batch_of (removable p named (own k key (ct_copies c))))"
  shows "r \<in> set (ct_copies c) \<and> cp_scope r = k \<and> cp_key r = key \<and> expendable p (own k key (ct_copies c)) r"
proof -
  have r: "r \<in> set (own k key (ct_copies c))" "cp_sequence r \<notin> set (protected_sequences p named (own k key (ct_copies c)))"
    using subsetD[OF batch_subset(1) assms(2)] by (auto simp: removable_def split: if_splits)
  have "distinct (map cp_sequence (own k key (ct_copies c)))"
    using assms(1) by (simp add: catalog_ok_def own_def distinct_map_filter)
  then show ?thesis using protected_iff[OF _ r] r(1) by (simp add: own_def)
qed

section \<open>What others leave alone\<close>

text \<open>The names of the set lead to the same unchanged files.\<close>

definition agree :: "string set \<Rightarrow> files \<Rightarrow> files \<Rightarrow> bool" where
  "agree N a b \<longleftrightarrow> fs_path b = fs_path a \<and> fs_at b = fs_at a \<and> (\<forall>name\<in>N. fs_refused b name = fs_refused a name)
     \<and> (\<forall>d name ino. fs_at a = Directory d \<longrightarrow> name \<in> N \<longrightarrow> fs_dirs b d name = fs_dirs a d name
          \<and> (fs_dirs a d name = Some ino \<longrightarrow> fs_inodes b ino = fs_inodes a ino))"

definition calm :: "string set \<Rightarrow> (outside \<Rightarrow> outside) \<Rightarrow> bool" where
  "calm N f \<longleftrightarrow> (\<forall>o'. agree N (ou_files o') (ou_files (f o')))"

definition world_files :: "world \<Rightarrow> files" where
  "world_files w = ou_files (wd_outside w)"

definition stands :: "string set \<Rightarrow> world \<Rightarrow> world \<Rightarrow> bool" where
  "stands N w v \<longleftrightarrow> ((\<forall>f\<in>set (wd_future w). calm N f) \<longrightarrow>
     (\<forall>f\<in>set (wd_future v). calm N f) \<and> agree N (world_files w) (world_files v))"

lemma agree_refl: "agree N a a"
  by (simp add: agree_def)

lemma agree_trans: "agree N a b \<Longrightarrow> agree N b c \<Longrightarrow> agree N a c"
  unfolding agree_def by (metis option.inject)

interpretation standing: world_relation "stands N" for N
proof
  show "stands N w w" for w by (simp add: stands_def agree_refl)
  show "stands N w u" if "stands N w v" "stands N v u" for w v u
    using that agree_trans unfolding stands_def by blast
  show "stands N w (tick w)" for w
    by (cases "wd_future w") (auto simp: stands_def tick_def calm_def world_files_def agree_refl)
  show "stands N w (w\<lparr>wd_held := n\<rparr>)" for w n
    by (simp add: stands_def world_files_def agree_refl)
qed

lemma stands_same: "wd_outside v = wd_outside w \<Longrightarrow> wd_future v = wd_future w \<Longrightarrow> stands N w v"
  by (simp add: stands_def world_files_def agree_refl)

lemma stands_report: "preserves (stands N) (io_report f)"
  by (auto simp: preserves_def io_report_def intro: stands_same)

lemma stands_write: "preserves (stands N) (write_copies f)"
  unfolding write_copies_def
  by (intro standing.kept_then standing.kept_observe) (auto simp: preserves_def intro: stands_same)

lemma stands_unlink:
  assumes "name \<notin> N"
  shows "preserves (stands N) (unlink d name)"
proof -
  have "stands N (tick w) (snd (unlink d name w))" for w
    using assms by (auto simp: unlink_def Let_def stands_def world_files_def agree_def unlink_in_def split: sum.splits)
  then show ?thesis using standing.chain[OF standing.ticking] by (auto simp: preserves_def)
qed

lemma stands_delete:
  assumes "cp_name row \<notin> N"
  shows "preserves (stands N) (delete_copy pr k d retained row)"
  unfolding delete_copy_def delete_file_def remove_def
  by (intro io_within standing.kept_catch standing.kept_finally standing.kept_close standing.kept_then standing.kept_bind standing.kept_opened standing.kept_verify
      standing.kept_cancel standing.kept_check standing.kept_observe standing.kept_raise stands_report stands_write stands_unlink assms)

lemma stands_deletes:
  "cp_name ` set rows \<inter> N = {} \<Longrightarrow> preserves (stands N) (delete_copies pr k d retained rows)"
  by (induction rows) (auto intro!: io_within standing.kept_catch standing.kept_then standing.kept_bind standing.kept_return
      standing.kept_cancel standing.kept_check stands_report stands_delete)

lemma stands_steps:
  assumes "cp_name ` set candidates \<inter> N = {}"
  shows "preserves (stands N) (cleanup_steps pr (pl, protected, candidates, scoped))"
  unfolding cleanup_steps_def io_state_def finish_cleanup_def split
  by (intro io_within standing.kept_catch standing.kept_then standing.kept_bind standing.kept_return
      standing.kept_verify_all standing.kept_observe stands_report stands_deletes assms)

section \<open>Verified files\<close>

text \<open>The name leads to a file with the recorded size and digest.\<close>

definition intact :: "primitives \<Rightarrow> files \<Rightarrow> copy_row \<Rightarrow> bool" where
  "intact pr fs row \<longleftrightarrow> (case stat_path (cp_name row) fs of
       Inl _ \<Rightarrow> False
     | Inr (_, ino, n, _) \<Rightarrow> n = cp_bytes row \<and> pr_sha pr (in_content (fs_inodes fs ino)) = cp_sha row)"

lemma intact_agree:
  assumes "intact pr a row" "agree N a b" "cp_name row \<in> N"
  shows "intact pr b row"
proof -
  obtain d where d: "fs_at a = Directory d" using assms(1) by (cases "fs_at a") (simp_all add: intact_def stat_path_def)
  then obtain ino where i: "fs_dirs a d (cp_name row) = Some ino" "\<not> fs_refused a (cp_name row)"
    using assms(1) by (auto simp: intact_def stat_path_def stat_in_def entry_in_def split: if_splits option.splits)
  then have "fs_at b = Directory d" "fs_dirs b d (cp_name row) = Some ino" "\<not> fs_refused b (cp_name row)" "fs_inodes b ino = fs_inodes a ino"
    using assms(2,3) d by (auto simp: agree_def)
  then show ?thesis using assms(1) d i
    by (auto simp: intact_def stat_path_def stat_in_def entry_in_def file_identity_def split: if_splits)
qed

end
