(* ===== verification/Backup_Theorems.thy ===== *)
theory Backup_Theorems
  imports Backup_Recovery
begin

text \<open>The properties of cleanup, with their witnesses on a small folder.\<close>

section \<open>A verified file is the recorded one\<close>

text \<open>A name of the set leads to this inode, and others leave it so.\<close>

definition pinned :: "string set \<Rightarrow> folder_id \<Rightarrow> string \<Rightarrow> nat \<Rightarrow> inode \<Rightarrow> world \<Rightarrow> bool" where
  "pinned N d name ino x w \<longleftrightarrow> name \<in> N \<and> (\<forall>f\<in>set (wd_future w). calm N f) \<and> fs_at (world_files w) = Directory d
     \<and> \<not> fs_refused (world_files w) name \<and> fs_dirs (world_files w) d name = Some ino \<and> fs_inodes (world_files w) ino = x"

lemma pinned_stands: "pinned N d name ino x w \<Longrightarrow> stands N w v \<Longrightarrow> pinned N d name ino x v"
  by (auto simp: pinned_def stands_def agree_def)

lemma pinned_tick: "pinned N d name ino x w \<Longrightarrow> pinned N d name ino x (tick w)"
  by (rule pinned_stands[OF _ standing.ticking])

lemma read_pinned:
  "read_blocks ino got w = (Inr content, v) \<Longrightarrow> pinned N d name ino x w \<Longrightarrow> got = take (length got) (in_content x)
     \<Longrightarrow> content = in_content x"
proof (induction ino got w rule: read_blocks.induct)
  case (1 ino got w)
  let ?u = "tick (tick w)"
  have u: "pinned N d name ino x ?u" using 1(3) by (intro pinned_tick)
  then have c: "content_at ino ?u = in_content x" by (simp add: pinned_def content_at_def world_files_def)
  have go: "\<not> ou_cancelled (wd_outside (tick w))"
    using 1(2) by (auto simp: read_blocks.simps[of ino got w] Let_def)
  show ?case
  proof (cases "take CHUNK_BYTES (drop (length got) (in_content x)) = []")
    case True
    then have "content = got" using 1(2) go c by (simp add: read_blocks.simps[of ino got w] Let_def)
    then show ?thesis using True 1(4) by (simp add: CHUNK_BYTES_def)
  next
    case False
    have "got @ take CHUNK_BYTES (drop (length got) (in_content x)) = take (length got + CHUNK_BYTES) (in_content x)"
      using 1(4) by (metis take_add)
    then have "got @ take CHUNK_BYTES (drop (length got) (in_content x))
        = take (length (got @ take CHUNK_BYTES (drop (length got) (in_content x)))) (in_content x)"
      by (metis length_take min.commute take_all_iff take_take nle_le)
    moreover have "read_blocks ino (got @ take CHUNK_BYTES (drop (length got) (in_content x))) ?u = (Inr content, v)"
      using 1(2) go c False by (simp add: read_blocks.simps[of ino got w] Let_def)
    ultimately show ?thesis using 1(1)[OF refl go refl refl, unfolded c, OF False _ u] by blast
  qed
qed

lemma verify_file_intact:
  assumes "verify_file pr ino row w = (Inr stamp, v)" "pinned N d (cp_name row) ino x w"
  shows "intact pr (world_files v) row"
proof -
  obtain a b content where before: "fstat ino w = (Inr stamp, a)" and size: "fst (snd (snd stamp)) = cp_bytes row"
    and read: "read_blocks ino [] a = (Inr content, b)" and sha: "pr_sha pr content = cp_sha row"
    using assms(1) by (auto simp: verify_file_def bind_runs io_raise_def io_return_def split: if_splits)
  have a: "a = tick w" "file_identity ino (fs_inodes (ou_files (wd_outside a)) ino) = Inr stamp"
    using before by (auto simp: fstat_def observe_def)
  have pa: "pinned N d (cp_name row) ino x a" using assms(2) a(1) by (simp add: pinned_tick)
  have "content = in_content x" using read_pinned[OF read pa] by simp
  moreover have "file_identity ino x = Inr stamp" using a(2) pa by (simp add: pinned_def world_files_def)
  moreover have "pinned N d (cp_name row) ino x v"
    using pinned_stands[OF assms(2) preservesD[OF standing.kept_verify assms(1)]] .
  ultimately show ?thesis using size sha
    by (auto simp: intact_def stat_path_def stat_in_def entry_in_def pinned_def file_identity_def split: if_splits)
qed

lemma opened_pinned:
  assumes "opened name w = (Inr (d, ino), v)" "name \<in> N" "\<forall>f\<in>set (wd_future w). calm N f"
  shows "pinned N d name ino (fs_inodes (world_files v) ino) v"
proof -
  obtain a where a: "a = tick w" "fs_at (world_files a) = Directory d" "v = tick a" "entry_in d name (world_files v) = Inr ino"
    using assms(1) by (auto simp: opened_def bind_runs observe_def io_raise_def io_return_def world_files_def
        split: if_splits folder_stat.splits)
  have "stands N w a" "stands N w v" using a(1,3) standing.ticking standing.chain by blast+
  moreover have "stands N a v" using a(3) standing.ticking by simp
  ultimately show ?thesis using a(2,4) assms(2,3)
    by (auto simp: pinned_def stands_def agree_def entry_in_def split: if_splits option.splits)
qed

lemma verify_all_intact:
  "verify_all pr rows got w = (Inr retained, v) \<Longrightarrow> cp_name ` set rows \<subseteq> N \<Longrightarrow> \<forall>f\<in>set (wd_future w). calm N f
     \<Longrightarrow> \<forall>row\<in>set rows. intact pr (world_files v) row"
proof (induction rows arbitrary: got w)
  case (Cons row rows)
  obtain d ino a0 a stamp b where o': "opened (cp_name row) w = (Inr (d, ino), a0)" and a: "a = a0\<lparr>wd_held := wd_held a0 + 1\<rparr>"
    and f: "verify_file pr ino row a = (Inr stamp, b)" and rest: "verify_all pr rows (got @ [(cp_name row, stamp)]) b = (Inr retained, v)"
    using Cons.prems(1) by (auto simp: bind_runs then_runs io_hold_def split: prod.splits)
  have held: "stands N a0 a" unfolding a by (rule standing.holding)
  have b: "intact pr (world_files b) row"
    using verify_file_intact[OF f pinned_stands[OF opened_pinned[OF o', of N] held]] Cons.prems(2,3) by simp
  have wb: "stands N w b"
    using standing.chain[OF standing.chain[OF preservesD[OF standing.kept_opened o'] held] preservesD[OF standing.kept_verify f]] .
  have bv: "stands N b v" using preservesD[OF standing.kept_verify_all rest] .
  have "intact pr (world_files v) row"
    using intact_agree[OF b] wb bv Cons.prems(2,3) by (auto simp: stands_def)
  then show ?case using Cons.IH[OF rest] Cons.prems(2,3) wb by (auto simp: stands_def)
qed simp

section \<open>Recovery points\<close>

text \<open>The two newest snapshots, the newest ledger, and the ledgers captured with those snapshots.\<close>

definition recovery_copy :: "copy_row list \<Rightarrow> copy_row \<Rightarrow> bool" where
  "recovery_copy rows r \<longleftrightarrow> (case cp_kind r of
       Snapshot \<Rightarrow> newer rows r < 2
     | Ledger \<Rightarrow> newer rows r < 1 \<or> (\<exists>s\<in>set rows. cp_kind s = Snapshot \<and> newer rows s < 2 \<and> cp_operation s = cp_operation r))"

lemma expendable_not_recovery: "policy_ok p \<Longrightarrow> expendable p rows r \<Longrightarrow> \<not> recovery_copy rows r"
  by (cases "cp_kind r") (fastforce simp: expendable_def recovery_copy_def limit_def policy_ok_def)+

lemma take_filter_all: "(\<forall>x\<in>set (take n xs). P x) \<Longrightarrow> take n (filter P xs) = take n xs"
proof (induction xs arbitrary: n)
  case (Cons x xs)
  then show ?case by (cases n) auto
qed simp

lemma find_take: "List.find P xs = (case take 1 (filter P xs) of [] \<Rightarrow> None | x # _ \<Rightarrow> Some x)"
  by (induction xs) auto

text \<open>The newest copies of a kind are the first of that kind among the protected ones.\<close>

lemma protected_newest:
  assumes "n \<le> limit p kind"
  shows "take n (filter (\<lambda>r. cp_kind r = kind) (newest_copies (filter (\<lambda>r. cp_sequence r \<in> set (protected_sequences p named rows)) rows)))
    = newest_of kind n rows"
proof -
  let ?P = "\<lambda>r. cp_sequence r \<in> set (protected_sequences p named rows)"
  have swap: "filter (\<lambda>r. cp_kind r = kind) (newest_copies (filter ?P rows)) = filter ?P (newest_copies (filter (\<lambda>r. cp_kind r = kind) rows))"
    by (simp add: newest_copies_def filter_sort filter_filter conj_commute flip: rev_filter)
  have "set (newest_of kind n rows) \<subseteq> set (newest_of kind (limit p kind) rows)"
    unfolding newest_of_def by (rule set_take_subset_set_take[OF assms])
  then have "\<forall>r\<in>set (newest_of kind n rows). ?P r"
    by (cases kind) (auto simp: limit_def protected_sequences_def Let_def)
  then show ?thesis unfolding swap newest_of_def by (rule take_filter_all)
qed


lemma add_row_set:
  assumes "distinct (map cp_sequence rows)" "set keep \<subseteq> set rows" "r \<in> set rows"
  shows "set (add_row r keep) = insert r (set keep)"
  using assms by (auto simp: add_row_def distinct_map inj_on_def)

lemma partners_sound:
  assumes "distinct (map cp_sequence rows)" "set protected \<subseteq> set rows"
  shows "partners protected ss keep = Some out \<Longrightarrow> set keep \<subseteq> set rows \<Longrightarrow>
    set keep \<subseteq> set out \<and> set out \<subseteq> set rows \<and> (\<forall>s\<in>set ss. \<exists>l\<in>set out. cp_kind l = Ledger \<and> cp_operation l = cp_operation s)
    \<and> (\<forall>l\<in>set out. l \<in> set keep \<or> cp_kind l = Ledger \<and> (\<exists>s\<in>set ss. cp_operation s = cp_operation l))"
proof (induction ss arbitrary: keep)
  case (Cons s ss)
  obtain l where l: "List.find (\<lambda>r. cp_kind r = Ledger \<and> cp_operation r = cp_operation s) protected = Some l"
    using Cons.prems(1) by (auto split: option.splits)
  then have l': "l \<in> set protected" "cp_kind l = Ledger" "cp_operation l = cp_operation s"
    by (auto simp: find_Some_iff)
  have "l \<in> set rows" using l'(1) assms(2) by blast
  from add_row_set[OF assms(1) Cons.prems(2) this] have a: "set (add_row l keep) = insert l (set keep)" .
  have "partners protected ss (add_row l keep) = Some out" using Cons.prems(1) l by simp
  then show ?case using Cons.IH[of "add_row l keep"] a Cons.prems(2) l' \<open>l \<in> set rows\<close> by (auto; metis)
qed simp

lemma keep_rows_sound:
  assumes "keep_rows (newest_copies (filter (\<lambda>r. cp_sequence r \<in> set (protected_sequences p named rows)) rows)) = Some keep"
    and rows: "distinct (map cp_sequence rows)" and p: "policy_ok p"
  shows "set keep \<subseteq> {r \<in> set rows. recovery_copy rows r}"
    and "\<exists>s t l. s \<in> set keep \<and> t \<in> set keep \<and> l \<in> set keep \<and> s \<noteq> t \<and> cp_kind s = Snapshot \<and> newer rows s < 2
      \<and> cp_kind t = Snapshot \<and> newer rows t < 2 \<and> cp_kind l = Ledger \<and> newer rows l = 0
      \<and> (\<forall>x\<in>{s, t}. \<exists>l\<in>set keep. cp_kind l = Ledger \<and> cp_operation l = cp_operation x)"
proof -
  define protected where "protected = newest_copies (filter (\<lambda>r. cp_sequence r \<in> set (protected_sequences p named rows)) rows)"
  have sub: "set protected \<subseteq> set rows" by (auto simp: protected_def newest_copies_def)
  have snaps: "take 2 (filter (\<lambda>r. cp_kind r = Snapshot) protected) = newest_of Snapshot 2 rows"
    unfolding protected_def using p by (intro protected_newest) (simp add: limit_def policy_ok_def)
  have ledgers: "take 1 (filter (\<lambda>r. cp_kind r = Ledger) protected) = newest_of Ledger 1 rows"
    unfolding protected_def using p by (intro protected_newest) (simp add: limit_def policy_ok_def)
  obtain l where l: "newest_of Ledger 1 rows = [l]" "List.find (\<lambda>r. cp_kind r = Ledger) protected = Some l"
    using assms(1) ledgers unfolding protected_def[symmetric] keep_rows_def find_take
    by (auto simp: Let_def split: option.splits if_splits list.splits)
       (metis length_Cons length_take list.size(3) min.cobounded2 neq_Nil_conv not_less_eq_eq One_nat_def le_zero_eq length_0_conv newest_of_def)
  have two: "length (newest_of Snapshot 2 rows) = 2"
    and out: "partners protected (newest_of Snapshot 2 rows) (add_row l (newest_of Snapshot 2 rows)) = Some keep"
    using assms(1) l(2) snaps unfolding protected_def[symmetric] keep_rows_def by (auto simp: Let_def split: option.splits if_splits)
  obtain s t where st: "newest_of Snapshot 2 rows = [s, t]"
    using two by (auto simp: length_Suc_conv eval_nat_numeral)
  have in_snaps: "r \<in> {s, t} \<longleftrightarrow> r \<in> set rows \<and> cp_kind r = Snapshot \<and> newer rows r < 2" for r
    using newest_iff[OF rows, of r Snapshot 2] by (simp add: st)
  have is_l: "r = l \<longleftrightarrow> r \<in> set rows \<and> cp_kind r = Ledger \<and> newer rows r < 1" for r
    using newest_iff[OF rows, of r Ledger 1, unfolded l(1)] by simp
  have mem: "s \<in> set rows" "cp_kind s = Snapshot" "newer rows s < 2" "t \<in> set rows" "cp_kind t = Snapshot" "newer rows t < 2"
      "l \<in> set rows" "cp_kind l = Ledger" "newer rows l < 1"
    using in_snaps[of s] in_snaps[of t] is_l[of l] by auto
  have base: "set (add_row l [s, t]) = {l, s, t}"
    using add_row_set[OF rows, of "[s, t]" l] mem by auto
  then have start: "set (add_row l [s, t]) \<subseteq> set rows" using mem by auto
  have sound: "set (add_row l [s, t]) \<subseteq> set keep \<and> set keep \<subseteq> set rows \<and> (\<forall>x\<in>{s, t}. \<exists>l\<in>set keep. cp_kind l = Ledger \<and> cp_operation l = cp_operation x)
     \<and> (\<forall>x\<in>set keep. x \<in> {l, s, t} \<or> cp_kind x = Ledger \<and> (\<exists>y\<in>{s, t}. cp_operation y = cp_operation x))"
    using partners_sound[OF rows sub out[unfolded st] start] base by auto
  have "distinct (newest_of Snapshot 2 rows)"
    using rows by (simp add: newest_of_def newest_copies_def distinct_map)
  then have "s \<noteq> t" by (simp add: st)
  have "recovery_copy rows x" if "x \<in> set keep" for x
  proof -
    have "x \<in> {l, s, t} \<or> cp_kind x = Ledger \<and> (\<exists>y\<in>{s, t}. cp_operation y = cp_operation x)" using sound that by blast
    then show ?thesis using mem unfolding recovery_copy_def by auto
  qed
  then show "set keep \<subseteq> {r \<in> set rows. recovery_copy rows r}" using sound by auto
  show "\<exists>s t l. s \<in> set keep \<and> t \<in> set keep \<and> l \<in> set keep \<and> s \<noteq> t \<and> cp_kind s = Snapshot \<and> newer rows s < 2
      \<and> cp_kind t = Snapshot \<and> newer rows t < 2 \<and> cp_kind l = Ledger \<and> newer rows l = 0
      \<and> (\<forall>x\<in>{s, t}. \<exists>l\<in>set keep. cp_kind l = Ledger \<and> cp_operation l = cp_operation x)"
    using sound base \<open>s \<noteq> t\<close> mem by (intro exI[of _ s] exI[of _ t] exI[of _ l]) auto
qed

section \<open>Properties\<close>

lemma own_rows:
  assumes "catalog_ok c"
  shows "distinct (map cp_sequence (own k key (ct_copies c)))" "inj_on cp_name (set (own k key (ct_copies c)))"
  using assms by (auto simp: catalog_ok_def own_def distinct_map_filter distinct_map inj_on_def)

lemma subseq_length_set: "subseq xs ys \<Longrightarrow> length xs \<le> length ys \<and> set xs \<subseteq> set ys"
  by (auto simp: list_emb_length dest: list_emb_set)

text \<open>A cleanup that unlinks anything carried out a plan.\<close>

lemma cleanup_carries_out:
  assumes "cleanup pr token ls opens workspace key p expected w = (r, v)" "wd_unlinked w = []" "wd_unlinked v \<noteq> []"
  obtains pl protected candidates scoped fs gone where
    "planning pr token ls opens workspace key p fs (wd_catalog w) (pl, protected, candidates, scoped)"
    "expected = None \<or> expected = Some (pl_token pl)" "map fst (wd_unlinked v) = map cp_name gone" "subseq gone candidates"
    "gone \<noteq> []" "pl_state pl = PlanReady" "candidates \<noteq> []"
proof -
  have "\<not> silent w v" using assms(2,3) by (auto simp: silent_def)
  with cleanup_unlinks[OF assms(1)] obtain pl protected candidates scoped fs and removed :: "removal list" where
    r: "planning pr token ls opens workspace key p fs (wd_catalog w) (pl, protected, candidates, scoped)"
      "expected = None \<or> expected = Some (pl_token pl)" "map fst (wd_unlinked v) = map fst (wd_unlinked w) @ map cp_name (map fst removed)"
      "subseq (map fst removed) candidates" "removed \<noteq> [] \<longrightarrow> pl_state pl = PlanReady"
    by blast
  define gone where "gone = map fst removed"
  with r have g: "planning pr token ls opens workspace key p fs (wd_catalog w) (pl, protected, candidates, scoped)"
      "expected = None \<or> expected = Some (pl_token pl)" "map fst (wd_unlinked v) = map fst (wd_unlinked w) @ map cp_name gone"
      "subseq gone candidates" "gone \<noteq> [] \<longrightarrow> pl_state pl = PlanReady"
    by simp_all
  then have "gone \<noteq> []" using assms(2,3) by auto
  then show thesis using g assms(2) by (intro that[OF g(1,2) _ g(4)]) auto
qed

text \<open>C14. While others change the files, request a cancellation or lock the inventory at any moment, a cleanup
  unlinks at most two hundred files, and only files of copies that the inventory holds for this very
  key, under a limiting policy, with at least two snapshots of the key on record, and of which the
  policy keeps enough newer ones; a ledger goes only if the snapshots of its operation may go too.\<close>

theorem cleanup_spares_protected:
  assumes "cleanup pr token ls opens workspace key p expected w = (r, v)" "catalog_ok (wd_catalog w)" "wd_unlinked w = []"
  shows "length (wd_unlinked v) \<le> BATCH_LIMIT \<and> (\<forall>(name, ino)\<in>set (wd_unlinked v). rp_mode p = Limited \<and>
    (\<exists>k. \<exists>row\<in>set (own k key (ct_copies (wd_catalog w))). cp_name row = name \<and> expendable p (own k key (ct_copies (wd_catalog w))) row
       \<and> 2 \<le> length (filter (\<lambda>r. cp_kind r = Snapshot) (own k key (ct_copies (wd_catalog w))))))"
proof (cases "wd_unlinked v = []")
  case False
  obtain pl protected candidates scoped fs gone where
    plan: "planning pr token ls opens workspace key p fs (wd_catalog w) (pl, protected, candidates, scoped)"
    and names: "map fst (wd_unlinked v) = map cp_name gone" and gone: "subseq gone candidates"
    and ready: "pl_state pl = PlanReady" "candidates \<noteq> []"
    using cleanup_carries_out[OF assms(1,3) False] by metis
  from planning_ready[OF plan ready(2)] obtain named k where k: "rp_mode p = Limited"
      "candidates = batch_of (removable p named (own k key (ct_copies (wd_catalog w))))"
      "pl_state pl = (if length (filter (\<lambda>r. cp_kind r = Snapshot) (own k key (ct_copies (wd_catalog w)))) < 2 then InsufficientRecovery else PlanReady)"
    by metis
  define rows where "rows = own k key (ct_copies (wd_catalog w))"
  have row: "row \<in> set rows \<and> expendable p rows row" if "row \<in> set gone" for row
    using candidate_expendable[OF assms(2), of row p named k key] subseq_length_set[OF gone] that k(2)
    unfolding rows_def by (auto simp: own_def)
  have two: "2 \<le> length (filter (\<lambda>r. cp_kind r = Snapshot) rows)"
    using k(3) ready unfolding rows_def by (auto split: if_splits)
  have "length (wd_unlinked v) = length gone" using arg_cong[OF names, of length] by simp
  then have "length (wd_unlinked v) \<le> BATCH_LIMIT"
    using batch_subset(2) subseq_length_set[OF gone] k(2) by (metis le_trans)
  moreover have "\<exists>row\<in>set rows. cp_name row = fst x \<and> expendable p rows row" if "x \<in> set (wd_unlinked v)" for x
  proof -
    have "fst x \<in> set (map cp_name gone)" unfolding names[symmetric] using that by simp
    then show ?thesis using row by force
  qed
  ultimately show ?thesis using k(1) two unfolding rows_def by (simp add: case_prod_beta) blast
qed simp

text \<open>What the body verified first still stands when it ends, if others leave it alone.\<close>

lemma steps_verified:
  assumes "cleanup_steps pr (pl, protected, candidates, scoped) w = (r, v)" "wd_unlinked v \<noteq> wd_unlinked w"
    and "cp_name ` set candidates \<inter> N = {}" "\<forall>f\<in>set (wd_future w). calm N f"
    and keep: "keep_rows protected = Some keep" "cp_name ` set keep \<subseteq> N"
  shows "\<forall>row\<in>set keep. intact pr (world_files v) row"
proof -
  obtain d u where d: "observe (\<lambda>o'. folder_identity (ou_files o')) w = (d, u)" by fastforce
  obtain y x where x: "io_catch (io_bind (verify_all pr keep []) (\<lambda>r. io_return (Some r))) expected_failure (io_return None) u = (y, x)"
    by fastforce
  have wu: "silent w u" "stands N w u" using preservesD[OF quiet.kept_observe d] preservesD[OF standing.kept_observe d] by auto
  have wx: "silent w x" using silent_trans[OF wu(1) preservesD[OF quiet_body x]] .
  have same: "wd_unlinked z = wd_unlinked w" if "silent w z" for z using that by (simp add: silent_def)
  have ready: "pl_state pl = PlanReady \<and> candidates \<noteq> []"
  proof (rule ccontr)
    assume "\<not> ?thesis"
    then have "wd_unlinked v = wd_unlinked w" using assms(1) by (auto simp: cleanup_steps_def io_state_def io_report_def)
    then show False using assms(2) by simp
  qed
  then have body: "(case d of Inl e \<Rightarrow> (Inl e, u) | Inr d' \<Rightarrow> (case y of Inl e \<Rightarrow> (Inl e, x) | Inr None \<Rightarrow> io_state Blocked x
      | Inr (Some retained) \<Rightarrow> io_then (delete_copies pr (the scoped) d' retained candidates) (finish_cleanup (pl_candidate_files pl)) x)) = (r, v)"
    using assms(1) d x keep(1) by (auto simp: cleanup_steps_def io_bind_def split: sum.splits option.splits)
  then obtain d' retained where r: "y = Inr (Some retained)"
      "io_then (delete_copies pr (the scoped) d' retained candidates) (finish_cleanup (pl_candidate_files pl)) x = (r, v)"
    using assms(2) same wu(1) wx by (auto simp: io_state_def io_report_def split: sum.splits option.splits)
  then have ver: "verify_all pr keep [] u = (Inr retained, x)"
    using x by (auto simp: io_runs io_return_def)
  have here: "\<forall>row\<in>set keep. intact pr (world_files x) row"
    using verify_all_intact[OF ver keep(2)] wu(2) assms(4) by (auto simp: stands_def)
  have "stands N x v"
    using preservesD[OF standing.kept_then[OF stands_deletes[OF assms(3)]] r(2)] stands_report unfolding finish_cleanup_def by blast
  moreover have "stands N u x" using preservesD[OF standing.kept_verify_all ver] .
  ultimately have "agree N (world_files x) (world_files v)" using wu(2) assms(4) unfolding stands_def by metis
  then show ?thesis using here keep(2) intact_agree by blast
qed

lemma body_verified:
  assumes "cleanup_body pr (pl, protected, candidates, scoped) w = (r, v)" "wd_unlinked v \<noteq> wd_unlinked w"
    and "cp_name ` set candidates \<inter> N = {}" "\<forall>f\<in>set (wd_future w). calm N f"
    and keep: "keep_rows protected = Some keep" "cp_name ` set keep \<subseteq> N"
  shows "(\<forall>row\<in>set keep. intact pr (world_files v) row) \<and> (\<forall>f\<in>set (wd_future v). calm N f)"
proof -
  from assms(1) obtain b z where z: "cleanup_steps pr (pl, protected, candidates, scoped) w = (b, z)" "snd (io_release z) = v"
    by (rule cleanup_body_runs)
  have zv: "silent z v" "stands N z v" using quiet.kept_release standing.kept_release z(2) unfolding preserves_def by blast+
  then have changed: "wd_unlinked z \<noteq> wd_unlinked w" using assms(2) by (simp add: silent_def)
  have "stands N w z" using preservesD[OF stands_steps[OF assms(3)] z(1)] .
  then have "agree N (world_files z) (world_files v) \<and> (\<forall>f\<in>set (wd_future v). calm N f)"
    using zv(2) assms(4) unfolding stands_def by metis
  then show ?thesis using steps_verified[OF z(1) changed assms(3,4) keep] keep(2) intact_agree by blast
qed

text \<open>C13. If others leave the files of the recovery points alone, then after every cleanup that unlinked anything, however it
  ended, the two newest snapshots of the key, a ledger of the operation of each, and the newest
  ledger are in the folder with their recorded sizes and digests.\<close>

theorem cleanup_keeps_recovery_points:
  assumes run: "cleanup pr token ls opens workspace key p expected w = (r, v)" and ok: "catalog_ok (wd_catalog w)" and p: "policy_ok p"
    and unlinked: "wd_unlinked w = []" "wd_unlinked v \<noteq> []"
    and folder: "fs_at (world_files w) = Directory d"
    and rows: "rows = own (scope_id pr workspace (fs_path (world_files w)) d) key (ct_copies (wd_catalog w))"
    and others: "\<forall>f\<in>set (wd_future w). calm (cp_name ` {r \<in> set rows. recovery_copy rows r}) f"
  shows "\<exists>s t l. {s, t, l} \<subseteq> set rows \<and> s \<noteq> t \<and> cp_kind s = Snapshot \<and> newer rows s < 2 \<and> cp_kind t = Snapshot \<and> newer rows t < 2
      \<and> cp_kind l = Ledger \<and> newer rows l = 0 \<and> (\<forall>x\<in>{s, t, l}. intact pr (world_files v) x)
      \<and> (\<forall>x\<in>{s, t}. \<exists>l\<in>set rows. cp_kind l = Ledger \<and> cp_operation l = cp_operation x \<and> intact pr (world_files v) l)"
proof -
  define N where "N = cp_name ` {r \<in> set rows. recovery_copy rows r}"
  have "\<not> silent w v" using unlinked by (auto simp: silent_def)
  then obtain x u b where x: "u = tick (tick w)" "silent w u"
      "planning pr token ls opens workspace key p (world_files u) (wd_catalog w) x"
      "record_cleanup (pl_candidate_files (fst x)) (cleanup_body pr x) (u\<lparr>wd_report := fresh_report (pl_candidate_files (fst x))\<rparr>) = (b, v)"
    using cleanup_runs[OF run] unfolding world_files_def by blast
  obtain pl protected candidates scoped where parts: "x = (pl, protected, candidates, scoped)" by (metis prod_cases4)
  let ?m = "u\<lparr>wd_report := fresh_report (pl_candidate_files pl)\<rparr>"
  obtain c z where z: "cleanup_body pr (pl, protected, candidates, scoped) ?m = (c, z)" by fastforce
  have vz: "wd_unlinked v = wd_unlinked z" "world_files v = world_files (tick z)"
    using record_cleanup_runs[OF x(4)[unfolded parts fst_conv] z] by (simp_all add: world_files_def)
  have wu: "stands N w u" using standing.chain[OF standing.ticking standing.ticking] by (simp add: x(1))
  then have calm: "\<forall>f\<in>set (wd_future ?m). calm N f" and agree: "agree N (world_files w) (world_files u)"
    using others unfolding N_def[symmetric] by (auto simp: stands_def)
  have changed: "wd_unlinked z \<noteq> wd_unlinked ?m" using vz(1) unlinked x(2) by (auto simp: silent_def)
  obtain gone where gone: "counted gone ?m z" "subseq (map fst gone) candidates"
      "gone \<noteq> [] \<longrightarrow> pl_state pl = PlanReady \<and> keep_rows protected \<noteq> None"
    using cleanup_body_counts[OF z] by blast
  have "wd_unlinked ?m = []" using unlinked(1) x(2) by (simp add: silent_def)
  then have "gone \<noteq> []" using gone(1) changed by (auto simp: counted_def)
  then obtain keep where keep: "keep_rows protected = Some keep" using gone(3) by auto
  have "candidates \<noteq> []" using gone(2) \<open>gone \<noteq> []\<close> by (cases candidates) auto
  from planning_ready[OF x(3)[unfolded parts] this] obtain d' named k where k: "fs_at (world_files u) = Directory d'"
      "k = scope_id pr workspace (fs_path (world_files u)) d'"
      "candidates = batch_of (removable p named (own k key (ct_copies (wd_catalog w))))"
      "protected = newest_copies (filter (\<lambda>r. cp_sequence r \<in> set (protected_sequences p named (own k key (ct_copies (wd_catalog w))))) (own k key (ct_copies (wd_catalog w))))"
    by metis
  have own: "own k key (ct_copies (wd_catalog w)) = rows"
    using agree folder rows k(1,2) by (auto simp: agree_def)
  have sorted: "distinct (map cp_sequence rows)" "inj_on cp_name (set rows)" using own_rows[OF ok, of k key] own by simp_all
  note kept = keep_rows_sound[OF keep[unfolded k(4) own] sorted(1) p]
  have "cp_name ` set candidates \<inter> N = {}"
  proof -
    have "row \<in> set rows \<and> \<not> recovery_copy rows row" if "row \<in> set candidates" for row
      using candidate_expendable[OF ok, of row p named k key] that k(3) own expendable_not_recovery[OF p] by (auto simp: own_def)
    then show ?thesis using sorted(2) by (auto simp: N_def inj_on_def)
  qed
  then have done': "\<forall>row\<in>set keep. intact pr (world_files z) row" "\<forall>f\<in>set (wd_future z). calm N f"
    using body_verified[OF z changed _ calm keep] kept(1) by (auto simp: N_def)
  moreover have "agree N (world_files z) (world_files v)"
    using standing.ticking[of N z] done'(2) by (simp add: stands_def vz(2))
  ultimately have "\<forall>row\<in>set keep. intact pr (world_files v) row"
    using intact_agree kept(1) by (fastforce simp: N_def)
  then have in_rows: "x \<in> set rows \<and> intact pr (world_files v) x" if "x \<in> set keep" for x
    using kept(1) that by blast
  obtain s t l where stl: "s \<in> set keep" "t \<in> set keep" "l \<in> set keep" "s \<noteq> t" "cp_kind s = Snapshot" "newer rows s < 2"
      "cp_kind t = Snapshot" "newer rows t < 2" "cp_kind l = Ledger" "newer rows l = 0"
      "\<forall>x\<in>{s, t}. \<exists>l\<in>set keep. cp_kind l = Ledger \<and> cp_operation l = cp_operation x"
    using kept(2) by metis
  have "\<exists>l\<in>set rows. cp_kind l = Ledger \<and> cp_operation l = cp_operation x \<and> intact pr (world_files v) l" if "x \<in> {s, t}" for x
    using bspec[OF stl(11) that] in_rows by blast
  then show ?thesis using stl(1-10) in_rows by (intro exI[of _ s] exI[of _ t] exI[of _ l]) simp
qed

section \<open>The inventory after a cleanup\<close>

text \<open>A copy but for its count of failed removals.\<close>

definition recorded :: "copy_row \<Rightarrow> copy_row" where
  "recorded r = r\<lparr>cp_attempts := 0\<rparr>"

definition records :: "world \<Rightarrow> copy_row set" where
  "records w = recorded ` set (ct_copies (wd_catalog w))"

text \<open>Nothing is added to the inventory, and only copies whose names were unlinked leave it.\<close>

definition tracks :: "world \<Rightarrow> world \<Rightarrow> bool" where
  "tracks w v \<longleftrightarrow> set (wd_unlinked w) \<subseteq> set (wd_unlinked v) \<and> records v \<subseteq> records w
     \<and> (\<forall>x\<in>records w - records v. cp_name x \<in> fst ` set (wd_unlinked v))"

lemma tracks_silent: "silent w v \<Longrightarrow> tracks w v"
  by (simp add: tracks_def silent_def records_def)

lemma tracks_trans: "tracks w v \<Longrightarrow> tracks v u \<Longrightarrow> tracks w u"
  unfolding tracks_def by blast

interpretation tracking: world_relation tracks
  by unfold_locales (auto intro: tracks_trans tracks_silent tick_silent hold_silent quiet.same)

lemma tracks_report: "preserves tracks (io_report f)"
  by (auto simp: preserves_def io_report_def tracks_def records_def)

lemma tracks_write:
  assumes "\<And>rows. recorded ` set (f rows) = recorded ` set rows"
  shows "preserves tracks (write_copies f)"
  unfolding write_copies_def
  by (intro tracking.kept_then tracking.kept_observe) (simp add: preserves_def tracks_def records_def assms)

lemma tracks_attempts:
  "preserves tracks (write_copies (map (\<lambda>r. if cp_sequence r = n then r\<lparr>cp_attempts := f r\<rparr> else r)))"
proof (rule tracks_write)
  have "recorded (if cp_sequence r = n then r\<lparr>cp_attempts := f r\<rparr> else r) = recorded r" for r by (simp add: recorded_def)
  then show "recorded ` set (map (\<lambda>r. if cp_sequence r = n then r\<lparr>cp_attempts := f r\<rparr> else r) rows) = recorded ` set rows" for rows
    by (simp only: set_map image_image)
qed

lemma tracks_delete_file: "preserves tracks (delete_file pr d retained row)"
proof -
  have "tracks w v" if "delete_file pr d retained row w = (r, v)" for w r v
    using delete_file_runs[OF that] tracks_silent by (auto simp: took_out_def) (auto simp: tracks_def records_def)
  then show ?thesis unfolding preserves_def by (metis prod.collapse)
qed

text \<open>The row that a deletion takes out of the inventory is the row of the file just unlinked.\<close>

lemma tracks_forget:
  assumes "write_copies (filter (\<lambda>r. \<not> (cp_sequence r = cp_sequence row \<and> cp_scope r = k))) w = (r, v)"
    and "cp_name row \<in> fst ` set (wd_unlinked w)" "\<forall>x\<in>records w. cp_sequence x = cp_sequence row \<longrightarrow> cp_name x = cp_name row"
  shows "tracks w v"
proof (cases "ct_copies (wd_catalog v) = ct_copies (wd_catalog w)")
  case True
  then show ?thesis using write_copies_runs[OF assms(1)] assms(1) tick_silent[of w]
    by (auto simp: tracks_def records_def write_copies_def then_runs observe_def silent_def split: if_splits)
next
  case False
  then have v: "ct_copies (wd_catalog v) = filter (\<lambda>r. \<not> (cp_sequence r = cp_sequence row \<and> cp_scope r = k)) (ct_copies (wd_catalog w))"
      "wd_unlinked v = wd_unlinked w"
    using assms(1) tick_silent[of w] by (auto simp: write_copies_def then_runs observe_def silent_def split: if_splits)
  have "cp_name x \<in> fst ` set (wd_unlinked v)" if member: "x \<in> records w - records v" for x
  proof -
    obtain y where y: "y \<in> set (ct_copies (wd_catalog w))" "x = recorded y" "y \<notin> set (ct_copies (wd_catalog v))"
      using member by (auto simp: records_def)
    then have "cp_sequence x = cp_sequence row" using v(1) by (simp add: recorded_def)
    then show ?thesis using assms(2,3) member v(2) by auto
  qed
  moreover have "records v \<subseteq> records w" using v(1) by (auto simp: records_def)
  ultimately show ?thesis using v(2) by (simp add: tracks_def)
qed

lemma tracks_delete:
  assumes "delete_copy pr k d retained row w = (r, v)" "\<forall>x\<in>records w. cp_sequence x = cp_sequence row \<longrightarrow> cp_name x = cp_name row"
  shows "tracks w v"
proof -
  let ?del = "io_then (delete_file pr d retained row)
       (io_then (io_report (\<lambda>r. r\<lparr>rp_deleted := rp_deleted r + 1, rp_deleted_bytes := rp_deleted_bytes r + cp_bytes row\<rparr>))
         (write_copies (filter (\<lambda>r. \<not> (cp_sequence r = cp_sequence row \<and> cp_scope r = k)))))"
  have del: "tracks w u" if "?del w = (a, u)" for a u
  proof -
    obtain b y where y: "delete_file pr d retained row w = (b, y)" by fastforce
    have wy: "tracks w y" using preservesD[OF tracks_delete_file y] .
    show ?thesis
    proof (cases b)
      case (Inl e)
      then show ?thesis using \<open>?del w = (a, u)\<close> y wy by (auto simp: then_runs)
    next
      case (Inr x)
      then have name: "cp_name row \<in> fst ` set (wd_unlinked y)" using delete_file_runs[OF y] by (auto simp: took_out_def)
      let ?z = "y\<lparr>wd_report := (wd_report y)\<lparr>rp_deleted := rp_deleted (wd_report y) + 1,
                    rp_deleted_bytes := rp_deleted_bytes (wd_report y) + cp_bytes row\<rparr>\<rparr>"
      have "write_copies (filter (\<lambda>r. \<not> (cp_sequence r = cp_sequence row \<and> cp_scope r = k))) ?z = (a, u)"
        using \<open>?del w = (a, u)\<close> y Inr by (auto simp: then_runs io_report_def)
      moreover have "\<forall>x\<in>records ?z. cp_sequence x = cp_sequence row \<longrightarrow> cp_name x = cp_name row"
        using assms(2) wy by (auto simp: tracks_def records_def)
      ultimately have "tracks ?z u" using name by (intro tracks_forget) simp_all
      moreover have "tracks y ?z" by (simp add: tracks_def records_def)
      ultimately show ?thesis using wy tracks_trans by blast
    qed
  qed
  have skip: "preserves tracks (io_then (io_report (\<lambda>r. r\<lparr>rp_skipped := rp_skipped r + 1\<rparr>))
         (write_copies (map (\<lambda>r. if cp_sequence r = cp_sequence row
                                  then r\<lparr>cp_attempts := min (cp_attempts r + 1) 1000000\<rparr> else r))))"
    by (intro tracking.kept_then tracks_report tracks_attempts)
  from assms(1) show ?thesis
    unfolding delete_copy_def catch_runs
    using del preservesD[OF skip] tracks_trans by blast
qed

lemma tracks_deletes:
  "delete_copies pr k d retained rows w = (r, v) \<Longrightarrow>
     \<forall>row\<in>set rows. \<forall>x\<in>records w. cp_sequence x = cp_sequence row \<longrightarrow> cp_name x = cp_name row \<Longrightarrow> tracks w v"
proof (induction rows arbitrary: w)
  case Nil
  then show ?case by (auto simp: io_return_def tracking.same)
next
  case (Cons row rows)
  let ?check = "io_catch (io_then (check_retained d retained) (io_return True)) expected_failure (io_return False)"
  have check: "preserves tracks ?check"
    by (intro tracking.kept_catch tracking.kept_then tracking.kept_check tracking.kept_return)
  have later: "tracks x v" if "io_then (delete_copy pr k d retained row) (delete_copies pr k d retained rows) x = (r, v)" "tracks w x" for x
  proof -
    have names: "\<forall>y\<in>set (row # rows). \<forall>z\<in>records x. cp_sequence z = cp_sequence y \<longrightarrow> cp_name z = cp_name y"
      using Cons.prems(2) that(2) unfolding tracks_def by (meson subsetD)
    obtain b y where y: "delete_copy pr k d retained row x = (b, y)" by fastforce
    have xy: "tracks x y" by (rule tracks_delete[OF y bspec[OF names]]) simp
    have "records y \<subseteq> records x" using xy by (simp add: tracks_def)
    then have names': "\<forall>row\<in>set rows. \<forall>z\<in>records y. cp_sequence z = cp_sequence row \<longrightarrow> cp_name z = cp_name row"
      using names by (meson list.set_intros(2) subsetD)
    have "tracks y v" if "delete_copies pr k d retained rows y = (r, v)"
      by (rule Cons.IH[OF that names'])
    then show ?thesis using \<open>io_then (delete_copy pr k d retained row) (delete_copies pr k d retained rows) x = (r, v)\<close> y xy tracks_trans
      by (auto simp: then_runs)
  qed
  obtain c u where c: "io_cancel w = (c, u)" by fastforce
  obtain a x where a: "?check u = (a, x)" by fastforce
  have wu: "tracks w u" using preservesD[OF tracking.kept_cancel c] .
  have wx: "tracks w x" using tracks_trans[OF wu preservesD[OF check a]] .
  have run: "(case c of Inl e \<Rightarrow> (Inl e, u) | Inr _ \<Rightarrow> (case a of Inl e \<Rightarrow> (Inl e, x) | Inr go \<Rightarrow>
        (if go then io_then (delete_copy pr k d retained row) (delete_copies pr k d retained rows)
         else io_report (\<lambda>r. r\<lparr>rp_state := Partial\<rparr>)) x)) = (r, v)"
    using Cons.prems(1) c a by (auto simp: io_then_def io_bind_def split: sum.splits)
  show ?case
  proof (cases c; cases a)
    fix q go assume "c = Inr q" "a = Inr go"
    then show ?thesis using run later[OF _ wx] tracks_trans[OF wx] preservesD[OF tracks_report]
      by (cases go) simp_all
  qed (use run wu wx in simp_all)
qed

lemma tracks_steps:
  assumes "cleanup_steps pr (pl, protected, candidates, scoped) w = (r, v)"
    and "\<forall>row\<in>set candidates. \<forall>x\<in>records w. cp_sequence x = cp_sequence row \<longrightarrow> cp_name x = cp_name row"
  shows "tracks w v"
proof -
  obtain d u where d: "observe (\<lambda>o'. folder_identity (ou_files o')) w = (d, u)" by fastforce
  define keep where "keep = the (keep_rows protected)"
  obtain y x where x: "io_catch (io_bind (verify_all pr keep []) (\<lambda>r. io_return (Some r))) expected_failure (io_return None) u = (y, x)"
    by fastforce
  have wu: "silent w u" using preservesD[OF quiet.kept_observe d] .
  have wx: "silent w x" using silent_trans[OF wu preservesD[OF quiet_body x]] .
  have state: "tracks w v" if "io_state q z = (r, v)" "silent w z" for q z
    using tracks_trans[OF tracks_silent[OF that(2)] preservesD[OF tracks_report that(1)[unfolded io_state_def]]] .
  have loop: "tracks w v" if l: "io_then (delete_copies pr k d' retained candidates) (finish_cleanup n) x = (r, v)" for k d' retained n
  proof -
    obtain b z where z: "delete_copies pr k d' retained candidates x = (b, z)" by fastforce
    have "records x = records w" using wx by (simp add: silent_def records_def)
    then have "tracks x z" using assms(2) by (intro tracks_deletes[OF z]) (simp only:)
    moreover have "z = v \<or> finish_cleanup n z = (r, v)" using l z by (auto simp: then_runs)
    ultimately have "tracks x v" using tracks_trans preservesD[OF tracks_report] unfolding finish_cleanup_def by blast
    then show ?thesis using tracks_trans[OF tracks_silent[OF wx]] by blast
  qed
  have "(if pl_state pl \<noteq> PlanReady \<or> candidates = [] then io_state (if pl_state pl = InsufficientRecovery then Blocked else Complete) w
      else (case d of Inl e \<Rightarrow> (Inl e, u) | Inr d' \<Rightarrow> if keep_rows protected = None then io_state Blocked u
      else (case y of Inl e \<Rightarrow> (Inl e, x) | Inr None \<Rightarrow> io_state Blocked x
      | Inr (Some retained) \<Rightarrow> io_then (delete_copies pr (the scoped) d' retained candidates) (finish_cleanup (pl_candidate_files pl)) x))) = (r, v)"
    using assms(1) d x unfolding keep_def
    by (auto simp: cleanup_steps_def io_bind_def split: sum.splits option.splits)
  then show ?thesis
    using state[OF _ quiet.same] state[OF _ wu] state[OF _ wx] loop tracks_silent[OF wu] tracks_silent[OF wx]
    by (auto split: if_splits sum.splits option.splits)
qed

lemma tracks_body:
  assumes "cleanup_body pr (pl, protected, candidates, scoped) w = (r, v)"
    and "\<forall>row\<in>set candidates. \<forall>x\<in>records w. cp_sequence x = cp_sequence row \<longrightarrow> cp_name x = cp_name row"
  shows "tracks w v"
proof -
  from assms(1) obtain b z where z: "cleanup_steps pr (pl, protected, candidates, scoped) w = (b, z)" "snd (io_release z) = v"
    by (rule cleanup_body_runs)
  have "tracks z v" using tracking.kept_release z(2) unfolding preserves_def by blast
  then show ?thesis using tracks_trans[OF tracks_steps[OF z(1) assms(2)]] by blast
qed

lemma sequence_names:
  assumes "catalog_ok c" "row \<in> set (ct_copies c)" "x \<in> recorded ` set (ct_copies c)" "cp_sequence x = cp_sequence row"
  shows "cp_name x = cp_name row"
proof -
  obtain y where y: "y \<in> set (ct_copies c)" "x = recorded y" using assms(3) by blast
  then have "cp_sequence y = cp_sequence row" using assms(4) by (simp add: recorded_def)
  then have "y = row" using assms(1,2) y(1) unfolding catalog_ok_def distinct_map inj_on_def by blast
  then show ?thesis by (simp add: y(2) recorded_def)
qed

lemma plan_candidates_recorded:
  assumes "planning pr token ls opens workspace key p fs c (pl, protected, candidates, scoped)"
  shows "set candidates \<subseteq> set (ct_copies c)"
proof (cases "candidates = []")
  case False
  from planning_ready[OF assms this] obtain named k where
    "candidates = batch_of (removable p named (own k key (ct_copies c)))" by metis
  then show ?thesis using batch_subset(1) by (fastforce simp: removable_def own_def split: if_splits)
qed simp

text \<open>C36. However a cleanup ends, with a return, a cancellation, a lost folder, a locked inventory or a report that cannot be
  saved: a report that it saved counts the recorded copies whose files it unlinked, and their recorded bytes, but for
  those whose file or directory failed to close after the removal, which it counts as skipped; if everything closes,
  it counts exactly the unlinked files. A report that it returns was saved. Nothing is added to the inventory, and
  a copy leaves it only if its name was unlinked.\<close>

theorem cleanup_report_is_true:
  assumes run: "cleanup pr token ls opens workspace key p expected w = (r, v)" and ok: "catalog_ok (wd_catalog w)"
    and start: "wd_unlinked w = []" "wd_saved w = None"
  shows "(\<exists>removed. set (map fst removed) \<subseteq> set (ct_copies (wd_catalog w))
       \<and> map fst (wd_unlinked v) = map cp_name (map fst removed)
       \<and> (\<forall>rep. wd_saved v = Some rep \<longrightarrow> rp_deleted rep = length (filter snd removed)
            \<and> rp_deleted_bytes rep = total_bytes (map fst (filter snd removed)) \<and> length (uncounted removed) \<le> rp_skipped rep)
       \<and> (closes w \<longrightarrow> (\<forall>x\<in>set removed. snd x))) \<and>
     (\<forall>q. r = Inr q \<longrightarrow> wd_saved v = Some q) \<and>
     (closes w \<longrightarrow> (\<forall>rep. wd_saved v = Some rep \<longrightarrow> rp_deleted rep = length (wd_unlinked v))) \<and>
     records v \<subseteq> records w \<and> (\<forall>x\<in>records w - records v. cp_name x \<in> fst ` set (wd_unlinked v))"
proof -
  have tracked: "tracks w v"
  proof (cases "silent w v")
    case False
    then obtain x u b where x: "silent w u" "planning pr token ls opens workspace key p (ou_files (wd_outside u)) (wd_catalog w) x"
        "record_cleanup (pl_candidate_files (fst x)) (cleanup_body pr x) (u\<lparr>wd_report := fresh_report (pl_candidate_files (fst x))\<rparr>) = (b, v)"
      using cleanup_runs[OF run] by blast
    obtain pl protected candidates scoped where parts: "x = (pl, protected, candidates, scoped)" by (metis prod_cases4)
    let ?m = "u\<lparr>wd_report := fresh_report (pl_candidate_files pl)\<rparr>"
    obtain c z where z: "cleanup_body pr (pl, protected, candidates, scoped) ?m = (c, z)" by fastforce
    have m: "records ?m = recorded ` set (ct_copies (wd_catalog w))" "wd_unlinked ?m = wd_unlinked w"
      using x(1) by (simp_all add: records_def silent_def)
    have "tracks ?m z"
      using sequence_names[OF ok] plan_candidates_recorded[OF x(2)[unfolded parts]] m(1) by (intro tracks_body[OF z]) blast
    moreover have "wd_unlinked v = wd_unlinked z \<and> wd_catalog v = wd_catalog z"
      using record_cleanup_runs[OF x(3)[unfolded parts fst_conv] z] by blast
    ultimately show ?thesis using m by (simp add: tracks_def records_def)
  qed (rule tracks_silent)
  from cleanup_unlinks[OF run] show ?thesis
  proof
    assume "\<exists>e. r = Inl e \<and> silent w v"
    then show ?thesis using start tracked by (auto simp: silent_def tracks_def intro!: exI[of _ "[]"])
  next
    assume "\<exists>pl protected candidates scoped fs removed rep.
       planning pr token ls opens workspace key p fs (wd_catalog w) (pl, protected, candidates, scoped)
       \<and> (expected = None \<or> expected = Some (pl_token pl))
       \<and> map fst (wd_unlinked v) = map fst (wd_unlinked w) @ map cp_name (map fst removed) \<and> subseq (map fst removed) candidates
       \<and> (removed \<noteq> [] \<longrightarrow> pl_state pl = PlanReady \<and> keep_rows protected \<noteq> None)
       \<and> reported (pl_candidate_files pl) removed w r v rep"
    then obtain pl protected candidates scoped fs removed rep where
      g: "planning pr token ls opens workspace key p fs (wd_catalog w) (pl, protected, candidates, scoped)"
        "map fst (wd_unlinked v) = map fst (wd_unlinked w) @ map cp_name (map fst removed)" "subseq (map fst removed) candidates"
      and rep: "reported (pl_candidate_files pl) removed w r v rep"
      by blast
    have s: "wd_saved v = Some rep \<or> wd_saved v = wd_saved w \<and> (\<exists>e. r = Inl e)" "\<forall>q. r = Inr q \<longrightarrow> q = rep"
      and n: "rp_deleted rep = length (filter snd removed)" "rp_deleted_bytes rep = total_bytes (map fst (filter snd removed))"
        "length (uncounted removed) \<le> rp_skipped rep" "closes w \<longrightarrow> (\<forall>x\<in>set removed. snd x)"
      using rep unfolding reported_def by blast+
    have names: "map fst (wd_unlinked v) = map cp_name (map fst removed)" using g(2) start(1) by simp
    have sub: "set (map fst removed) \<subseteq> set (ct_copies (wd_catalog w))"
      using plan_candidates_recorded[OF g(1)] subseq_length_set[OF g(3)] by blast
    have saved: "q = rep" if "wd_saved v = Some q" for q using s(1) that start(2) by auto
    have "rp_deleted rep = length (wd_unlinked v)" if "closes w"
      using n(1,4) that arg_cong[OF names, of length] by (simp add: filter_True)
    with saved have exact: "closes w \<longrightarrow> (\<forall>q. wd_saved v = Some q \<longrightarrow> rp_deleted q = length (wd_unlinked v))" by blast
    have counts: "\<forall>q. wd_saved v = Some q \<longrightarrow> rp_deleted q = length (filter snd removed)
        \<and> rp_deleted_bytes q = total_bytes (map fst (filter snd removed)) \<and> length (uncounted removed) \<le> rp_skipped q"
      using saved n by blast
    have "\<forall>q. r = Inr q \<longrightarrow> wd_saved v = Some q" using s start(2) by auto
    with sub names counts n(4) exact tracked show ?thesis unfolding tracks_def by blast
  qed
qed

lemma tracked_token:
  "tracked_plan pr token fs copies k workspace key p d named = Inr (pl, protected, candidates, scoped) \<Longrightarrow>
   pl_token pl = token (TrackedPlan p k d key protected candidates (pl_candidate_files pl) (pl_snapshots pl) (pl_ledgers pl))"
  by (auto simp: tracked_plan_def Let_def split: sum.splits if_splits)

lemma plan_token:
  assumes "plan_of pr token fs c ls workspace key p = Inr (pl, protected, candidates, scoped)"
  shows "(\<exists>b. pl_token pl = token (UntrackedPlan b))
    \<or> (\<exists>k d n m l. pl_token pl = token (TrackedPlan p k d key protected candidates n m l))"
proof (cases "plan_scope pr fs c workspace")
  case (Inr q)
  then show ?thesis
  proof (cases q)
    case None
    then show ?thesis using assms Inr by (auto simp: plan_of_def Let_def)
  next
    case (Some k)
    obtain cat :: catalog and d named where "tracked_plan pr token fs (ct_copies cat) k workspace key p d named = Inr (pl, protected, candidates, scoped)"
      using assms Inr Some unfolding plan_of_def
      by (cases c; cases "last_names (fs_path fs) workspace key ls"; cases "folder_identity fs") (simp_all, blast?)
    from tracked_token[OF this] show ?thesis by blast
  qed
qed (use assms in \<open>simp add: plan_of_def\<close>)

text \<open>C37. A cleanup with the token of a reviewed plan removes only candidates of that very plan, under its policy and key, and
  nothing the plan protected, provided that no two plans share this token. A token that no
  longer fits stops it before it does anything.\<close>

theorem cleanup_follows_review:
  assumes inj: "\<forall>x y. token x = pl_token pl0 \<longrightarrow> token y = pl_token pl0 \<longrightarrow> x = y" and ok: "catalog_ok (wd_catalog w)"
    and reviewed: "plan_of pr token fs0 c0 ls0 workspace0 key0 p0 = Inr (pl0, protected0, candidates0, scoped0)"
    and run: "cleanup pr token ls opens workspace key p (Some (pl_token pl0)) w = (r, v)" and start: "wd_unlinked w = []"
  shows "\<forall>(name, ino)\<in>set (wd_unlinked v). p = p0 \<and> key = key0 \<and> name \<in> cp_name ` set candidates0 \<and> name \<notin> cp_name ` set protected0"
proof (cases "wd_unlinked v = []")
  case False
  obtain pl protected candidates scoped fs gone where
    plan: "planning pr token ls opens workspace key p fs (wd_catalog w) (pl, protected, candidates, scoped)"
    and token: "pl_token pl0 = pl_token pl" and names: "map fst (wd_unlinked v) = map cp_name gone"
    and gone: "subseq gone candidates" and some: "candidates \<noteq> []"
    using cleanup_carries_out[OF run start False] by (metis option.distinct(1) option.inject)
  from planning_ready[OF plan some] obtain d named k where
      t: "pl_token pl = token (TrackedPlan p k d key protected candidates (pl_candidate_files pl) (pl_snapshots pl) (pl_ledgers pl))"
      and parts: "candidates = batch_of (removable p named (own k key (ct_copies (wd_catalog w))))"
      "protected = newest_copies (filter (\<lambda>r. cp_sequence r \<in> set (protected_sequences p named (own k key (ct_copies (wd_catalog w))))) (own k key (ct_copies (wd_catalog w))))"
    by metis
  have same: "p = p0 \<and> key = key0 \<and> protected = protected0 \<and> candidates = candidates0"
    using plan_token[OF reviewed] inj t token by (metis token_data.distinct(1) token_data.inject(2))
  have "name \<notin> cp_name ` set protected" if member: "name \<in> cp_name ` set candidates" for name
  proof -
    obtain x where x: "x \<in> set candidates" "name = cp_name x" using member by blast
    then have x': "x \<in> set (own k key (ct_copies (wd_catalog w)))"
        "cp_sequence x \<notin> set (protected_sequences p named (own k key (ct_copies (wd_catalog w))))"
      using subsetD[OF batch_subset(1) x(1)[unfolded parts(1)]] by (simp_all add: removable_def split: if_splits)
    have "cp_name y \<noteq> cp_name x" if y: "y \<in> set protected" for y
    proof
      assume "cp_name y = cp_name x"
      moreover have y': "y \<in> set (own k key (ct_copies (wd_catalog w)))"
          "cp_sequence y \<in> set (protected_sequences p named (own k key (ct_copies (wd_catalog w))))"
        using y unfolding parts(2) newest_copies_def by simp_all
      ultimately have "y = x" using inj_onD[OF own_rows(2)[OF ok]] x'(1) by blast
      then show False using x'(2) y'(2) by simp
    qed
    then show ?thesis using x(2) by (metis imageE)
  qed
  moreover have "fst ` set (wd_unlinked v) \<subseteq> cp_name ` set candidates"
    using arg_cong[OF names, of set] subseq_length_set[OF gone] by auto
  ultimately have "fst x \<in> cp_name ` set candidates0 \<and> fst x \<notin> cp_name ` set protected0" if "x \<in> set (wd_unlinked v)" for x
    using same that by blast
  then show ?thesis using same by (simp add: case_prod_beta)
qed simp

end
