(* ===== verification/Backup_Examples.thy ===== *)
theory Backup_Examples
  imports Backup_Theorems "HOL-Library.Code_Target_Nat"
begin

text \<open>The properties of cleanup on a small folder, computed.\<close>

text \<open>Three snapshots of one key, the later two with their ledgers; the policy keeps two.\<close>

definition demo_operation :: "nat \<Rightarrow> string" where
  "demo_operation n = replicate 31 (CHR ''0'') @ [''0123456789'' ! n]"

definition demo_name :: "copy_kind \<Rightarrow> nat \<Rightarrow> string" where
  "demo_name kind n = kind_name kind @ ''-00000000T000000Z-'' @ demo_operation n @ ''.mnemion.enc''"

definition demo_sha :: "string \<Rightarrow> string" where
  "demo_sha s = (if length s < 8 then take 64 (replicate (length s) (CHR ''1'') @ replicate 64 (CHR ''0'')) else s)"

definition demo_primitives :: primitives where
  "demo_primitives = \<lparr>pr_sha = demo_sha, pr_aware = (\<lambda>_. True), pr_uuid = Some\<rparr>"

definition demo_key :: string where
  "demo_key = replicate 24 (CHR ''0'')"

definition demo_content :: "nat \<Rightarrow> string" where
  "demo_content ino = replicate ino (CHR ''x'')"

definition demo_files :: files where
  "demo_files = \<lparr>fs_path = ''/b'', fs_at = Directory (''1'', ''2''),
     fs_dirs = (\<lambda>_. map_of [(demo_name Snapshot 1, 1), (demo_name Snapshot 2, 2), (demo_name Ledger 2, 3),
        (demo_name Snapshot 3, 4), (demo_name Ledger 3, 5)]),
     fs_inodes = (\<lambda>ino. \<lparr>in_regular = True, in_links = 1, in_device = 1, in_modified = 0, in_changed = 0, in_content = demo_content ino\<rparr>),
     fs_refused = (\<lambda>_. False)\<rparr>"

definition demo_scope :: string where
  "demo_scope = scope_id demo_primitives ''w'' ''/b'' (''1'', ''2'')"

definition demo_copy :: "nat \<Rightarrow> copy_kind \<Rightarrow> nat \<Rightarrow> copy_row" where
  "demo_copy ino kind n = \<lparr>cp_sequence = ino, cp_scope = demo_scope, cp_name = demo_name kind n, cp_kind = kind,
     cp_operation = demo_operation n, cp_key = demo_key, cp_bytes = ino, cp_sha = demo_sha (demo_content ino),
     cp_verified_at = ''t'', cp_attempts = 0\<rparr>"

definition demo_catalog :: catalog where
  "demo_catalog = \<lparr>ct_scopes = [(demo_scope, \<lparr>sc_workspace = ''w'', sc_folder = ''/b'', sc_identity = (''1'', ''2'')\<rparr>)],
     ct_copies = [demo_copy 1 Snapshot 1, demo_copy 2 Snapshot 2, demo_copy 3 Ledger 2,
        demo_copy 4 Snapshot 3, demo_copy 5 Ledger 3], ct_last = 5\<rparr>"

definition demo_policy :: retention_policy where
  "demo_policy = \<lparr>rp_mode = Limited, rp_snapshots = 2, rp_ledgers = 2\<rparr>"

definition demo_world :: "(outside \<Rightarrow> outside) list \<Rightarrow> world" where
  "demo_world future = \<lparr>wd_outside = \<lparr>ou_files = demo_files, ou_cancelled = False, ou_locked = False, ou_unclosed = False, ou_save = None\<rparr>, wd_future = future,
     wd_catalog = demo_catalog, wd_report = fresh_report 0, wd_saved = None, wd_unlinked = [], wd_held = 0\<rparr>"

text \<open>A token that singles out the plan of this folder.\<close>

definition demo_data :: token_data where
  "demo_data = TrackedPlan demo_policy demo_scope (''1'', ''2'') demo_key
     [demo_copy 5 Ledger 3, demo_copy 4 Snapshot 3, demo_copy 3 Ledger 2, demo_copy 2 Snapshot 2] [demo_copy 1 Snapshot 1] 1 3 2"

definition demo_token :: "token_data \<Rightarrow> string" where
  "demo_token x = (if x = demo_data then ''t'' else ''u'')"

definition demo_cleanup :: "string option \<Rightarrow> (outside \<Rightarrow> outside) list \<Rightarrow> report res \<times> world" where
  "demo_cleanup expected future = cleanup demo_primitives demo_token (Inr None, Inr None) True ''w'' demo_key demo_policy expected (demo_world future)"

text \<open>The inventory gets locked before the first removal is written to it.\<close>

definition lock_later :: "(outside \<Rightarrow> outside) list" where
  "lock_later = [\<lambda>o'. o', \<lambda>o'. o'\<lparr>ou_locked := True\<rparr>]"

definition demo_summary :: "world \<Rightarrow> (string \<times> nat) list \<times> nat option" where
  "demo_summary w = (wd_unlinked w, map_option rp_deleted (wd_saved w))"


lemma demo_plan_token: "map_sum id (\<lambda>x. pl_token (fst x)) (plan_of demo_primitives demo_token demo_files (Some demo_catalog)
    (Inr None, Inr None) ''w'' demo_key demo_policy) = Inr ''t''"
  by code_simp

lemma demo_result: "demo_summary (snd (demo_cleanup (Some ''t'') lock_later)) = ([(demo_name Snapshot 1, 1)], Some 1)"
  by code_simp

lemma demo_ok: "catalog_ok (wd_catalog (demo_world lock_later))"
proof -
  have "catalog_ok demo_catalog" by code_simp
  then show ?thesis by (simp add: demo_world_def)
qed

lemma backup_run: "cleanup demo_primitives demo_token (Inr None, Inr None) True ''w'' demo_key demo_policy (Some ''t'') (demo_world lock_later)
    = (fst (demo_cleanup (Some ''t'') lock_later), snd (demo_cleanup (Some ''t'') lock_later))"
  by (simp add: demo_cleanup_def)

lemma backup_start: "wd_catalog (demo_world lock_later) = demo_catalog" "wd_unlinked (demo_world lock_later) = []"
    "wd_saved (demo_world lock_later) = None" "fs_at (world_files (demo_world lock_later)) = Directory (''1'', ''2'')"
  by (simp_all add: demo_world_def world_files_def demo_files_def)

lemma demo_end: "wd_unlinked (snd (demo_cleanup (Some ''t'') lock_later)) = [(demo_name Snapshot 1, 1)]"
    "map_option rp_deleted (wd_saved (snd (demo_cleanup (Some ''t'') lock_later))) = Some 1"
  using demo_result by (simp_all add: demo_summary_def)

theorem cleanup_spares_protected_witness:
  "length (wd_unlinked (snd (demo_cleanup (Some ''t'') lock_later))) \<le> BATCH_LIMIT \<and> rp_mode demo_policy = Limited \<and>
    (\<exists>k. \<exists>row\<in>set (own k demo_key (ct_copies demo_catalog)). cp_name row = demo_name Snapshot 1
       \<and> expendable demo_policy (own k demo_key (ct_copies demo_catalog)) row
       \<and> 2 \<le> length (filter (\<lambda>r. cp_kind r = Snapshot) (own k demo_key (ct_copies demo_catalog))))"
proof -
  note holds = cleanup_spares_protected[OF backup_run demo_ok backup_start(2), unfolded backup_start(1)]
  have "(demo_name Snapshot 1, 1) \<in> set (wd_unlinked (snd (demo_cleanup (Some ''t'') lock_later)))" by (simp only: demo_end(1) list.set_intros)
  from bspec[OF conjunct2[OF holds] this] show ?thesis using conjunct1[OF holds] by (simp only: case_prod_conv simp_thms)
qed

theorem cleanup_keeps_recovery_points_witness:
  "\<exists>s t l. {s, t, l} \<subseteq> set (ct_copies demo_catalog) \<and> s \<noteq> t \<and> cp_kind s = Snapshot \<and> cp_kind t = Snapshot \<and> cp_kind l = Ledger
     \<and> (\<forall>x\<in>{s, t, l}. intact demo_primitives (world_files (snd (demo_cleanup (Some ''t'') lock_later))) x)"
proof -
  have calm: "\<forall>f\<in>set (wd_future (demo_world lock_later)). calm N f" for N
    by (simp add: demo_world_def lock_later_def calm_def agree_def)
  have p: "policy_ok demo_policy" by (simp add: policy_ok_def demo_policy_def)
  have changed: "wd_unlinked (snd (demo_cleanup (Some ''t'') lock_later)) \<noteq> []" by (simp add: demo_end(1))
  obtain s t l where "{s, t, l} \<subseteq> set (own (scope_id demo_primitives ''w'' (fs_path (world_files (demo_world lock_later))) (''1'', ''2''))
        demo_key (ct_copies (wd_catalog (demo_world lock_later))))"
      and stl: "s \<noteq> t" "cp_kind s = Snapshot" "cp_kind t = Snapshot" "cp_kind l = Ledger"
        "\<forall>x\<in>{s, t, l}. intact demo_primitives (world_files (snd (demo_cleanup (Some ''t'') lock_later))) x"
    using cleanup_keeps_recovery_points[OF backup_run demo_ok p backup_start(2) changed backup_start(4) refl calm] by (elim exE conjE)
  then have "{s, t, l} \<subseteq> set (ct_copies demo_catalog)" unfolding backup_start(1) own_def by auto
  then show ?thesis using stl by (intro exI[of _ s] exI[of _ t] exI[of _ l] conjI)
qed

lemma demo_closes: "closes (demo_world lock_later)"
  by (simp add: closes_def demo_world_def lock_later_def)

theorem cleanup_report_is_true_witness:
  "\<exists>rep. wd_saved (snd (demo_cleanup (Some ''t'') lock_later)) = Some rep \<and> rp_deleted rep = 1
     \<and> length (wd_unlinked (snd (demo_cleanup (Some ''t'') lock_later))) = 1
     \<and> records (snd (demo_cleanup (Some ''t'') lock_later)) \<subseteq> records (demo_world lock_later)"
proof -
  obtain rep where rep: "wd_saved (snd (demo_cleanup (Some ''t'') lock_later)) = Some rep" "rp_deleted rep = 1"
    using demo_end(2) by auto
  note holds = cleanup_report_is_true[OF backup_run demo_ok backup_start(2,3)]
  have "rp_deleted rep = length (wd_unlinked (snd (demo_cleanup (Some ''t'') lock_later)))"
    using holds demo_closes rep(1) by blast
  then show ?thesis using holds rep by (intro exI[of _ rep]) simp
qed

text \<open>
  A file that was unlinked and whose directory then fails to close is counted as skipped, and its copy
  stays in the inventory.
\<close>

definition close_fails :: "(outside \<Rightarrow> outside) list" where
  "close_fails = [\<lambda>o'. o'\<lparr>ou_unclosed := True\<rparr>]"

lemma removal_can_be_uncounted:
  "(let v = snd (delete_copy demo_primitives demo_scope (''1'', ''2'') [] (demo_copy 1 Snapshot 1) (demo_world close_fails))
    in (wd_unlinked v, rp_deleted (wd_report v), rp_skipped (wd_report v), length (ct_copies (wd_catalog v))))
   = ([(demo_name Snapshot 1, 1)], 0, 1, 5)"
  by code_simp

theorem cleanup_follows_review_witness:
  "\<exists>pl protected candidates scoped. plan_of demo_primitives demo_token demo_files (Some demo_catalog) (Inr None, Inr None) ''w'' demo_key demo_policy
       = Inr (pl, protected, candidates, scoped)
     \<and> demo_name Snapshot 1 \<in> cp_name ` set candidates \<and> demo_name Snapshot 1 \<notin> cp_name ` set protected"
proof -
  obtain pl protected candidates scoped where
    plan: "plan_of demo_primitives demo_token demo_files (Some demo_catalog) (Inr None, Inr None) ''w'' demo_key demo_policy
       = Inr (pl, protected, candidates, scoped)" and token: "pl_token pl = ''t''"
    using demo_plan_token
    by (cases "plan_of demo_primitives demo_token demo_files (Some demo_catalog) (Inr None, Inr None) ''w'' demo_key demo_policy") auto
  have unique: "\<forall>x y. demo_token x = pl_token pl \<longrightarrow> demo_token y = pl_token pl \<longrightarrow> x = y"
    by (simp add: token demo_token_def)
  note holds = cleanup_follows_review[OF unique demo_ok plan backup_run[folded token] backup_start(2)]
  have "(demo_name Snapshot 1, 1) \<in> set (wd_unlinked (snd (demo_cleanup (Some ''t'') lock_later)))" by (simp only: demo_end(1) list.set_intros)
  from bspec[OF holds this[folded token]] show ?thesis using plan by (simp only: case_prod_conv) blast
qed

section \<open>A race\<close>

text \<open>The status that \<open>remove\<close> checks and the unlinking are two system calls: a file moved over the name in
  between is the one that is unlinked.\<close>

definition moved_over :: "outside \<Rightarrow> outside" where
  "moved_over o' = o'\<lparr>ou_files := (ou_files o')\<lparr>fs_dirs := (\<lambda>d n. if n = demo_name Snapshot 1 then Some 2 else fs_dirs (ou_files o') d n)\<rparr>\<rparr>"

lemma removal_can_race:
  "stat_in (''1'', ''2'') (demo_name Snapshot 1) demo_files = Inr (1, 1, 1, 0, 0)"
  "wd_unlinked (snd (remove (''1'', ''2'') (demo_name Snapshot 1) (1, 1, 1, 0, 0) (demo_world [\<lambda>o'. o', moved_over])))
     = [(demo_name Snapshot 1, 2)]"
  by code_simp+

end
