(* ===== verification/Journal_Folding.thy ===== *)
theory Journal_Folding
  imports Journal_Rollover "HOL-Library.List_Lexorder" "HOL-Library.Char_ord"
begin

text \<open>
  Filing of complete journals (\<open>journal/folding.py\<close>): day files older than a cutoff move intact into
  an archive beside the journal, after the Markdown notes of the memories they mention are current.
  Git is a parameter, as in \<open>Journal_Rollover\<close>: the rows of \<open>ls-tree\<close>, the content of an object, and
  the digest that names an object. The text of a note, the check of an existing note and the
  privacy scan (\<open>notes.py\<close>, \<open>privacy.py\<close>) are parameters too, and so is the catalog. A file is
  parsed before its records are checked; of two defects in one file the model may report the other.
  The lock around a run, the commit and the receipt file are not modelled.
\<close>

section \<open>The tree\<close>

record blob =
  bl_path :: string
  bl_oid :: string
  bl_size :: nat

datatype note_state = NoteActive | NoteForgotten | NoteQuarantined

record fold_env =
  fo_blob :: "string \<Rightarrow> string res"
  fo_hash :: "string \<Rightarrow> string \<Rightarrow> string"
  fo_decimal :: "nat \<Rightarrow> string"
  fo_render :: "entry \<Rightarrow> note_state \<Rightarrow> string res"
  fo_validate :: "string \<Rightarrow> uuid \<Rightarrow> unit res"
  fo_scan :: "entry \<Rightarrow> unit res"

record fold_destination =
  fd_prefix :: string
  fd_tenant :: uuid
  fd_space :: uuid
  fd_max_entries :: nat
  fd_max_bytes :: nat

definition notes_prefix :: "fold_destination \<Rightarrow> string" where
  "notes_prefix d = fd_prefix d @ ''-mnemion-notes''"

definition note_path :: "fold_destination \<Rightarrow> uuid \<Rightarrow> string" where
  "note_path d memory = notes_prefix d @ ''/'' @ uuid_text memory @ ''.md''"

definition note_name :: "string \<Rightarrow> bool" where
  "note_name name = (case uuid_of_text (take (length name - 3) name) of
       None \<Rightarrow> False
     | Some u \<Rightarrow> name = uuid_text u @ ''.md'')"

definition irregular :: error where
  "irregular = JournalError ''journal_path_is_not_a_regular_file''"

definition inventory_limit :: error where
  "inventory_limit = JournalError ''journal_inventory_limit''"

text \<open>Journal files count as \<open>Some True\<close>, notes as \<open>Some False\<close>; anything else is left untouched.\<close>

definition fold_target :: "fold_destination \<Rightarrow> string \<Rightarrow> bool option" where
  "fold_target d path =
     (if prefix (fd_prefix d @ ''/'') path \<and> ends_with path ''.jsonl'' then Some True
      else if prefix (notes_prefix d @ ''/'') path \<and> note_name (drop (length (notes_prefix d) + 1) path) then Some False
      else None)"

definition blob_of_row :: "tree_row \<Rightarrow> blob res" where
  "blob_of_row row =
     (case read_size (tr_size row) of
        None \<Rightarrow> Inl irregular
      | Some n \<Rightarrow>
          if tr_mode row \<noteq> ''100644'' \<or> tr_kind row \<noteq> ''blob'' \<or> n > MAX_FILE_BYTES \<or> \<not> oid_ok (tr_oid row)
          then Inl irregular
          else Inr \<lparr>bl_path = tr_path row, bl_oid = tr_oid row, bl_size = n\<rparr>)"

fun collect_blobs :: "fold_destination \<Rightarrow> tree_row list \<Rightarrow> blob list \<Rightarrow> blob list \<Rightarrow> (blob list \<times> blob list) res" where
  "collect_blobs d [] files views = Inr (files, views)"
| "collect_blobs d (row # rows) files views =
     (if tr_path row = fd_prefix d \<or> tr_path row = notes_prefix d
      then Inl (JournalError ''journal_path_is_not_a_directory'')
      else case fold_target d (tr_path row) of
        None \<Rightarrow> collect_blobs d rows files views
      | Some journal \<Rightarrow>
         (case blob_of_row row of
            Inl e \<Rightarrow> Inl e
          | Inr b \<Rightarrow>
              if length files + length views + 1 > 50000 then Inl inventory_limit
              else if journal then collect_blobs d rows (files @ [b]) views
              else collect_blobs d rows files (views @ [b])))"

definition fold_inventory :: "fold_destination \<Rightarrow> tree_row list \<Rightarrow> (blob list \<times> blob list) res" where
  "fold_inventory d rows =
     (case collect_blobs d rows [] [] of
        Inl e \<Rightarrow> Inl e
      | Inr (files, views) \<Rightarrow>
          if sum_list (map bl_size files) > 2 * 1024 ^ 3 then Inl inventory_limit else Inr (files, views))"

definition read_object :: "fold_env \<Rightarrow> blob \<Rightarrow> string res" where
  "read_object fo b =
     (case fo_blob fo (bl_oid b) of
        Inl e \<Rightarrow> Inl e
      | Inr data \<Rightarrow> if length data \<noteq> bl_size b then Inl (JournalError ''invalid_journal_git_object'') else Inr data)"

definition blob_at :: "blob list \<Rightarrow> string \<Rightarrow> blob option" where
  "blob_at bs path = List.find (\<lambda>b. bl_path b = path) bs"

text \<open>\<open>_day\<close>: the path below the prefix or below its archive, and what it names.\<close>

definition fold_relative :: "fold_destination \<Rightarrow> string \<Rightarrow> string" where
  "fold_relative d path = drop (length (fd_prefix d) + 1) path"

definition fold_day :: "fold_destination \<Rightarrow> string \<Rightarrow> (string \<times> (day \<times> uuid \<times> nat) \<times> bool) res" where
  "fold_day d path =
     (let below = fold_relative d path; archived = prefix ''_archive/'' below;
          relative = (if archived then drop 9 below else below) in
      case journal_path relative of Inl e \<Rightarrow> Inl e | Inr x \<Rightarrow> Inr (relative, x, archived))"

definition blob_matches :: "fold_env \<Rightarrow> blob option \<Rightarrow> string \<Rightarrow> bool" where
  "blob_matches fo b content =
     (case b of
        None \<Rightarrow> False
      | Some x \<Rightarrow> bl_size x = length content \<and>
          fo_hash fo (if length (bl_oid x) = 64 then ''sha256'' else ''sha1'')
            (''blob '' @ fo_decimal fo (length content) @ [CHR 0x00] @ content) = bl_oid x)"

section \<open>Reading the whole journal\<close>

record fold_reading =
  rd_eligible :: "blob list"
  rd_series :: "((day \<times> uuid) \<times> nat) list"
  rd_index :: jindex
  rd_old :: "origin list"

fun fold_entries :: "codec \<Rightarrow> fold_destination \<Rightarrow> string \<Rightarrow> string \<Rightarrow> bool \<Rightarrow> entry list \<Rightarrow> fold_reading \<Rightarrow> fold_reading res" where
  "fold_entries k d relative uri old [] s = Inr s"
| "fold_entries k d relative uri old (e # es) s =
     (if (e_tenant e, e_space e) \<noteq> (fd_tenant d, fd_space d) then Inl (JournalError ''journal_scope_mismatch'')
      else case matches_path e relative of
        Inl x \<Rightarrow> Inl x
      | Inr False \<Rightarrow> Inl mismatch
      | Inr True \<Rightarrow>
         (case ji_add k (rd_index s) (e, Some uri) of
            Inl x \<Rightarrow> Inl x
          | Inr i \<Rightarrow> fold_entries k d relative uri old es
              (s\<lparr>rd_index := i, rd_old := (if old then List.insert (entry_origin e) (rd_old s) else rd_old s)\<rparr>)))"

fun fold_files :: "codec \<Rightarrow> fold_destination \<Rightarrow> fold_env \<Rightarrow> nat \<Rightarrow> day \<Rightarrow> blob list \<Rightarrow> fold_reading \<Rightarrow> fold_reading res" where
  "fold_files k d fo version cutoff [] s = Inr s"
| "fold_files k d fo version cutoff (b # bs) s =
     (case read_object fo b of
        Inl x \<Rightarrow> Inl x
      | Inr data \<Rightarrow>
     (case fold_day d (bl_path b) of
        Inl x \<Rightarrow> Inl x
      | Inr (relative, (day, writer, part), archived) \<Rightarrow>
          if part \<noteq> 0 \<and> version < 2 then Inl (JournalError ''journal_catalog_layout_mismatch'')
          else (let old = day < cutoff;
                    s1 = s\<lparr>rd_series := rd_series s @ [((day, writer), part)],
                           rd_eligible := rd_eligible s @ (if old \<and> \<not> archived then [b] else [])\<rparr> in
     (case parse_file k MAX_FILE_BYTES data of
        Inl x \<Rightarrow> Inl x
      | Inr es \<Rightarrow>
     (case fold_entries k d relative (bl_path b) (old \<or> archived) es s1 of
        Inl x \<Rightarrow> Inl x
      | Inr s2 \<Rightarrow> fold_files k d fo version cutoff bs s2)))))"

definition series_complete :: "((day \<times> uuid) \<times> nat) list \<Rightarrow> bool" where
  "series_complete series \<longleftrightarrow> (\<forall>(key, part)\<in>set series. complete_series (map snd (filter (\<lambda>(k, p). k = key) series)))"

section \<open>Notes\<close>

datatype tree_update =
    Put string string
  | Link string string
  | Drop string

record fold_notes =
  ns_updates :: "tree_update list"
  ns_pending :: nat
  ns_written :: nat
  ns_notes :: nat

text \<open>Denials are considered before ordinary content.\<close>

definition note_rows :: "jindex \<Rightarrow> (origin \<times> latest_row) list" where
  "note_rows i = sort_key (\<lambda>(key, r). (\<not> (l_denied r \<or> l_action r \<noteq> Upsert), key)) (ji_latest i)"

definition note_state_of :: "latest_row \<Rightarrow> entry \<Rightarrow> note_state" where
  "note_state_of r e = (if l_denied r then NoteForgotten else if e_action e = Quarantine then NoteQuarantined else NoteActive)"

definition note_step :: "codec \<Rightarrow> fold_destination \<Rightarrow> fold_env \<Rightarrow> blob list \<Rightarrow> origin list
    \<Rightarrow> fold_notes \<Rightarrow> origin \<times> latest_row \<Rightarrow> fold_notes res" where
  "note_step k d fo views olds s row = (case row of (key, r) \<Rightarrow>
     (case parse_line k (l_line r) of
        Inl x \<Rightarrow> Inl x
      | Inr e \<Rightarrow>
     (let path = note_path d (e_memory e); previous = blob_at views path in
      if key \<notin> set olds \<and> previous = None then Inr s
      else case fo_render fo e (note_state_of r e) of
        Inl x \<Rightarrow> Inl x
      | Inr content \<Rightarrow>
          if blob_matches fo previous content then Inr s
          else if ns_notes s \<ge> fd_max_entries d \<or> ns_written s + length content > fd_max_bytes d
          then Inr (s\<lparr>ns_pending := ns_pending s + 1\<rparr>)
          else
     (case (case previous of
              None \<Rightarrow> Inr ()
            | Some b \<Rightarrow> (case read_object fo b of Inl x \<Rightarrow> Inl x | Inr data \<Rightarrow> fo_validate fo data (e_memory e))) of
        Inl x \<Rightarrow> Inl x
      | Inr _ \<Rightarrow>
     (case (if note_state_of r e = NoteActive then fo_scan fo e else Inr ()) of
        Inl x \<Rightarrow> Inl x
      | Inr _ \<Rightarrow> Inr (s\<lparr>ns_updates := ns_updates s @ [Put path content], ns_notes := ns_notes s + 1,
                         ns_written := ns_written s + length content\<rparr>))))))"

section \<open>Archiving\<close>

record fold_archive =
  fa_updates :: "tree_update list"
  fa_written :: nat
  fa_files :: nat
  fa_bytes :: nat

definition contains :: "string \<Rightarrow> string \<Rightarrow> bool" where
  "contains text part \<longleftrightarrow> sublist part text"

definition archive_path :: "fold_destination \<Rightarrow> string \<Rightarrow> string" where
  "archive_path d path = fd_prefix d @ ''/_archive/'' @ fold_relative d path"

definition archive_step :: "fold_destination \<Rightarrow> fold_env \<Rightarrow> blob list \<Rightarrow> fold_archive \<Rightarrow> blob \<Rightarrow> fold_archive res" where
  "archive_step d fo files s b =
     (let target = archive_path d (bl_path b);
          moved = (\<lambda>s. s\<lparr>fa_updates := fa_updates s @ [Drop (bl_path b)], fa_files := fa_files s + 1, fa_bytes := fa_bytes s + bl_size b\<rparr>) in
      case blob_at files target of
        None \<Rightarrow> Inr (moved (s\<lparr>fa_updates := fa_updates s @ [Link target (bl_oid b)]\<rparr>))
      | Some previous \<Rightarrow>
     (case read_object fo previous of
        Inl x \<Rightarrow> Inl x
      | Inr before \<Rightarrow>
     (case read_object fo b of
        Inl x \<Rightarrow> Inl x
      | Inr addition \<Rightarrow>
          if prefix addition before \<or> contains before (newline # addition) then Inr (moved s)
          else if length before + length addition > MAX_FILE_BYTES then Inl (JournalError ''journal_file_too_large'')
          else if fa_written s + length addition > fd_max_bytes d then Inr s
          else Inr (moved (s\<lparr>fa_updates := fa_updates s @ [Put target (before @ addition)],
                              fa_written := fa_written s + length addition\<rparr>)))))"

record fold_report =
  fp_notes :: nat
  fp_archived_files :: nat
  fp_archived_bytes :: nat
  fp_pending_notes :: nat
  fp_pending_files :: nat
  fp_read_bytes :: nat
  fp_written_bytes :: nat
  fp_index :: index_report

definition archive_all :: "fold_destination \<Rightarrow> fold_env \<Rightarrow> blob list \<Rightarrow> fold_notes \<Rightarrow> blob list \<Rightarrow> fold_archive res" where
  "archive_all d fo files n eligible =
     (let s = \<lparr>fa_updates = ns_updates n, fa_written = ns_written n, fa_files = 0, fa_bytes = 0\<rparr> in
      if ns_pending n \<noteq> 0 then Inr s
      else run_events (archive_step d fo files) s (take (fd_max_entries d) (sort_key bl_path eligible)))"

text \<open>The catalog gives its schema version and its number of records.\<close>

definition fold_plan :: "codec \<Rightarrow> fold_destination \<Rightarrow> fold_env \<Rightarrow> jindex \<Rightarrow> (nat \<times> nat) res \<Rightarrow> day \<Rightarrow> tree_row list
    \<Rightarrow> (tree_update list \<times> fold_report) res" where
  "fold_plan k d fo i catalog cutoff rows =
     (case fold_inventory d rows of
        Inl x \<Rightarrow> Inl x
      | Inr (files, views) \<Rightarrow>
     (case catalog of
        Inl x \<Rightarrow> Inl x
      | Inr (version, records) \<Rightarrow>
     (case fold_files k d fo version cutoff files \<lparr>rd_eligible = [], rd_series = [], rd_index = i, rd_old = []\<rparr> of
        Inl x \<Rightarrow> Inl x
      | Inr s \<Rightarrow>
          if \<not> series_complete (rd_series s) then Inl (JournalError ''journal_incomplete_series'')
          else if ji_records (rd_index s) \<noteq> records then Inl (JournalError ''journal_incomplete_inventory'')
          else
     (case run_events (note_step k d fo views (rd_old s)) \<lparr>ns_updates = [], ns_pending = 0, ns_written = 0, ns_notes = 0\<rparr>
             (note_rows (rd_index s)) of
        Inl x \<Rightarrow> Inl x
      | Inr n \<Rightarrow>
     (case archive_all d fo files n (rd_eligible s) of
        Inl x \<Rightarrow> Inl x
      | Inr a \<Rightarrow> Inr (fa_updates a, \<lparr>fp_notes = ns_notes n, fp_archived_files = fa_files a, fp_archived_bytes = fa_bytes a,
          fp_pending_notes = ns_pending n, fp_pending_files = length (rd_eligible s) - fa_files a,
          fp_read_bytes = sum_list (map bl_size files), fp_written_bytes = fa_written a,
          fp_index = ji_describe (rd_index s)\<rparr>))))))"

section \<open>Attempts\<close>

text \<open>
  What one attempt meets: the fetched head (\<open>None\<close> where the branch does not exist yet), the checks of the
  head, the caller's hook before the push, and the push: taken, overtaken by another writer, or failed.
\<close>

record fold_remote =
  fr_fetch :: "tree_row list option res"
  fr_env :: fold_env
  fr_protected :: "unit res"
  fr_catalog :: "(nat \<times> nat) res"
  fr_before :: "unit res"
  fr_push :: "bool res"

definition fold_push :: "fold_remote \<Rightarrow> tree_update list \<Rightarrow> bool res" where
  "fold_push r updates =
     (case fr_before r of
        Inl x \<Rightarrow> Inl x
      | Inr _ \<Rightarrow> if updates = [] then Inr True else fr_push r)"

fun fold_attempts :: "codec \<Rightarrow> fold_destination \<Rightarrow> jindex \<Rightarrow> day \<Rightarrow> fold_remote list \<Rightarrow> (tree_update list \<times> fold_report) option res" where
  "fold_attempts k d i cutoff [] = Inl (JournalError ''journal_push_rejected'')"
| "fold_attempts k d i cutoff (r # rs) =
     (case fr_fetch r of
        Inl x \<Rightarrow> Inl x
      | Inr None \<Rightarrow> (case fr_before r of Inl x \<Rightarrow> Inl x | Inr _ \<Rightarrow> Inr None)
      | Inr (Some rows) \<Rightarrow>
     (case fr_protected r of
        Inl x \<Rightarrow> Inl x
      | Inr _ \<Rightarrow>
     (case fold_plan k d (fr_env r) i (fr_catalog r) cutoff rows of
        Inl x \<Rightarrow> Inl x
      | Inr (updates, report) \<Rightarrow>
     (case fold_push r updates of
        Inl x \<Rightarrow> Inl x
      | Inr True \<Rightarrow> Inr (Some (updates, report))
      | Inr False \<Rightarrow> fold_attempts k d i cutoff rs))))"

definition fold_journal :: "codec \<Rightarrow> fold_destination \<Rightarrow> jindex \<Rightarrow> (time \<Rightarrow> day) \<Rightarrow> nat \<Rightarrow> time \<Rightarrow> fold_remote list
    \<Rightarrow> (tree_update list \<times> fold_report) option res" where
  "fold_journal k d i date hours now remotes =
     (if hours < 24 \<or> hours > 8760 then Inl ValueError
      else fold_attempts k d i (date (now - 3600000000 * int hours)) (take 3 remotes))"

end
