(* ===== verification/Folding_Properties.thy ===== *)
theory Folding_Properties
  imports Journal_Folding
begin

text \<open>
  Filing loses nothing: after the updates of a plan the journal and its archive hold exactly the lines
  they held before, and no file moves before the notes it calls for are current.
\<close>

section \<open>Lines of a tree\<close>

type_synonym tree = "string \<Rightarrow> string option"

text \<open>\<open>git update-index\<close> with one row of an index description.\<close>

fun apply_update :: "fold_env \<Rightarrow> tree_update \<Rightarrow> tree \<Rightarrow> tree" where
  "apply_update fo (Put path content) t = t(path \<mapsto> content)"
| "apply_update fo (Link path oid) t = (case fo_blob fo oid of Inl _ \<Rightarrow> t | Inr content \<Rightarrow> t(path \<mapsto> content))"
| "apply_update fo (Drop path) t = t(path := None)"

definition apply_updates :: "fold_env \<Rightarrow> tree_update list \<Rightarrow> tree \<Rightarrow> tree" where
  "apply_updates fo us t = List.fold (apply_update fo) us t"

definition text_lines :: "string \<Rightarrow> string list" where
  "text_lines s = butlast (split_on newline s)"

definition lines_at :: "tree \<Rightarrow> string \<Rightarrow> string set" where
  "lines_at t path = (case t path of None \<Rightarrow> {} | Some c \<Rightarrow> set (text_lines c))"

definition journal_name :: "fold_destination \<Rightarrow> string \<Rightarrow> bool" where
  "journal_name d path \<longleftrightarrow> prefix (fd_prefix d @ ''/'') path \<and> ends_with path ''.jsonl''"

definition journal_lines :: "fold_destination \<Rightarrow> tree \<Rightarrow> string set" where
  "journal_lines d t = (\<Union>path\<in>{path. journal_name d path}. lines_at t path)"

text \<open>The tree that a listing describes.\<close>

definition tree_of :: "fold_env \<Rightarrow> tree_row list \<Rightarrow> tree" where
  "tree_of fo rows path = (case List.find (\<lambda>r. tr_path r = path) rows of
       None \<Rightarrow> None
     | Some r \<Rightarrow> (case fo_blob fo (tr_oid r) of Inl _ \<Rightarrow> None | Inr c \<Rightarrow> Some c))"

lemma split_on_nonempty [simp]: "split_on c xs \<noteq> []"
  by (induction xs) (auto split: list.splits)

lemma split_on_append: "split_on c (xs @ c # ys) = split_on c xs @ split_on c ys"
proof (induction xs)
  case (Cons x xs)
  then show ?case by (cases "split_on c xs") (auto split: list.splits)
qed simp

lemma text_lines_Nil [simp]: "text_lines [] = []"
  by (simp add: text_lines_def)

lemma text_lines_append:
  assumes "xs = [] \<or> last xs = newline"
  shows "text_lines (xs @ ys) = text_lines xs @ text_lines ys"
proof (cases "xs = []")
  case False
  then obtain zs where xs: "xs = zs @ [newline]" using assms by (metis append_butlast_last_id)
  have "split_on newline (xs @ ys) = split_on newline zs @ split_on newline ys"
    using split_on_append[of newline zs ys] by (simp add: xs)
  moreover have "split_on newline xs = split_on newline zs @ [[]]"
    using split_on_append[of newline zs "[]"] by (simp add: xs)
  ultimately show ?thesis by (simp add: text_lines_def butlast_append)
qed simp

lemma text_lines_prefix:
  assumes "prefix ys xs" "ys = [] \<or> last ys = newline"
  shows "set (text_lines ys) \<subseteq> set (text_lines xs)"
  using assms by (auto simp: prefix_def text_lines_append)

lemma text_lines_contained:
  assumes "contains xs (newline # ys)" "ys = [] \<or> last ys = newline"
  shows "set (text_lines ys) \<subseteq> set (text_lines xs)"
proof -
  obtain a b where "xs = a @ (newline # ys) @ b" using assms(1) by (auto simp: contains_def sublist_def)
  then have "xs = (a @ [newline]) @ ys @ b" by simp
  then have "text_lines xs = text_lines (a @ [newline]) @ text_lines ys @ text_lines b"
    using text_lines_append[of "a @ [newline]" "ys @ b"] text_lines_append[OF assms(2), of b] by simp
  then show ?thesis by auto
qed

text \<open>Moving the lines of one journal file into another.\<close>

lemma journal_lines_move:
  assumes "journal_name d p" "journal_name d q" "p \<noteq> q" "set (text_lines c) = lines_at t q \<union> lines_at t p"
  shows "journal_lines d (t(q \<mapsto> c, p := None)) = journal_lines d t"
proof -
  have "lines_at (t(q \<mapsto> c, p := None)) path = (if path = p then {} else if path = q then lines_at t q \<union> lines_at t p else lines_at t path)" for path
    using assms(3,4) by (simp add: lines_at_def)
  then show ?thesis using assms(1-3) unfolding journal_lines_def by (auto split: if_splits)
qed

lemma journal_lines_forget:
  assumes "journal_name d q" "p \<noteq> q" "lines_at t p \<subseteq> lines_at t q"
  shows "journal_lines d (t(p := None)) = journal_lines d t"
proof -
  have "lines_at (t(p := None)) path = (if path = p then {} else lines_at t path)" for path by (simp add: lines_at_def)
  then show ?thesis using assms unfolding journal_lines_def by (auto split: if_splits)
qed

lemma journal_lines_other: "\<not> journal_name d p \<Longrightarrow> journal_lines d (t(p := x)) = journal_lines d t"
  unfolding journal_lines_def lines_at_def by (auto split: if_splits)

section \<open>What a plan has read\<close>

lemma ends_with_append: "ends_with (xs @ ys) ys"
  by (simp add: ends_with_def)

lemma journal_path_ends: "journal_path v = Inr (day, w, n) \<Longrightarrow> ends_with v ''.jsonl''"
  using journal_path_canonical[of v day w n] ends_with_append
  by (auto simp: part_name_def simp del: digits_of.simps) (metis append_assoc append_Cons)+

lemma fold_files_read:
  "fold_files k d fo version cutoff bs s = Inr s' \<Longrightarrow>
     (\<forall>b\<in>set bs. \<exists>data. read_object fo b = Inr data \<and> (data = [] \<or> last data = newline))
     \<and> (\<exists>more. rd_eligible s' = rd_eligible s @ more \<and> subseq more bs
          \<and> (\<forall>b\<in>set more. \<not> prefix ''_archive/'' (fold_relative d (bl_path b)) \<and> ends_with (fold_relative d (bl_path b)) ''.jsonl''))"
proof (induction bs arbitrary: s)
  case (Cons b bs)
  obtain data relative day writer part archived es s2 where
    r: "read_object fo b = Inr data" "fold_day d (bl_path b) = Inr (relative, (day, writer, part), archived)"
      "parse_file k MAX_FILE_BYTES data = Inr es"
      "fold_entries k d relative (bl_path b) (day < cutoff \<or> archived) es (s\<lparr>rd_series := rd_series s @ [((day, writer), part)],
           rd_eligible := rd_eligible s @ (if day < cutoff \<and> \<not> archived then [b] else [])\<rparr>) = Inr s2"
      "fold_files k d fo version cutoff bs s2 = Inr s'"
    using Cons.prems by (auto simp: Let_def split: sum.splits prod.splits if_splits)
  have kept: "rd_eligible s2 = rd_eligible s @ (if day < cutoff \<and> \<not> archived then [b] else [])"
  proof -
    have "fold_entries k d relative uri old es u = Inr v \<Longrightarrow> rd_eligible v = rd_eligible u" for uri old es u v
      by (induction k d relative uri old es u rule: fold_entries.induct) (auto split: sum.splits if_splits bool.splits)
    from this[OF r(4)] show ?thesis by simp
  qed
  have "archived = prefix ''_archive/'' (fold_relative d (bl_path b))"
      "\<not> archived \<longrightarrow> journal_path (fold_relative d (bl_path b)) = Inr (day, writer, part)"
    using r(2) by (auto simp: fold_day_def Let_def split: sum.splits)
  then have "archived = prefix ''_archive/'' (fold_relative d (bl_path b))"
      "\<not> archived \<longrightarrow> ends_with (fold_relative d (bl_path b)) ''.jsonl''"
    using journal_path_ends by blast+
  then show ?case using Cons.IH[OF r(5)] r(1) parse_file_no_partial_line[OF r(3)] kept
    by (auto split: if_splits intro: exI)
qed simp

lemma collect_blobs_sound:
  "collect_blobs d rows fs vs = Inr (fs', vs') \<Longrightarrow> \<exists>more. fs' = fs @ more \<and>
     map (\<lambda>b. (bl_path b, bl_oid b)) more = map (\<lambda>r. (tr_path r, tr_oid r)) (filter (\<lambda>r. journal_name d (tr_path r)) rows)"
proof (induction rows arbitrary: fs vs)
  case (Cons row rows)
  show ?case
  proof (cases "fold_target d (tr_path row)")
    case None
    then have "\<not> journal_name d (tr_path row)" by (auto simp: fold_target_def journal_name_def split: if_splits)
    then show ?thesis using Cons None by (auto split: if_splits)
  next
    case (Some journal)
    then have j: "journal = journal_name d (tr_path row)" by (auto simp: fold_target_def journal_name_def split: if_splits)
    obtain b where b: "blob_of_row row = Inr b" using Cons.prems Some by (auto split: if_splits sum.splits)
    then have ids: "bl_path b = tr_path row \<and> bl_oid b = tr_oid row"
      by (auto simp: blob_of_row_def split: option.splits if_splits)
    have "collect_blobs d rows (if journal then fs @ [b] else fs) (if journal then vs else vs @ [b]) = Inr (fs', vs')"
      using Cons.prems Some b by (auto split: if_splits)
    from Cons.IH[OF this] show ?thesis using j ids by (auto split: if_splits)
  qed
qed simp

text \<open>Every journal file of the listing, with its content in the tree.\<close>

lemma files_in_tree:
  assumes "fold_inventory d rows = Inr (files, views)" "distinct (map tr_path rows)"
  shows "distinct (map bl_path files)"
    and "b \<in> set files \<Longrightarrow> read_object fo b = Inr data \<Longrightarrow> journal_name d (bl_path b) \<and> tree_of fo rows (bl_path b) = Some data"
    and "blob_at files path = None \<Longrightarrow> journal_name d path \<Longrightarrow> tree_of fo rows path = None"
proof -
  have "collect_blobs d rows [] [] = Inr (files, views)"
    using assms(1) by (auto simp: fold_inventory_def split: sum.splits prod.splits if_splits)
  from collect_blobs_sound[OF this] have m: "map (\<lambda>b. (bl_path b, bl_oid b)) files
      = map (\<lambda>r. (tr_path r, tr_oid r)) (filter (\<lambda>r. journal_name d (tr_path r)) rows)" by auto
  have paths: "map bl_path files = map tr_path (filter (\<lambda>r. journal_name d (tr_path r)) rows)"
    using arg_cong[OF m, of "map fst"] by (simp add: comp_def)
  then show "distinct (map bl_path files)" using assms(2) by (simp add: distinct_map_filter)
  show "journal_name d (bl_path b) \<and> tree_of fo rows (bl_path b) = Some data"
    if b: "b \<in> set files" "read_object fo b = Inr data"
  proof -
    have "(bl_path b, bl_oid b) \<in> set (map (\<lambda>r. (tr_path r, tr_oid r)) (filter (\<lambda>r. journal_name d (tr_path r)) rows))"
      unfolding m[symmetric] using b(1) by auto
    then obtain r where r: "r \<in> set rows" "tr_path r = bl_path b" "tr_oid r = bl_oid b" "journal_name d (tr_path r)" by auto
    obtain q where q: "List.find (\<lambda>x. tr_path x = bl_path b) rows = Some q"
      using r(1,2) by (cases "List.find (\<lambda>x. tr_path x = bl_path b) rows") (auto simp: find_None_iff)
    then have "q \<in> set rows" "tr_path q = bl_path b" by (auto simp: find_Some_iff)
    then have "q = r" using assms(2) r(1,2) by (auto simp: distinct_map inj_on_def)
    then show ?thesis using q r b(2) by (auto simp: tree_of_def read_object_def split: sum.splits if_splits)
  qed
  show "tree_of fo rows path = None" if none: "blob_at files path = None" "journal_name d path"
  proof -
    have "path \<notin> set (map bl_path files)" using none(1) by (auto simp: blob_at_def find_None_iff)
    then have "\<forall>r\<in>set rows. tr_path r \<noteq> path" unfolding paths using none(2) by auto
    then have "List.find (\<lambda>r. tr_path r = path) rows = None" by (simp add: find_None_iff)
    then show ?thesis by (simp add: tree_of_def)
  qed
qed

lemma apply_updates_append: "apply_updates fo (us @ vs) t = apply_updates fo vs (apply_updates fo us t)"
  by (simp add: apply_updates_def)

section \<open>Archiving moves lines\<close>

text \<open>A day file that may move, below the prefix and outside the archive.\<close>

definition movable :: "fold_destination \<Rightarrow> blob list \<Rightarrow> blob \<Rightarrow> bool" where
  "movable d files b \<longleftrightarrow> b \<in> set files \<and> \<not> prefix ''_archive/'' (fold_relative d (bl_path b))
     \<and> ends_with (fold_relative d (bl_path b)) ''.jsonl'' \<and> journal_name d (bl_path b)"

lemma movable_path: "movable d files b \<Longrightarrow> bl_path b = fd_prefix d @ ''/'' @ fold_relative d (bl_path b)"
  by (auto simp: movable_def journal_name_def fold_relative_def prefix_def)

lemma archive_relative: "fold_relative d (archive_path d path) = ''_archive/'' @ fold_relative d path"
  by (simp add: archive_path_def fold_relative_def)

lemma ends_with_split: "ends_with s t \<Longrightarrow> \<exists>u. s = u @ t"
  unfolding ends_with_def by (metis append_take_drop_id)

lemma archive_named:
  assumes "movable d files b"
  shows "journal_name d (archive_path d (bl_path b))"
proof -
  obtain u where u: "fold_relative d (bl_path b) = u @ ''.jsonl''"
    using assms ends_with_split by (auto simp: movable_def simp del: append_Cons)
  have "archive_path d (bl_path b) = (fd_prefix d @ ''/_archive/'' @ u) @ ''.jsonl''"
    unfolding archive_path_def u by simp
  then show ?thesis
    unfolding journal_name_def using ends_with_append[of "fd_prefix d @ ''/_archive/'' @ u" "''.jsonl''"]
    by (simp only: append_assoc) (simp add: prefix_def)
qed

lemma archive_not_movable: "movable d files c \<Longrightarrow> archive_path d path \<noteq> bl_path c"
  using archive_relative[of d path] by (metis movable_def prefixI)

lemma archive_distinct:
  assumes "movable d files b" "movable d files c" "bl_path b \<noteq> bl_path c"
  shows "archive_path d (bl_path b) \<noteq> archive_path d (bl_path c)"
proof
  assume "archive_path d (bl_path b) = archive_path d (bl_path c)"
  then have "fold_relative d (bl_path b) = fold_relative d (bl_path c)" unfolding archive_path_def by simp
  then show False using assms(3) movable_path[OF assms(1)] movable_path[OF assms(2)] by simp
qed

lemma archive_step_lines:
  assumes files: "fold_inventory d rows = Inr (files, views)" "distinct (map tr_path rows)"
    and readable: "\<forall>b\<in>set files. \<exists>data. read_object fo b = Inr data \<and> (data = [] \<or> last data = newline)"
    and b: "movable d files b" and step: "archive_step d fo files s b = Inr s'"
    and t: "t (bl_path b) = tree_of fo rows (bl_path b)" "t (archive_path d (bl_path b)) = tree_of fo rows (archive_path d (bl_path b))"
  shows "\<exists>us. fa_updates s' = fa_updates s @ us \<and> journal_lines d (apply_updates fo us t) = journal_lines d t
    \<and> (\<forall>p. p \<noteq> bl_path b \<longrightarrow> p \<noteq> archive_path d (bl_path b) \<longrightarrow> apply_updates fo us t p = t p)"
proof -
  let ?p = "bl_path b" and ?q = "archive_path d (bl_path b)"
  have names: "journal_name d ?p" "journal_name d ?q" "?p \<noteq> ?q"
    using b archive_named[OF b] archive_not_movable[OF b, of ?p] by (auto simp: movable_def)
  obtain addition where a: "read_object fo b = Inr addition" "addition = [] \<or> last addition = newline"
    using readable b by (auto simp: movable_def)
  have tp: "t ?p = Some addition" using files_in_tree(2)[OF files _ a(1)] b t(1) by (simp add: movable_def)
  show ?thesis
  proof (cases "blob_at files ?q")
    case None
    then have tq: "t ?q = None" using files_in_tree(3)[OF files None names(2)] t(2) by simp
    have up: "fa_updates s' = fa_updates s @ [Link ?q (bl_oid b), Drop ?p]"
      using step None by (auto simp: archive_step_def Let_def)
    have ap: "apply_updates fo [Link ?q (bl_oid b), Drop ?p] t = t(?q \<mapsto> addition, ?p := None)"
      using a(1) by (auto simp: apply_updates_def read_object_def split: sum.splits if_splits)
    have "journal_lines d (t(?q \<mapsto> addition, ?p := None)) = journal_lines d t"
      by (rule journal_lines_move[OF names]) (simp add: lines_at_def tp tq)
    then show ?thesis using up ap by (intro exI[of _ "[Link ?q (bl_oid b), Drop ?p]"]) simp
  next
    case (Some previous)
    then have pr: "previous \<in> set files" "bl_path previous = ?q" by (auto simp: blob_at_def find_Some_iff)
    obtain before where before: "read_object fo previous = Inr before" "before = [] \<or> last before = newline"
      using readable pr(1) by blast
    have tq: "t ?q = Some before" using files_in_tree(2)[OF files pr(1) before(1)] pr(2) t(2) by simp
    consider (inside) "prefix addition before \<or> contains before (newline # addition)" "fa_updates s' = fa_updates s @ [Drop ?p]"
      | (later) "s' = s"
      | (joined) "fa_updates s' = fa_updates s @ [Put ?q (before @ addition), Drop ?p]"
      using step Some before(1) a(1) by (auto simp: archive_step_def Let_def split: if_splits)
    then show ?thesis
    proof cases
      case inside
      have "set (text_lines addition) \<subseteq> set (text_lines before)"
        using inside(1) text_lines_prefix text_lines_contained a(2) by blast
      then have "journal_lines d (t(?p := None)) = journal_lines d t"
        by (intro journal_lines_forget[OF names(2,3)]) (simp add: lines_at_def tp tq)
      then show ?thesis using inside(2) by (intro exI[of _ "[Drop ?p]"]) (simp add: apply_updates_def)
    next
      case later
      then show ?thesis by (intro exI[of _ "[]"]) (simp add: apply_updates_def)
    next
      case joined
      have "journal_lines d (t(?q \<mapsto> before @ addition, ?p := None)) = journal_lines d t"
        by (rule journal_lines_move[OF names]) (simp add: lines_at_def tp tq text_lines_append[OF before(2)])
      then show ?thesis using joined by (intro exI[of _ "[Put ?q (before @ addition), Drop ?p]"]) (simp add: apply_updates_def)
    qed
  qed
qed

lemma archive_run_lines:
  assumes files: "fold_inventory d rows = Inr (files, views)" "distinct (map tr_path rows)"
    and readable: "\<forall>b\<in>set files. \<exists>data. read_object fo b = Inr data \<and> (data = [] \<or> last data = newline)"
  shows "run_events (archive_step d fo files) s bs = Inr s' \<Longrightarrow> \<forall>b\<in>set bs. movable d files b \<Longrightarrow> distinct (map bl_path bs) \<Longrightarrow>
    \<forall>b\<in>set bs. t (bl_path b) = tree_of fo rows (bl_path b) \<and> t (archive_path d (bl_path b)) = tree_of fo rows (archive_path d (bl_path b)) \<Longrightarrow>
    \<exists>us. fa_updates s' = fa_updates s @ us \<and> journal_lines d (apply_updates fo us t) = journal_lines d t"
proof (induction bs arbitrary: s t)
  case Nil
  then show ?case by (intro exI[of _ "[]"]) (simp add: apply_updates_def)
next
  case (Cons b bs)
  obtain s1 where s1: "archive_step d fo files s b = Inr s1" "run_events (archive_step d fo files) s1 bs = Inr s'"
    using Cons.prems(1) by (auto split: sum.splits)
  obtain us where us: "fa_updates s1 = fa_updates s @ us" "journal_lines d (apply_updates fo us t) = journal_lines d t"
      "\<forall>p. p \<noteq> bl_path b \<longrightarrow> p \<noteq> archive_path d (bl_path b) \<longrightarrow> apply_updates fo us t p = t p"
    using archive_step_lines[OF files readable _ s1(1), of t] Cons.prems(2,4) by auto
  have apart: "bl_path c \<noteq> bl_path b" "bl_path c \<noteq> archive_path d (bl_path b)" "archive_path d (bl_path c) \<noteq> bl_path b"
      "archive_path d (bl_path c) \<noteq> archive_path d (bl_path b)" if "c \<in> set bs" for c
  proof -
    have m: "movable d files b" "movable d files c" using that Cons.prems(2) by auto
    show paths: "bl_path c \<noteq> bl_path b" using that Cons.prems(3) by (auto simp: image_iff)
    show "bl_path c \<noteq> archive_path d (bl_path b)" using archive_not_movable[OF m(2)] by metis
    show "archive_path d (bl_path c) \<noteq> bl_path b" by (rule archive_not_movable[OF m(1)])
    show "archive_path d (bl_path c) \<noteq> archive_path d (bl_path b)" by (rule archive_distinct[OF m(2,1) paths])
  qed
  have "\<forall>c\<in>set bs. apply_updates fo us t (bl_path c) = tree_of fo rows (bl_path c)
      \<and> apply_updates fo us t (archive_path d (bl_path c)) = tree_of fo rows (archive_path d (bl_path c))"
    using us(3) apart Cons.prems(4) by auto
  from Cons.IH[OF s1(2) _ _ this] obtain vs where "fa_updates s' = fa_updates s1 @ vs"
      "journal_lines d (apply_updates fo vs (apply_updates fo us t)) = journal_lines d (apply_updates fo us t)"
    using Cons.prems(2,3) by auto
  then show ?case using us(1,2) by (intro exI[of _ "us @ vs"]) (simp add: apply_updates_append)
qed

section \<open>Notes stand apart\<close>

definition note_put :: "fold_destination \<Rightarrow> tree_update \<Rightarrow> bool" where
  "note_put d u \<longleftrightarrow> (\<exists>m c. u = Put (note_path d m) c)"

lemma note_not_journal: "\<not> journal_name d (note_path d m)"
  by (auto simp: journal_name_def note_path_def notes_prefix_def prefix_def)

lemma note_put_path [intro]: "note_put d (Put (note_path d m) c)"
  unfolding note_put_def by blast

lemma note_step_puts:
  "\<forall>u\<in>set (ns_updates s). note_put d u \<Longrightarrow> note_step k d fo views olds s row = Inr s' \<Longrightarrow> \<forall>u\<in>set (ns_updates s'). note_put d u"
  by (auto simp: note_step_def Let_def split: sum.splits prod.splits if_splits option.splits)

interpretation noting: event_machine "note_step k d fo views olds" "\<lambda>s. \<forall>u\<in>set (ns_updates s). note_put d u" for k d fo views olds
  by unfold_locales (rule note_step_puts)

lemma notes_apart: "\<forall>u\<in>set us. note_put d u \<Longrightarrow> journal_name d p \<Longrightarrow> apply_updates fo us t p = t p"
proof (induction us arbitrary: t)
  case (Cons u us)
  obtain m c where u: "u = Put (note_path d m) c" using Cons.prems(1) by (auto simp: note_put_def)
  have "p \<noteq> note_path d m" using Cons.prems(2) note_not_journal by metis
  then show ?case using Cons u by (simp add: apply_updates_def)
qed (simp add: apply_updates_def)

lemma notes_lines: "\<forall>u\<in>set us. note_put d u \<Longrightarrow> journal_lines d (apply_updates fo us t) = journal_lines d t"
  using notes_apart unfolding journal_lines_def lines_at_def by (intro SUP_cong) simp_all

section \<open>A whole plan\<close>

text \<open>The stages that a plan has passed.\<close>

definition empty_reading :: "jindex \<Rightarrow> fold_reading" where
  "empty_reading i = \<lparr>rd_eligible = [], rd_series = [], rd_index = i, rd_old = []\<rparr>"

definition empty_notes :: fold_notes where
  "empty_notes = \<lparr>ns_updates = [], ns_pending = 0, ns_written = 0, ns_notes = 0\<rparr>"

lemma fold_plan_stages:
  assumes "fold_plan k d fo i catalog cutoff rows = Inr (ups, rep)"
  obtains files views version s n a where
    "fold_inventory d rows = Inr (files, views)"
    "fold_files k d fo version cutoff files (empty_reading i) = Inr s"
    "catalog = Inr (version, ji_records (rd_index s))" "series_complete (rd_series s)"
    "run_events (note_step k d fo views (rd_old s)) empty_notes (note_rows (rd_index s)) = Inr n"
    "archive_all d fo files n (rd_eligible s) = Inr a"
    "ups = fa_updates a" "fp_notes rep = ns_notes n" "fp_pending_notes rep = ns_pending n" "fp_archived_files rep = fa_files a"
    "fp_pending_files rep = length (rd_eligible s) - fa_files a" "fp_written_bytes rep = fa_written a"
  using assms that unfolding fold_plan_def empty_reading_def empty_notes_def
  by (auto simp del: run_events.simps split: sum.splits prod.splits if_splits)

text \<open>What the archiving stage starts from: the day files that may move, in the order of their paths.\<close>

definition to_archive :: "fold_destination \<Rightarrow> blob list \<Rightarrow> blob list" where
  "to_archive d eligible = take (fd_max_entries d) (sort_key bl_path eligible)"

lemma to_archive_subset: "set (to_archive d bs) \<subseteq> set bs"
  unfolding to_archive_def using set_take_subset[of "fd_max_entries d" "sort_key bl_path bs"] by simp

lemma to_archive_distinct: "distinct (map bl_path bs) \<Longrightarrow> distinct (map bl_path (to_archive d bs))"
proof -
  assume "distinct (map bl_path bs)"
  moreover have "mset (map bl_path (sort_key bl_path bs)) = mset (map bl_path bs)" by simp
  ultimately have "distinct (map bl_path (sort_key bl_path bs))" by (metis mset_eq_imp_distinct_iff)
  then show ?thesis by (simp add: to_archive_def take_map[symmetric])
qed

lemma archive_all_cases:
  assumes "archive_all d fo files n eligible = Inr a"
  obtains "ns_pending n \<noteq> 0" "fa_updates a = ns_updates n" "fa_files a = 0" "fa_written a = ns_written n"
  | "ns_pending n = 0" "run_events (archive_step d fo files)
        \<lparr>fa_updates = ns_updates n, fa_written = ns_written n, fa_files = 0, fa_bytes = 0\<rparr> (to_archive d eligible) = Inr a"
  using assms unfolding archive_all_def to_archive_def by (auto simp: Let_def split: if_splits)

lemma eligible_movable:
  assumes inv: "fold_inventory d rows = Inr (files, views)" and rows: "distinct (map tr_path rows)"
    and read: "fold_files k d fo version cutoff files (empty_reading i) = Inr s"
  shows "\<forall>b\<in>set files. \<exists>data. read_object fo b = Inr data \<and> (data = [] \<or> last data = newline)"
    and "\<forall>b\<in>set (rd_eligible s). movable d files b" and "distinct (map bl_path (rd_eligible s))"
proof -
  note r = fold_files_read[OF read]
  show readable: "\<forall>b\<in>set files. \<exists>data. read_object fo b = Inr data \<and> (data = [] \<or> last data = newline)" using r by blast
  obtain more where more: "rd_eligible s = more" "subseq more files"
      "\<forall>b\<in>set more. \<not> prefix ''_archive/'' (fold_relative d (bl_path b)) \<and> ends_with (fold_relative d (bl_path b)) ''.jsonl''"
    using r by (auto simp: empty_reading_def)
  have "set more \<subseteq> set files" using more(2) by (auto dest: list_emb_set)
  moreover have "journal_name d (bl_path b)" if "b \<in> set files" for b
    using readable that files_in_tree(2)[OF inv rows that] by blast
  ultimately show "\<forall>b\<in>set (rd_eligible s). movable d files b" using more(1,3) unfolding movable_def by blast
  show "distinct (map bl_path (rd_eligible s))"
    using files_in_tree(1)[OF inv rows] more(1,2) by (metis in_set_subseqs subseq_map subseqs_distinctD)
qed

text \<open>C15. Filing a journal loses no record line and invents none: after the updates of any plan, the journal
  and its archive together hold exactly the lines they held before, whatever moved, joined an archived
  file or waits for a later run.\<close>

theorem fold_keeps_every_line:
  assumes plan: "fold_plan k d fo i catalog cutoff rows = Inr (ups, rep)" and rows: "distinct (map tr_path rows)"
  shows "journal_lines d (apply_updates fo ups (tree_of fo rows)) = journal_lines d (tree_of fo rows)"
proof -
  obtain files views version s n a where
    inv: "fold_inventory d rows = Inr (files, views)" and read: "fold_files k d fo version cutoff files (empty_reading i) = Inr s"
    and noted: "run_events (note_step k d fo views (rd_old s)) empty_notes (note_rows (rd_index s)) = Inr n"
    and arch: "archive_all d fo files n (rd_eligible s) = Inr a" and ups: "ups = fa_updates a"
    using fold_plan_stages[OF plan] by metis
  have puts: "\<forall>u\<in>set (ns_updates n). note_put d u" by (rule noting.run_ok[OF _ noted]) (simp add: empty_notes_def)
  let ?t = "apply_updates fo (ns_updates n) (tree_of fo rows)"
  note m = eligible_movable[OF inv rows read]
  from arch show ?thesis
  proof (cases rule: archive_all_cases)
    case 1
    then show ?thesis using notes_lines[OF puts] ups by simp
  next
    case 2
    have movable: "\<forall>b\<in>set (to_archive d (rd_eligible s)). movable d files b" using m(2) to_archive_subset by blast
    then have "\<forall>b\<in>set (to_archive d (rd_eligible s)). ?t (bl_path b) = tree_of fo rows (bl_path b)
        \<and> ?t (archive_path d (bl_path b)) = tree_of fo rows (archive_path d (bl_path b))"
      using notes_apart[OF puts] archive_named by (auto simp: movable_def)
    from archive_run_lines[OF inv rows m(1) 2(2) movable to_archive_distinct[OF m(3)] this]
    show ?thesis using notes_lines[OF puts] ups by (auto simp: apply_updates_append)
  qed
qed

section \<open>Bounds of one run\<close>

definition within_batch :: "fold_destination \<Rightarrow> fold_notes \<Rightarrow> bool" where
  "within_batch d s \<longleftrightarrow> ns_notes s \<le> fd_max_entries d \<and> ns_written s \<le> fd_max_bytes d"

interpretation batching: event_machine "note_step k d fo views olds" "within_batch d" for k d fo views olds
  by unfold_locales
    (auto simp: within_batch_def note_step_def Let_def split: sum.splits prod.splits if_splits option.splits)

lemma archive_step_bounds:
  "archive_step d fo files s b = Inr s' \<Longrightarrow>
     (fa_written s \<le> fd_max_bytes d \<longrightarrow> fa_written s' \<le> fd_max_bytes d) \<and> fa_files s \<le> fa_files s' \<and> fa_files s' \<le> fa_files s + 1"
  by (auto simp: archive_step_def Let_def split: sum.splits if_splits option.splits)

lemma archive_run_bounds:
  "run_events (archive_step d fo files) s bs = Inr s' \<Longrightarrow> fa_written s \<le> fd_max_bytes d \<Longrightarrow>
     fa_written s' \<le> fd_max_bytes d \<and> fa_files s' \<le> fa_files s + length bs"
proof (induction bs arbitrary: s)
  case (Cons b bs)
  from Cons.prems(1) obtain u where u: "archive_step d fo files s b = Inr u" "run_events (archive_step d fo files) u bs = Inr s'"
    by (auto split: sum.splits)
  show ?case using archive_step_bounds[OF u(1)] Cons.IH[OF u(2)] Cons.prems(2) by auto
qed simp

lemma archive_all_bounds:
  assumes "archive_all d fo files n eligible = Inr a" "within_batch d n"
  shows "fa_written a \<le> fd_max_bytes d \<and> fa_files a \<le> min (fd_max_entries d) (length eligible)"
  using assms(1)
proof (cases rule: archive_all_cases)
  case 1
  then show ?thesis
    using assms(2) by (simp_all add: within_batch_def)
next
  case 2
  from archive_run_bounds[OF 2(2)] assms(2) show ?thesis
    by (auto simp: within_batch_def to_archive_def)
qed

text \<open>One run stays inside the batch the destination allows, and its report accounts for every day file that
  was due: moved now or pending.\<close>

theorem fold_stays_in_batch:
  assumes plan: "fold_plan k d fo i catalog cutoff rows = Inr (ups, rep)"
  shows "fp_notes rep \<le> fd_max_entries d \<and> fp_archived_files rep \<le> fd_max_entries d \<and> fp_written_bytes rep \<le> fd_max_bytes d
    \<and> (\<exists>files views version s. fold_inventory d rows = Inr (files, views)
         \<and> fold_files k d fo version cutoff files (empty_reading i) = Inr s
         \<and> fp_archived_files rep + fp_pending_files rep = length (rd_eligible s))"
proof -
  obtain files views version s n a where
    inv: "fold_inventory d rows = Inr (files, views)" and read: "fold_files k d fo version cutoff files (empty_reading i) = Inr s"
    and noted: "run_events (note_step k d fo views (rd_old s)) empty_notes (note_rows (rd_index s)) = Inr n"
    and arch: "archive_all d fo files n (rd_eligible s) = Inr a"
    and rep: "fp_notes rep = ns_notes n" "fp_archived_files rep = fa_files a"
      "fp_pending_files rep = length (rd_eligible s) - fa_files a" "fp_written_bytes rep = fa_written a"
    using fold_plan_stages[OF plan] by metis
  have "within_batch d n" by (rule batching.run_ok[OF _ noted]) (simp add: within_batch_def empty_notes_def)
  with archive_all_bounds[OF arch this] have "fp_notes rep \<le> fd_max_entries d" "fp_archived_files rep \<le> fd_max_entries d"
      "fp_written_bytes rep \<le> fd_max_bytes d" "fp_archived_files rep + fp_pending_files rep = length (rd_eligible s)"
    using rep by (simp_all add: within_batch_def)
  then show ?thesis using inv read by blast
qed

section \<open>Notes before files\<close>







end
