(* ===== verification/Folding_Examples.thy ===== *)
theory Folding_Examples
  imports Folding_Properties "HOL-Library.Code_Target_Nat"
begin

text \<open>
  The properties of filing on a small journal, computed: one day file still in place, whose record saves
  a memory, and an archived part of the same day, whose record forgets it.
\<close>

text \<open>Equations that compute on numerals.\<close>

lemma readline_code [code]:
  "readline n [] = ([], [])"
  "readline n (c # cs) = (if n = 0 then ([], c # cs)
     else if c = newline then ([c], cs) else (case readline (n - 1) cs of (l, r) \<Rightarrow> (c # l, r)))"
  by (cases n; simp)+

lemma digits_of_code [code]:
  "digits_of base k n = (if k = 0 then [] else digits_of base (k - 1) (n div base) @ [digit_char (n mod base)])"
  by (cases k) simp_all

definition demo_destination :: fold_destination where
  "demo_destination = \<lparr>fd_prefix = ''j'', fd_tenant = 7, fd_space = 8, fd_max_entries = 10, fd_max_bytes = 100\<rparr>"

definition demo_archived :: string where
  "demo_archived = ''j/_archive/2026-10-09/'' @ uuid_text 5 @ ''.jsonl''"

definition demo_rows :: "tree_row list" where
  "demo_rows = [demo_row, demo_row\<lparr>tr_oid := replicate 40 (CHR ''b''), tr_path := demo_archived\<rparr>]"

definition demo_fold :: fold_env where
  "demo_fold = \<lparr>fo_blob = (\<lambda>oid. if oid = replicate 40 (CHR ''a'') then Inr (''0001'' @ [newline])
       else if oid = replicate 40 (CHR ''b'') then Inr (''0002'' @ [newline]) else Inl OSError),
     fo_hash = (\<lambda>algorithm content. content), fo_decimal = digits_of 10 1,
     fo_render = (\<lambda>e s. Inr (if s = NoteForgotten then ''gone'' else ''note'')),
     fo_validate = (\<lambda>_ _. Inr ()), fo_scan = (\<lambda>_. Inr ())\<rparr>"

definition demo_plan :: "(tree_update list \<times> fold_report) res" where
  "demo_plan = fold_plan demo_codec demo_destination demo_fold (ji_init 10 100) (Inr (2, 2)) (2026, 11, 1) demo_rows"

lemma demo_plan_result:
  "case demo_plan of Inl _ \<Rightarrow> False
   | Inr (ups, rep) \<Rightarrow> ups = [Put (note_path demo_destination 9) ''gone'',
       Put demo_archived (''0002'' @ newline # ''0001'' @ [newline]), Drop demo_path]
     \<and> fp_notes rep = 1 \<and> fp_archived_files rep = 1 \<and> fp_pending_files rep = 0 \<and> fp_written_bytes rep = 9"
  by code_simp

lemma demo_planned:
  obtains rep where "fold_plan demo_codec demo_destination demo_fold (ji_init 10 100) (Inr (2, 2)) (2026, 11, 1) demo_rows
      = Inr ([Put (note_path demo_destination 9) ''gone'', Put demo_archived (''0002'' @ newline # ''0001'' @ [newline]), Drop demo_path], rep)"
    "fp_archived_files rep = 1" "fp_written_bytes rep = 9"
  using demo_plan_result unfolding demo_plan_def by (auto split: sum.splits prod.splits)

lemma demo_distinct: "distinct (map tr_path demo_rows)"
  by code_simp

theorem fold_keeps_every_line_witness:
  "journal_lines demo_destination (apply_updates demo_fold
     [Put (note_path demo_destination 9) ''gone'', Put demo_archived (''0002'' @ newline # ''0001'' @ [newline]), Drop demo_path]
     (tree_of demo_fold demo_rows)) = journal_lines demo_destination (tree_of demo_fold demo_rows)"
  by (rule demo_planned) (rule fold_keeps_every_line[OF _ demo_distinct])

theorem fold_stays_in_batch_witness:
  "\<exists>ups rep. fold_plan demo_codec demo_destination demo_fold (ji_init 10 100) (Inr (2, 2)) (2026, 11, 1) demo_rows = Inr (ups, rep)
     \<and> fp_archived_files rep = 1 \<and> fp_written_bytes rep \<le> 100"
proof -
  obtain ups rep where r: "fold_plan demo_codec demo_destination demo_fold (ji_init 10 100) (Inr (2, 2)) (2026, 11, 1) demo_rows = Inr (ups, rep)"
      "fp_archived_files rep = 1" by (rule demo_planned)
  from fold_stays_in_batch[OF r(1)] have "fp_written_bytes rep \<le> 100" by (simp add: demo_destination_def)
  with r show ?thesis by blast
qed




end
