(* ===== verification/Memory_Budget.thy ===== *)
theory Memory_Budget
  imports Prelude "HOL-Library.Sublist"
begin

text \<open>
  Live admission of native models to the memory of the host (\<open>service/memory_budget.py\<close>). What the
  operating system reports is a parameter: for the n-th measurement the clock before it, the sample it
  would take (\<open>None\<close> where sampling raises an
  \<open>OSError\<close> or a \<open>RuntimeError\<close>, which the code catches; it lets any other exception out, which is not
  modelled) and the clock after it. Whatever other processes allocate or
  free between two measurements is in that parameter. Times are microseconds; sizes are bytes, natural
  numbers where they are measured (\<open>sample_memory\<close> clamps what it computes).
\<close>

definition MIB :: int where "MIB = 1024 ^ 2"
definition GIB :: int where "GIB = 1024 ^ 3"

section \<open>Options and samples\<close>

datatype memory_mode = Auto | Manual

record memory_options =
  mo_mode :: memory_mode
  mo_limit :: "int option"

definition options_ok :: "memory_options \<Rightarrow> bool" where
  "options_ok op \<longleftrightarrow> (mo_mode op = Manual \<longleftrightarrow> mo_limit op \<noteq> None)
     \<and> (case mo_limit op of None \<Rightarrow> True | Some n \<Rightarrow> 256 \<le> n \<and> n \<le> 1048576)"

record memory_sample =
  ms_total :: nat
  ms_available :: nat
  ms_engine :: nat
  ms_database :: nat
  ms_desktop :: nat
  ms_os_limit :: "nat option"
  ms_complete :: bool

definition used_bytes :: "memory_sample \<Rightarrow> int" where
  "used_bytes s = int (ms_engine s + ms_database s + ms_desktop s)"

definition system_reserve :: "memory_sample \<Rightarrow> int" where
  "system_reserve s = min (2 * GIB) (max (256 * MIB) (int (ms_total s) div 8))"

text \<open>Manual mode has a limit (\<open>options_ok\<close>).\<close>

definition requested_bytes :: "memory_options \<Rightarrow> memory_sample \<Rightarrow> int" where
  "requested_bytes op s = (case mo_limit op of
       Some n \<Rightarrow> if mo_mode op = Auto then min (4 * GIB) (int (ms_total s) div 4) else n * MIB
     | None \<Rightarrow> min (4 * GIB) (int (ms_total s) div 4))"

definition working_target :: "memory_options \<Rightarrow> memory_sample \<Rightarrow> int \<times> int" where
  "working_target op s =
     (let reserve = system_reserve s;
          capacity = max 0 (min (int (ms_total s) - reserve) (int (ms_available s) + used_bytes s - reserve)) in
      (max 0 (min (requested_bytes op s) capacity div (16 * MIB) * (16 * MIB)), reserve))"

text \<open>A model of the registry; \<open>em_local\<close> where it has a session of its own to release.\<close>

record emodel =
  em_id :: string
  em_name :: string
  em_local :: bool

definition model_requirements :: "emodel \<Rightarrow> int \<times> int" where
  "model_requirements m =
     (if sublist ''multilingual-e5-small'' (em_name m) then (1024 * MIB, 512 * MIB) else (512 * MIB, 192 * MIB))"

section \<open>The budget\<close>

record registry_models =
  rm_default :: emodel
  rm_models :: "emodel list"

record budget =
  mb_options :: memory_options
  mb_revision :: string
  mb_probe :: "nat \<Rightarrow> time \<times> memory_sample option \<times> time"
  mb_calls :: nat
  mb_cached :: "memory_sample option"
  mb_sample_at :: time
  mb_registry :: "registry_models option"
  mb_policy_error :: bool
  mb_rejected :: nat
  mb_evictions :: nat
  mb_loaded :: "string list"

definition make_budget :: "memory_options \<Rightarrow> string \<Rightarrow> (nat \<Rightarrow> time \<times> memory_sample option \<times> time) \<Rightarrow> budget" where
  "make_budget op revision probe = \<lparr>mb_options = op, mb_revision = revision, mb_probe = probe, mb_calls = 0,
     mb_cached = None, mb_sample_at = 0, mb_registry = None, mb_policy_error = False, mb_rejected = 0,
     mb_evictions = 0, mb_loaded = []\<rparr>"

definition attach :: "registry_models \<Rightarrow> budget \<Rightarrow> budget" where
  "attach r b = b\<lparr>mb_registry := Some r\<rparr>"

definition configure :: "memory_options \<Rightarrow> string \<Rightarrow> budget \<Rightarrow> budget" where
  "configure op revision b = b\<lparr>mb_options := op, mb_revision := revision, mb_policy_error := False, mb_sample_at := 0\<rparr>"

definition policy_unavailable :: "budget \<Rightarrow> budget" where
  "policy_unavailable b = b\<lparr>mb_policy_error := True\<rparr>"

definition registered :: "budget \<Rightarrow> emodel list" where
  "registered b = (case mb_registry b of None \<Rightarrow> [] | Some r \<Rightarrow> rm_models r)"

definition loaded :: "budget \<Rightarrow> emodel \<Rightarrow> bool" where
  "loaded b m \<longleftrightarrow> em_id m \<in> set (mb_loaded b)"

definition empty_sample :: memory_sample where
  "empty_sample = \<lparr>ms_total = 0, ms_available = 0, ms_engine = 0, ms_database = 0, ms_desktop = 0,
     ms_os_limit = None, ms_complete = False\<rparr>"

definition fallback_sample :: "memory_sample option \<Rightarrow> memory_sample" where
  "fallback_sample cached = (case cached of None \<Rightarrow> empty_sample | Some s \<Rightarrow> s\<lparr>ms_complete := False\<rparr>)"

definition measurement :: "bool \<Rightarrow> budget \<Rightarrow> memory_sample \<times> budget" where
  "measurement refresh b = (case mb_probe b (mb_calls b) of (now, outcome, later) \<Rightarrow>
     (let b1 = b\<lparr>mb_calls := mb_calls b + 1\<rparr> in
      case mb_cached b of
        Some s \<Rightarrow>
          if \<not> refresh \<and> now - mb_sample_at b < 1000000 then (s, b1)
          else (let s' = (case outcome of Some new \<Rightarrow> new | None \<Rightarrow> fallback_sample (Some s)) in
                (s', b1\<lparr>mb_cached := Some s', mb_sample_at := later\<rparr>))
      | None \<Rightarrow>
          let s' = (case outcome of Some new \<Rightarrow> new | None \<Rightarrow> fallback_sample None) in
          (s', b1\<lparr>mb_cached := Some s', mb_sample_at := later\<rparr>)))"

datatype pressure = Paused | Constrained | Normal

record budget_view =
  vw_options :: memory_options
  vw_revision :: string
  vw_target :: int
  vw_sample :: memory_sample
  vw_used :: int
  vw_reserve :: int
  vw_state :: pressure
  vw_reason :: "string option"
  vw_background_paused :: bool
  vw_indexing_paused :: bool
  vw_minimum :: int
  vw_batch :: nat
  vw_rejected :: nat
  vw_evictions :: nat

definition blocked_reason :: "budget \<Rightarrow> memory_sample \<Rightarrow> int \<Rightarrow> int \<Rightarrow> string option" where
  "blocked_reason b s reserve free =
     (if mb_policy_error b then Some ''policy_unavailable''
      else if \<not> ms_complete s then Some ''measurement_unavailable''
      else if int (ms_available s) < reserve then Some ''system_pressure''
      else if free < 48 * MIB then Some ''working_set_over_budget''
      else None)"

definition batch_for :: "int \<Rightarrow> nat" where
  "batch_for free = (if free < 128 * MIB then 1 else if free < 256 * MIB then 4 else if free < 512 * MIB then 8 else 16)"

definition view_of :: "budget \<Rightarrow> memory_sample \<Rightarrow> budget_view" where
  "view_of b s = (case working_target (mb_options b) s of (target, reserve) \<Rightarrow>
     (let free = max 0 (target - used_bytes s);
          blocked = (mb_policy_error b \<or> \<not> ms_complete s \<or> int (ms_available s) < reserve \<or> free < 48 * MIB);
          reason = blocked_reason b s reserve free;
          minimum = (case mb_registry b of None \<Rightarrow> 0 | Some r \<Rightarrow> fst (model_requirements (rm_default r)) + int (ms_desktop s));
          model_paused = (blocked \<or> (minimum \<noteq> 0 \<and> target < minimum)) in
      \<lparr>vw_options = mb_options b, vw_revision = mb_revision b, vw_target = target, vw_sample = s, vw_used = used_bytes s,
       vw_reserve = reserve,
       vw_state = (if model_paused then Paused else if free < 256 * MIB then Constrained else Normal),
       vw_reason = (case reason of Some x \<Rightarrow> Some x | None \<Rightarrow> if model_paused then Some ''model_exceeds_budget'' else None),
       vw_background_paused = blocked, vw_indexing_paused = model_paused, vw_minimum = minimum,
       vw_batch = batch_for free, vw_rejected = mb_rejected b, vw_evictions = mb_evictions b\<rparr>))"

definition snapshot :: "bool \<Rightarrow> budget \<Rightarrow> budget_view \<times> budget" where
  "snapshot refresh b = (case measurement refresh b of (s, b1) \<Rightarrow> (view_of b1 s, b1))"

section \<open>Decisions\<close>

definition can_start_background :: "budget \<Rightarrow> bool \<times> budget" where
  "can_start_background b = (case snapshot False b of (v, b1) \<Rightarrow> (\<not> vw_background_paused v, b1))"

definition can_schedule :: "emodel \<Rightarrow> budget \<Rightarrow> bool \<times> budget" where
  "can_schedule m b = (case snapshot False b of (v, b1) \<Rightarrow>
     (\<not> vw_background_paused v \<and> vw_target v \<ge> fst (model_requirements m) + int (ms_desktop (vw_sample v)), b1))"

definition additional_bytes :: "budget \<Rightarrow> emodel \<Rightarrow> int" where
  "additional_bytes b m = (if loaded b m then 48 * MIB else snd (model_requirements m) + 64 * MIB)"

definition can_infer :: "emodel \<Rightarrow> budget \<Rightarrow> bool \<times> budget" where
  "can_infer m b = (case snapshot False b of (v, b1) \<Rightarrow>
     (\<not> vw_background_paused v \<and> vw_target v \<ge> fst (model_requirements m) + int (ms_desktop (vw_sample v))
      \<and> vw_used v + additional_bytes b1 m \<le> vw_target v, b1))"

definition release :: "emodel list \<Rightarrow> budget \<Rightarrow> budget" where
  "release ms b =
     (let out = filter (\<lambda>m. em_local m \<and> loaded b m) ms in
      if out = [] then b
      else b\<lparr>mb_loaded := filter (\<lambda>i. i \<notin> em_id ` set out) (mb_loaded b),
             mb_evictions := mb_evictions b + length out, mb_sample_at := 0\<rparr>)"

definition over_memory_budget :: error where
  "over_memory_budget = ServiceError 503 ''inference_memory_budget''"

definition admit :: "emodel \<Rightarrow> budget \<Rightarrow> unit res \<times> budget" where
  "admit m b = (case can_infer m b of
       (True, b1) \<Rightarrow> (Inr (), b1)
     | (False, b1) \<Rightarrow>
         (case can_infer m (release (filter (\<lambda>x. em_id x \<noteq> em_id m) (registered b1)) b1) of
            (True, b2) \<Rightarrow> (Inr (), b2)
          | (False, b2) \<Rightarrow> (Inl over_memory_budget, b2\<lparr>mb_rejected := mb_rejected b2 + 1\<rparr>)))"

definition batch_size :: "emodel \<Rightarrow> budget \<Rightarrow> nat res \<times> budget" where
  "batch_size m b = (case admit m b of
       (Inl e, b1) \<Rightarrow> (Inl e, b1)
     | (Inr _, b1) \<Rightarrow> (case snapshot False b1 of (v, b2) \<Rightarrow> (Inr (vw_batch v), b2)))"

text \<open>\<open>all(...)\<close> stops at the first model that does not fit.\<close>

fun all_fit :: "emodel list \<Rightarrow> budget \<Rightarrow> bool \<times> budget" where
  "all_fit [] b = (True, b)"
| "all_fit (m # ms) b =
     (if em_local m \<and> loaded b m
      then (case can_infer m b of (True, b1) \<Rightarrow> all_fit ms b1 | (False, b1) \<Rightarrow> (False, b1))
      else all_fit ms b)"

text \<open>\<open>acquired\<close> tells whether the maintenance of the gate was entered.\<close>

definition trim :: "bool \<Rightarrow> budget \<Rightarrow> bool \<times> budget" where
  "trim acquired b =
     (case mb_registry b of
        None \<Rightarrow> (False, b)
      | Some r \<Rightarrow>
         (case snapshot True b of (v, b1) \<Rightarrow>
           (case (if vw_background_paused v then (False, b1) else all_fit (rm_models r) b1) of (fit, b2) \<Rightarrow>
              if \<not> vw_background_paused v \<and> fit then (False, b2)
              else if \<not> acquired then (False, b2)
              else (True, release (rm_models r) b2))))"

text \<open>The registry's own policy (\<open>service/model_registry.py\<close>): sessions unused for a while are released.\<close>

definition idle_policy :: "int \<Rightarrow> int res" where
  "idle_policy n = (if n = 0 \<or> (10 \<le> n \<and> n \<le> 86400) then Inr n else Inl ValueError)"

definition release_idle :: "int \<Rightarrow> bool \<Rightarrow> budget \<Rightarrow> nat \<times> budget" where
  "release_idle idle_seconds acquired b =
     (if idle_seconds = 0 \<or> \<not> acquired then (0, b)
      else let out = filter (\<lambda>m. em_local m \<and> loaded b m) (registered b) in
        (length out, b\<lparr>mb_loaded := filter (\<lambda>i. i \<notin> em_id ` set out) (mb_loaded b)\<rparr>))"

end
