(* ===== verification/Document_Chunks.thy ===== *)
theory Document_Chunks
  imports Prelude
begin

text \<open>
  How a document is cut into the chunks that are embedded: by the offsets of a tokenizer
  (\<open>service/embeddings.py\<close> for local models, \<open>service/embedding_tokens.py\<close> for providers), or by
  conservative byte budgets. The tokenizer is a parameter: the offsets it returns for the text. A text
  of code points is a list of naturals; \<open>bisect\<close> is modelled by what it returns on a sorted list.
\<close>

type_synonym span = "nat \<times> nat"

definition MAX_CHUNKS :: nat where
  "MAX_CHUNKS = 512"

section \<open>Token windows\<close>

text \<open>One pass of the loop: the span from a token on, and the token behind it.\<close>

definition window_start :: "span list \<Rightarrow> nat \<Rightarrow> nat" where
  "window_start offsets index = (if index = 0 then 0 else fst (offsets ! index))"

definition window :: "span list \<Rightarrow> nat \<Rightarrow> nat \<Rightarrow> nat \<Rightarrow> span \<times> nat" where
  "window offsets n wide index =
     (let stop = min (index + wide) (length offsets) in
      ((window_start offsets index, if stop = length offsets then n else snd (offsets ! (stop - 1))), stop))"

text \<open>Local models: the limit is checked when the loop is over.\<close>

function local_windows :: "span list \<Rightarrow> nat \<Rightarrow> nat \<Rightarrow> nat \<Rightarrow> nat \<Rightarrow> span list \<Rightarrow> span list" where
  "local_windows offsets n wide step index spans =
     (if step = 0 \<or> length offsets \<le> index then spans
      else case window offsets n wide index of (span, stop) \<Rightarrow>
        (let more = (if fst span < snd span then spans @ [span] else spans) in
         if stop = length offsets then more
         else local_windows offsets n wide step (index + step) more))"
  by pat_completeness auto
termination by (relation "measure (\<lambda>(offsets, n, wide, step, index, spans). length offsets - index)") auto

declare local_windows.simps [simp del]

text \<open>\<open>range\<close> with step 0 raises; with a negative step it is empty.\<close>

definition local_spans :: "span list \<Rightarrow> nat \<Rightarrow> nat \<Rightarrow> nat \<Rightarrow> span list res" where
  "local_spans offsets n wide overlap =
     (if offsets = [] then Inl ValueError
      else if wide = overlap then Inl ValueError
      else let spans = (if wide < overlap then [] else local_windows offsets n wide (wide - overlap) 0 []) in
        if length spans > MAX_CHUNKS then Inl ValueError else Inr spans)"

text \<open>Providers: a span equal to the last one is left out, and the limit is checked in every pass.\<close>

function provider_windows :: "span list \<Rightarrow> nat \<Rightarrow> nat \<Rightarrow> nat \<Rightarrow> nat \<Rightarrow> span list \<Rightarrow> span list res" where
  "provider_windows offsets n wide step index spans =
     (if step = 0 \<or> length offsets \<le> index then Inr spans
      else case window offsets n wide index of (span, stop) \<Rightarrow>
        (let more = (if fst span < snd span \<and> (spans = [] \<or> List.last spans \<noteq> span) then spans @ [span] else spans) in
         if length more > MAX_CHUNKS then Inl ValueError
         else if stop = length offsets then Inr more
         else provider_windows offsets n wide step (index + step) more))"
  by pat_completeness auto
termination by (relation "measure (\<lambda>(offsets, n, wide, step, index, spans). length offsets - index)") auto

declare provider_windows.simps [simp del]

definition token_spans :: "span list \<Rightarrow> nat \<Rightarrow> nat \<Rightarrow> nat \<Rightarrow> span list res" where
  "token_spans offsets n wide overlap =
     (if n = 0 \<or> \<not> overlap < wide then Inl ValueError
      else if offsets = [] then Inl ValueError
      else case provider_windows offsets n wide (wide - overlap) 0 [] of
        Inl e \<Rightarrow> Inl e
      | Inr spans \<Rightarrow> if spans = [] then Inl ValueError else Inr spans)"

section \<open>Byte budgets\<close>

definition utf8_width :: "nat \<Rightarrow> nat" where
  "utf8_width c = (if c < 0x80 then 1 else if c < 0x800 then 2 else if c < 0x10000 then 3 else 4)"

fun byte_positions :: "nat \<Rightarrow> nat list \<Rightarrow> nat list" where
  "byte_positions p [] = [p]"
| "byte_positions p (c # cs) = p # byte_positions (p + utf8_width c) cs"

definition bisect_left :: "nat list \<Rightarrow> nat \<Rightarrow> nat" where
  "bisect_left xs v = length (takeWhile (\<lambda>x. x < v) xs)"

definition bisect_right :: "nat list \<Rightarrow> nat \<Rightarrow> nat" where
  "bisect_right xs v = length (takeWhile (\<lambda>x. x \<le> v) xs)"

function byte_windows :: "nat list \<Rightarrow> nat \<Rightarrow> nat \<Rightarrow> nat \<Rightarrow> nat \<Rightarrow> span list \<Rightarrow> span list res" where
  "byte_windows positions n wide overlap start spans =
     (if n \<le> start then Inr spans
      else let stop = bisect_right positions (positions ! start + wide) - 1 in
        if stop \<le> start then Inl ValueError
        else let more = spans @ [(start, stop)] in
          if length more > MAX_CHUNKS then Inl ValueError
          else if stop = n then Inr more
          else byte_windows positions n wide overlap
                 (max (start + 1) (bisect_left positions (positions ! stop - overlap))) more)"
  by pat_completeness auto
termination by (relation "measure (\<lambda>(positions, n, wide, overlap, start, spans). n - start)") auto

declare byte_windows.simps [simp del]

definition byte_spans :: "nat list \<Rightarrow> nat \<Rightarrow> nat \<Rightarrow> span list res" where
  "byte_spans text wide overlap =
     (if text = [] \<or> \<not> overlap < wide then Inl ValueError
      else byte_windows (byte_positions 0 text) (length text) wide overlap 0 [])"

section \<open>Chunks that cover\<close>

definition covered :: "span list \<Rightarrow> nat \<Rightarrow> bool" where
  "covered spans i \<longleftrightarrow> (\<exists>(s, e)\<in>set spans. s \<le> i \<and> i < e)"

lemma covered_append [simp]: "covered (xs @ ys) i \<longleftrightarrow> covered xs i \<or> covered ys i"
  by (auto simp: covered_def)

lemma covered_single [simp]: "covered [(s, e)] i \<longleftrightarrow> s \<le> i \<and> i < e"
  by (simp add: covered_def)

lemma covered_last: "xs \<noteq> [] \<Longrightarrow> List.last xs = (s, e) \<Longrightarrow> s \<le> i \<Longrightarrow> i < e \<Longrightarrow> covered xs i"
  unfolding covered_def by (rule bexI[of _ "(s, e)"]) (auto dest: last_in_set)

definition inside_text :: "nat \<Rightarrow> span list \<Rightarrow> bool" where
  "inside_text n spans \<longleftrightarrow> (\<forall>(s, e)\<in>set spans. s < e \<and> e \<le> n)"

lemma inside_text_Nil [simp]: "inside_text n []"
  by (simp add: inside_text_def)

lemma inside_text_append [simp]: "inside_text n (xs @ ys) \<longleftrightarrow> inside_text n xs \<and> inside_text n ys"
  by (auto simp: inside_text_def)

lemma inside_text_single [simp]: "inside_text n [(s, e)] \<longleftrightarrow> s < e \<and> e \<le> n"
  by (simp add: inside_text_def)

text \<open>What a chunker promises about the chunks of an input that it accepts.\<close>

locale chunker =
  fixes chunks :: "'i \<Rightarrow> span list res" and len :: "'i \<Rightarrow> nat" and fits :: "'i \<Rightarrow> bool"
  assumes covers: "fits x \<Longrightarrow> chunks x = Inr spans \<Longrightarrow> i < len x \<Longrightarrow> covered spans i"
    and stays_inside: "fits x \<Longrightarrow> chunks x = Inr spans \<Longrightarrow> inside_text (len x) spans"
    and few: "fits x \<Longrightarrow> chunks x = Inr spans \<Longrightarrow> length spans \<le> MAX_CHUNKS"
begin

lemma chunks_exist: "fits x \<Longrightarrow> chunks x = Inr spans \<Longrightarrow> 0 < len x \<Longrightarrow> spans \<noteq> []"
  using covers[of x spans 0] by (auto simp: covered_def)

lemma chunks_are_the_text:
  "fits x \<Longrightarrow> chunks x = Inr spans \<Longrightarrow> {i. i < len x} = (\<Union>(s, e)\<in>set spans. {s..<e})"
  using covers stays_inside by (fastforce simp: covered_def inside_text_def)

lemma chunker_total:
  assumes "fits x" "chunks x = Inr spans"
  shows "length spans \<le> MAX_CHUNKS \<and> (\<forall>(s, e)\<in>set spans. s < e \<and> e \<le> len x) \<and> {i. i < len x} = (\<Union>(s, e)\<in>set spans. {s..<e})"
  using few[OF assms] stays_inside[OF assms] chunks_are_the_text[OF assms] by (simp add: inside_text_def)

end

text \<open>The offsets a tokenizer returns: in order, each a span of the text.\<close>

definition offsets_ok :: "nat \<Rightarrow> span list \<Rightarrow> bool" where
  "offsets_ok n offsets \<longleftrightarrow> sorted (map fst offsets) \<and> (\<forall>(s, e)\<in>set offsets. s \<le> e \<and> e \<le> n)"

lemma window_next:
  assumes ok: "offsets_ok n offsets" and "index + wide < length offsets" "1 \<le> overlap" "overlap < wide"
  shows "window_start offsets (index + (wide - overlap)) \<le> snd (offsets ! (index + wide - 1))"
proof -
  let ?j = "index + (wide - overlap)" and ?k = "index + wide - 1"
  have le: "?j \<le> ?k" "?k < length offsets" using assms by auto
  then have "fst (offsets ! ?j) \<le> fst (offsets ! ?k)"
    using ok sorted_nth_mono[of "map fst offsets" ?j ?k] by (simp add: offsets_ok_def)
  also have "fst (offsets ! ?k) \<le> snd (offsets ! ?k)"
    using ok le nth_mem[of ?k offsets] by (auto simp: offsets_ok_def case_prod_beta)
  finally show ?thesis by (simp add: window_start_def)
qed

text \<open>One pass keeps the text before the next window covered, and ends it at the last token.\<close>

definition reached :: "span list \<Rightarrow> nat \<Rightarrow> span list \<Rightarrow> nat \<Rightarrow> bool" where
  "reached offsets n spans bound \<longleftrightarrow> inside_text n spans \<and> (\<forall>i<bound. covered spans i)"

lemma window_pass:
  assumes ok: "offsets_ok n offsets" and index: "index < length offsets" and "1 \<le> overlap" "overlap < wide"
    and w: "window offsets n wide index = ((s, e), stop)"
    and before: "reached offsets n spans (window_start offsets index)"
    and more: "more = (if s < e \<and> new then spans @ [(s, e)] else spans)" "\<not> new \<Longrightarrow> spans \<noteq> [] \<and> List.last spans = (s, e)"
  shows "stop = length offsets \<Longrightarrow> reached offsets n more n"
    and "stop \<noteq> length offsets \<Longrightarrow> index + (wide - overlap) < length offsets
      \<and> reached offsets n more (window_start offsets (index + (wide - overlap)))"
proof -
  have s: "s = window_start offsets index" using w by (auto simp: window_def Let_def)
  have bound: "e \<le> n" using w index ok assms(3,4)
    nth_mem[of "index + wide - 1" offsets] by (auto simp: window_def Let_def offsets_ok_def case_prod_beta min_def split: if_splits)
  have upto: "reached offsets n more e"
    using before more bound covered_last[of spans s e] unfolding reached_def s[symmetric]
    by (auto simp: not_less) (metis not_less order_less_le_trans)+
  show "reached offsets n more n" if "stop = length offsets"
  proof -
    have "e = n" using w that by (auto simp: window_def Let_def)
    then show ?thesis using upto by simp
  qed
  show "index + (wide - overlap) < length offsets \<and> reached offsets n more (window_start offsets (index + (wide - overlap)))"
    if "stop \<noteq> length offsets"
  proof -
    have small: "index + wide < length offsets" "e = snd (offsets ! (index + wide - 1))"
      using w that by (auto simp: window_def Let_def min_def split: if_splits)
    show ?thesis using window_next[OF ok small(1) assms(3,4)] upto small by (auto simp: reached_def)
  qed
qed

section \<open>The chunkers\<close>

lemma local_pass:
  assumes "step \<noteq> 0" "index < length offsets" "window offsets n wide index = (span, stop)"
  shows "local_windows offsets n wide step index spans =
     (let more = (if fst span < snd span then spans @ [span] else spans) in
      if stop = length offsets then more else local_windows offsets n wide step (index + step) more)"
  using assms by (subst local_windows.simps) simp

lemma provider_pass:
  assumes "step \<noteq> 0" "index < length offsets" "window offsets n wide index = (span, stop)"
  shows "provider_windows offsets n wide step index spans =
     (let more = (if fst span < snd span \<and> (spans = [] \<or> List.last spans \<noteq> span) then spans @ [span] else spans) in
      if length more > MAX_CHUNKS then Inl ValueError
      else if stop = length offsets then Inr more else provider_windows offsets n wide step (index + step) more)"
  using assms by (subst provider_windows.simps) simp

lemma local_windows_reach:
  assumes ok: "offsets_ok n offsets" and o: "1 \<le> overlap" "overlap < wide"
  shows "index < length offsets \<Longrightarrow> reached offsets n spans (window_start offsets index) \<Longrightarrow>
     reached offsets n (local_windows offsets n wide (wide - overlap) index spans) n"
proof (induction "length offsets - index" arbitrary: index spans rule: less_induct)
  case less
  obtain s e stop where w: "window offsets n wide index = ((s, e), stop)" by (metis surj_pair)
  define more where "more = (if s < e \<and> True then spans @ [(s, e)] else spans)"
  note pass = window_pass[OF ok less.prems(1) o w less.prems(2) more_def]
  have step: "local_windows offsets n wide (wide - overlap) index spans
      = (if stop = length offsets then more else local_windows offsets n wide (wide - overlap) (index + (wide - overlap)) more)"
    using local_pass[of "wide - overlap", OF _ less.prems(1) w] o by (simp add: more_def Let_def)
  show ?case
  proof (cases "stop = length offsets")
    case True
    then show ?thesis using pass(1) step by simp
  next
    case False
    then have next_index: "index + (wide - overlap) < length offsets"
        "reached offsets n more (window_start offsets (index + (wide - overlap)))" using pass(2) by blast+
    then show ?thesis using less.hyps[OF _ next_index] False step o less.prems(1) by simp
  qed
qed

lemma provider_windows_reach:
  assumes ok: "offsets_ok n offsets" and o: "1 \<le> overlap" "overlap < wide"
  shows "index < length offsets \<Longrightarrow> reached offsets n spans (window_start offsets index) \<Longrightarrow>
     provider_windows offsets n wide (wide - overlap) index spans = Inr result \<Longrightarrow>
     reached offsets n result n \<and> length result \<le> MAX_CHUNKS"
proof (induction "length offsets - index" arbitrary: index spans rule: less_induct)
  case less
  obtain s e stop where w: "window offsets n wide index = ((s, e), stop)" by (metis surj_pair)
  define more where "more = (if s < e \<and> (spans = [] \<or> List.last spans \<noteq> (s, e)) then spans @ [(s, e)] else spans)"
  note pass = window_pass[OF ok less.prems(1) o w less.prems(2) more_def]
  have step: "(if length more > MAX_CHUNKS then Inl ValueError else if stop = length offsets then Inr more
      else provider_windows offsets n wide (wide - overlap) (index + (wide - overlap)) more) = Inr result"
    using provider_pass[of "wide - overlap", OF _ less.prems(1) w, of spans] less.prems(3) o
    unfolding more_def by (simp only: Let_def fst_conv snd_conv)
  show ?case
  proof (cases "stop = length offsets")
    case True
    then show ?thesis using pass(1) step by (simp split: if_splits)
  next
    case False
    then have next_index: "index + (wide - overlap) < length offsets"
        "reached offsets n more (window_start offsets (index + (wide - overlap)))" using pass(2) by blast+
    then show ?thesis using less.hyps[OF _ next_index] False step o less.prems(1) by (simp split: if_splits)
  qed
qed

lemma reached_start: "reached offsets n [] (window_start offsets 0)"
  by (simp add: reached_def window_start_def)

type_synonym token_input = "span list \<times> nat \<times> nat \<times> nat"

fun token_input_ok :: "token_input \<Rightarrow> bool" where
  "token_input_ok (offsets, n, wide, overlap) \<longleftrightarrow> offsets_ok n offsets \<and> 1 \<le> overlap \<and> overlap < wide"

interpretation local_chunker: chunker "\<lambda>(offsets, n, wide, overlap). local_spans offsets n wide overlap"
    "\<lambda>(offsets, n, wide, overlap). n" token_input_ok
proof
  have all: "reached (fst x) (fst (snd x)) spans (fst (snd x)) \<and> length spans \<le> MAX_CHUNKS"
    if "token_input_ok x" "(case x of (offsets, n, wide, overlap) \<Rightarrow> local_spans offsets n wide overlap) = Inr spans" for x spans
    using that local_windows_reach[of _ _ _ _ 0 "[]"] reached_start
    by (cases x) (auto simp: local_spans_def Let_def split: if_splits)
  fix x spans i
  assume x: "token_input_ok x" "(case x of (offsets, n, wide, overlap) \<Rightarrow> local_spans offsets n wide overlap) = Inr spans"
  note r = all[OF x]
  show "i < (case x of (offsets, n, wide, overlap) \<Rightarrow> n) \<Longrightarrow> covered spans i" using r by (auto simp: reached_def split: prod.splits)
  show "inside_text (case x of (offsets, n, wide, overlap) \<Rightarrow> n) spans" using r by (auto simp: reached_def split: prod.splits)
  show "length spans \<le> MAX_CHUNKS" using r by simp
qed

interpretation token_chunker: chunker "\<lambda>(offsets, n, wide, overlap). token_spans offsets n wide overlap"
    "\<lambda>(offsets, n, wide, overlap). n" token_input_ok
proof
  have all: "reached (fst x) (fst (snd x)) spans (fst (snd x)) \<and> length spans \<le> MAX_CHUNKS"
    if "token_input_ok x" "(case x of (offsets, n, wide, overlap) \<Rightarrow> token_spans offsets n wide overlap) = Inr spans" for x spans
    using that provider_windows_reach[of _ _ _ _ 0 "[]"] reached_start
    by (cases x) (auto simp: token_spans_def split: if_splits sum.splits)
  fix x spans i
  assume x: "token_input_ok x" "(case x of (offsets, n, wide, overlap) \<Rightarrow> token_spans offsets n wide overlap) = Inr spans"
  note r = all[OF x]
  show "i < (case x of (offsets, n, wide, overlap) \<Rightarrow> n) \<Longrightarrow> covered spans i" using r by (auto simp: reached_def split: prod.splits)
  show "inside_text (case x of (offsets, n, wide, overlap) \<Rightarrow> n) spans" using r by (auto simp: reached_def split: prod.splits)
  show "length spans \<le> MAX_CHUNKS" using r by simp
qed

subsection \<open>Byte windows\<close>

lemma byte_positions_length [simp]: "length (byte_positions p cs) = length cs + 1"
  by (induction cs arbitrary: p) auto

lemma byte_positions_lower: "x \<in> set (byte_positions p cs) \<Longrightarrow> p \<le> x"
proof (induction cs arbitrary: p)
  case (Cons c cs)
  then have "x = p \<or> x \<in> set (byte_positions (p + utf8_width c) cs)" by auto
  with Cons.IH[of "p + utf8_width c"] show ?case by (metis add_leD1 order_refl)
qed simp

lemma byte_positions_sorted: "sorted (byte_positions p cs)"
  by (induction cs arbitrary: p) (auto dest: byte_positions_lower)

lemma takeWhile_upto:
  assumes "k < length (takeWhile P xs)"
  shows "k < length xs \<and> P (xs ! k)"
proof -
  have "takeWhile P xs ! k \<in> set (takeWhile P xs)" using assms by (rule nth_mem)
  then have "P (takeWhile P xs ! k)" by (auto dest: set_takeWhileD)
  then show ?thesis using assms length_takeWhile_le[of P xs] takeWhile_nth[OF assms] by simp
qed

lemma bisect_left_le: "\<not> xs ! k < v \<Longrightarrow> bisect_left xs v \<le> k"
  unfolding bisect_left_def using takeWhile_upto[of k "\<lambda>x. x < v" xs] by (meson not_less)

lemma bisect_right_le: "k < bisect_right xs v \<Longrightarrow> k < length xs \<and> xs ! k \<le> v"
  unfolding bisect_right_def by (rule takeWhile_upto)

lemma byte_pass:
  "n \<le> start \<Longrightarrow> byte_windows positions n wide overlap start spans = Inr spans"
  "\<not> n \<le> start \<Longrightarrow> stop = bisect_right positions (positions ! start + wide) - 1 \<Longrightarrow>
     byte_windows positions n wide overlap start spans =
     (if stop \<le> start then Inl ValueError
      else if length (spans @ [(start, stop)]) > MAX_CHUNKS then Inl ValueError
      else if stop = n then Inr (spans @ [(start, stop)])
      else byte_windows positions n wide overlap
             (max (start + 1) (bisect_left positions (positions ! stop - overlap))) (spans @ [(start, stop)]))"
  by (subst byte_windows.simps; simp add: Let_def)+

lemma byte_windows_reach:
  assumes positions: "length positions = n + 1"
  shows "start \<le> n \<Longrightarrow> inside_text n spans \<Longrightarrow> \<forall>i<start. covered spans i \<Longrightarrow> \<forall>(s, e)\<in>set spans. positions ! e \<le> positions ! s + wide \<Longrightarrow>
      length spans \<le> MAX_CHUNKS \<Longrightarrow>
      byte_windows positions n wide overlap start spans = Inr result \<Longrightarrow>
      inside_text n result \<and> (\<forall>i<n. covered result i) \<and> length result \<le> MAX_CHUNKS \<and> (\<forall>(s, e)\<in>set result. positions ! e \<le> positions ! s + wide)"
proof (induction "n - start" arbitrary: start spans rule: less_induct)
  case less
  show ?case
  proof (cases "n \<le> start")
    case True
    then show ?thesis using less.prems byte_pass(1)[OF True] by auto
  next
    case False
    define stop where "stop = bisect_right positions (positions ! start + wide) - 1"
    define more where "more = spans @ [(start, stop)]"
    define next_start where "next_start = max (start + 1) (bisect_left positions (positions ! stop - overlap))"
    have step: "start < stop" "length more \<le> MAX_CHUNKS"
        "(if stop = n then Inr more else byte_windows positions n wide overlap next_start more) = Inr result"
      using less.prems(6) byte_pass(2)[OF False stop_def, of overlap spans]
      by (simp_all only: more_def next_start_def not_le not_less sum.distinct simp_thms split: if_splits)
    have b: "stop \<le> n" "positions ! stop \<le> positions ! start + wide"
      using bisect_right_le[of stop positions "positions ! start + wide"] step(1) positions by (auto simp: stop_def)
    have "bisect_left positions (positions ! stop - overlap) \<le> stop" by (rule bisect_left_le) (use b positions in auto)
    then have f: "next_start \<le> stop" "start < next_start" using step(1) by (auto simp: next_start_def)
    have covered_more: "\<forall>i<stop. covered more i" using less.prems(3) by (auto simp: more_def not_less)
    have kept: "inside_text n more" "\<forall>(s, e)\<in>set more. positions ! e \<le> positions ! s + wide"
      using less.prems(2,4) step(1) b by (auto simp: more_def)
    show ?thesis
    proof (cases "stop = n")
      case True
      then show ?thesis using step kept covered_more by simp
    next
      case False
      have "n - next_start < n - start" using f b step(1) by simp
      from less.hyps[OF this _ kept(1) _ kept(2) step(2)] f b covered_more step(3) False show ?thesis by auto
    qed
  qed
qed

interpretation byte_chunker: chunker "\<lambda>(text, wide, overlap). byte_spans text wide overlap" "\<lambda>(text, wide, overlap). length text" "\<lambda>_. True"
proof
  have all: "inside_text (length cs) spans \<and> (\<forall>i<length cs. covered spans i) \<and> length spans \<le> MAX_CHUNKS"
    if "byte_spans cs wide overlap = Inr spans" for cs wide overlap spans
    using that byte_windows_reach[of "byte_positions 0 cs" "length cs" 0 "[]" wide overlap spans]
    by (auto simp: byte_spans_def split: if_splits)
  fix x spans i
  assume x: "(case x of (text, wide, overlap) \<Rightarrow> byte_spans text wide overlap) = Inr spans"
  show "i < (case x of (text, wide, overlap) \<Rightarrow> length text) \<Longrightarrow> covered spans i" using x all by (auto split: prod.splits)
  show "inside_text (case x of (text, wide, overlap) \<Rightarrow> length text) spans" using x all by (auto split: prod.splits)
  show "length spans \<le> MAX_CHUNKS" using x all by (auto split: prod.splits)
qed

end
