(* ===== verification/Embedder.thy ===== *)
theory Embedder
  imports Memory_Budget Document_Chunks Worker
begin

text \<open>
  A local embedding model at work (\<open>LocalEmbedder\<close> of \<open>service/embeddings.py\<close>): admission before every
  use, a document cut into chunks, and batches whose length follows the memory budget and the measured
  speed. The tokenizer, the loading of the pinned files and the native model are parameters. So is what
  happens while the operation yields its gate between two batches: other operations may then release the
  model, change the budget and measure the speed anew. The caller holds the inference gate, and may have
  to give up its turn (an error of the yield). A model that returns no vector for a query raises
  \<open>StopIteration\<close> in the code, \<open>RuntimeError\<close> here.
\<close>

record embed_state =
  es_budget :: budget
  es_cost :: "real option"

record embedder =
  ee_model :: emodel
  ee_budgeted :: bool
  ee_dimensions :: nat
  ee_chunk_tokens :: nat
  ee_overlap_tokens :: nat
  ee_max_query_tokens :: nat
  ee_query_prefix :: string
  ee_document_prefix :: string
  ee_offsets :: "string \<Rightarrow> span list"
  ee_load :: "budget \<Rightarrow> unit res"
  ee_embed :: "string list \<Rightarrow> real list list res"
  ee_yield :: "nat \<Rightarrow> embed_state \<Rightarrow> unit res \<times> embed_state"
  ee_seconds :: "nat \<Rightarrow> real"

definition load_model :: "embedder \<Rightarrow> budget \<Rightarrow> unit res \<times> budget" where
  "load_model e b =
     (if loaded b (ee_model e) then (Inr (), b)
      else case ee_load e b of
        Inl x \<Rightarrow> (Inl x, b)
      | Inr _ \<Rightarrow> (Inr (), b\<lparr>mb_loaded := em_id (ee_model e) # mb_loaded b\<rparr>))"

definition prepare :: "embedder \<Rightarrow> budget \<Rightarrow> unit res \<times> budget" where
  "prepare e b =
     (case (if ee_budgeted e then admit (ee_model e) b else (Inr (), b)) of
        (Inl x, b1) \<Rightarrow> (Inl x, b1)
      | (Inr _, b1) \<Rightarrow> load_model e b1)"

definition unload :: "embedder \<Rightarrow> budget \<Rightarrow> budget" where
  "unload e b = b\<lparr>mb_loaded := filter (\<lambda>i. i \<noteq> em_id (ee_model e)) (mb_loaded b)\<rparr>"

text \<open>Without a loaded session there is nothing to call.\<close>

definition native :: "embedder \<Rightarrow> budget \<Rightarrow> string list \<Rightarrow> real list list res" where
  "native e b inputs = (if loaded b (ee_model e) then ee_embed e inputs else Inl AttributeError)"

definition token_count :: "embedder \<Rightarrow> string \<Rightarrow> budget \<Rightarrow> nat res \<times> budget" where
  "token_count e s b = (case prepare e b of
       (Inl x, b1) \<Rightarrow> (Inl x, b1)
     | (Inr _, b1) \<Rightarrow> (Inr (length (ee_offsets e s)), b1))"

definition query :: "embedder \<Rightarrow> string \<Rightarrow> budget \<Rightarrow> real list res \<times> budget" where
  "query e s b = (case prepare e b of
       (Inl x, b1) \<Rightarrow> (Inl x, b1)
     | (Inr _, b1) \<Rightarrow>
         (if length (ee_offsets e s) > ee_max_query_tokens e then Inl (ServiceError 422 ''query_too_long'')
          else case native e b1 [ee_query_prefix e @ s] of
            Inl x \<Rightarrow> Inl x
          | Inr [] \<Rightarrow> Inl RuntimeError
          | Inr (v # _) \<Rightarrow> if vector_ok (ee_dimensions e) v then Inr v else Inl ValueError, b1))"

section \<open>A document in batches\<close>

type_synonym chunk_vector = "nat \<times> nat \<times> real list"

definition batch_length :: "real option \<Rightarrow> nat \<Rightarrow> nat" where
  "batch_length cost capacity = (case cost of
       None \<Rightarrow> 1
     | Some c \<Rightarrow> if c = 0 then 1 else min capacity (max 1 (nat \<lfloor>1 / 4 / c\<rfloor>)))"

definition chunk_input :: "embedder \<Rightarrow> string \<Rightarrow> span \<Rightarrow> string" where
  "chunk_input e s p = ee_document_prefix e @ take (snd p - fst p) (drop (fst p) s)"

definition measured_cost :: "real option \<Rightarrow> real \<Rightarrow> nat \<Rightarrow> real" where
  "measured_cost cost elapsed n =
     (let measured = max (1 / 1000000) elapsed / real n in
      max measured ((case cost of None \<Rightarrow> measured | Some c \<Rightarrow> if c = 0 then measured else c) * (3 / 4)))"

definition capacity :: "embedder \<Rightarrow> budget \<Rightarrow> nat res \<times> budget" where
  "capacity e b = (if ee_budgeted e then batch_size (ee_model e) b else (Inr 16, b))"

definition embed_batch :: "embedder \<Rightarrow> string \<Rightarrow> span list \<Rightarrow> budget \<Rightarrow> chunk_vector list res" where
  "embed_batch e s batch b =
     (case native e b (map (chunk_input e s) batch) of
        Inl x \<Rightarrow> Inl x
      | Inr vectors \<Rightarrow>
          if length vectors \<noteq> length batch \<or> \<not> list_all (vector_ok (ee_dimensions e)) vectors then Inl ValueError
          else Inr (map2 (\<lambda>p v. (fst p, snd p, v)) batch vectors))"

text \<open>One round of the loop, after \<open>offset\<close> chunks.\<close>

definition embed_round :: "embedder \<Rightarrow> string \<Rightarrow> span list \<Rightarrow> nat \<Rightarrow> embed_state \<Rightarrow> chunk_vector list res \<times> embed_state" where
  "embed_round e s rest offset st =
     (case (if offset \<noteq> 0 then ee_yield e offset st else (Inr (), st)) of
        (Inl x, st1) \<Rightarrow> (Inl x, st1)
      | (Inr _, st1) \<Rightarrow>
     (case prepare e (es_budget st1) of
        (Inl x, b2) \<Rightarrow> (Inl x, st1\<lparr>es_budget := b2\<rparr>)
      | (Inr _, b2) \<Rightarrow>
     (case capacity e b2 of
        (Inl x, b3) \<Rightarrow> (Inl x, st1\<lparr>es_budget := b3\<rparr>)
      | (Inr cap, b3) \<Rightarrow>
          (let batch = take (batch_length (es_cost st1) cap) rest in
           case embed_batch e s batch b3 of
             Inl x \<Rightarrow> (Inl x, st1\<lparr>es_budget := b3\<rparr>)
           | Inr chunks \<Rightarrow> (Inr chunks,
               st1\<lparr>es_budget := b3, es_cost := Some (measured_cost (es_cost st1) (ee_seconds e offset) (length batch))\<rparr>)))))"

lemma batch_for_positive: "0 < batch_for free" "batch_for free \<le> 16"
  by (simp_all add: batch_for_def)

lemma view_batch: "0 < vw_batch (view_of b s)" "vw_batch (view_of b s) \<le> 16"
  by (simp_all add: view_of_def Let_def batch_for_positive split: prod.splits)

lemma capacity_positive: "capacity e b = (Inr cap, b') \<Longrightarrow> 0 < cap \<and> cap \<le> 16"
  by (auto simp: capacity_def batch_size_def snapshot_def view_batch split: prod.splits sum.splits if_splits)

lemma batch_length_positive: "0 < cap \<Longrightarrow> 0 < batch_length cost cap"
  by (auto simp: batch_length_def split: option.splits)

lemma zip_chunks:
  "length vectors = length batch \<Longrightarrow>
     map (\<lambda>(x, y, v). (x, y)) (map2 (\<lambda>p v. (fst p, snd p, v)) batch vectors) = batch
   \<and> (\<forall>(x, y, v)\<in>set (map2 (\<lambda>p v. (fst p, snd p, v)) batch vectors). v \<in> set vectors)"
  by (induction vectors batch rule: list_induct2) auto

lemma embed_batch_spans:
  assumes "embed_batch e s batch b = Inr chunks"
  shows "map (\<lambda>(x, y, v). (x, y)) chunks = batch \<and> length chunks = length batch
     \<and> (\<forall>(x, y, v)\<in>set chunks. vector_ok (ee_dimensions e) v)"
proof -
  obtain vectors where v: "length vectors = length batch" "list_all (vector_ok (ee_dimensions e)) vectors"
      "chunks = map2 (\<lambda>p v. (fst p, snd p, v)) batch vectors"
    using assms by (auto simp: embed_batch_def split: sum.splits if_splits)
  show ?thesis using zip_chunks[OF v(1)] v by (auto simp: list_all_iff)
qed

lemma embed_round_spans:
  assumes "embed_round e s rest offset st = (Inr chunks, st')" "rest \<noteq> []"
  shows "chunks \<noteq> [] \<and> length chunks \<le> length rest \<and> map (\<lambda>(x, y, v). (x, y)) chunks = take (length chunks) rest
     \<and> (\<forall>(x, y, v)\<in>set chunks. vector_ok (ee_dimensions e) v)"
proof -
  obtain st1 :: embed_state and b2 b3 :: budget and cap where c: "capacity e b2 = (Inr cap, b3)"
      and k: "embed_batch e s (take (batch_length (es_cost st1) cap) rest) b3 = Inr chunks"
    using assms(1) unfolding embed_round_def by (auto simp: Let_def split: prod.splits sum.splits if_splits)
  have "0 < batch_length (es_cost st1) cap" using capacity_positive[OF c] batch_length_positive by blast
  then show ?thesis using embed_batch_spans[OF k] assms(2) by (auto simp: min_def)
qed

function embed_rounds :: "embedder \<Rightarrow> string \<Rightarrow> span list \<Rightarrow> embed_state \<Rightarrow> chunk_vector list \<Rightarrow> chunk_vector list res \<times> embed_state" where
  "embed_rounds e s rest st out =
     (if rest = [] then (Inr out, st)
      else case embed_round e s rest (length out) st of
        (Inl x, st1) \<Rightarrow> (Inl x, st1)
      | (Inr chunks, st1) \<Rightarrow> embed_rounds e s (drop (length chunks) rest) st1 (out @ chunks))"
  by pat_completeness auto
termination
  by (relation "measure (\<lambda>(e, s, rest, st, out). length rest)") (auto dest!: embed_round_spans[OF sym])

declare embed_rounds.simps [simp del]

definition document :: "embedder \<Rightarrow> string \<Rightarrow> embed_state \<Rightarrow> chunk_vector list res \<times> embed_state" where
  "document e s st =
     (case prepare e (es_budget st) of
        (Inl x, b1) \<Rightarrow> (Inl x, st\<lparr>es_budget := b1\<rparr>)
      | (Inr _, b1) \<Rightarrow>
          (case local_spans (ee_offsets e s) (length s) (ee_chunk_tokens e) (ee_overlap_tokens e) of
             Inl x \<Rightarrow> (Inl x, st\<lparr>es_budget := b1\<rparr>)
           | Inr spans \<Rightarrow> embed_rounds e s spans (st\<lparr>es_budget := b1\<rparr>) []))"

end
