(* ===== verification/Embedder_Properties.thy ===== *)
theory Embedder_Properties
  imports Embedder
begin

text \<open>
  What admission guarantees to the host, and what a document's chunks guarantee to the index.
\<close>

section \<open>The target\<close>

lemma round_down: "0 \<le> (a::int) \<Longrightarrow> 0 < c \<Longrightarrow> a div c * c \<le> a \<and> 0 \<le> a div c * c"
  using div_mult_mod_eq[of a c] pos_mod_sign[of c a] pos_imp_zdiv_nonneg_iff[of c a] mult_nonneg_nonneg[of "a div c" c] by linarith

lemma target_within:
  assumes "working_target op s = (target, reserve)" "0 < target"
  shows "target \<le> requested_bytes op s \<and> target \<le> int (ms_total s) - reserve
     \<and> target \<le> int (ms_available s) + used_bytes s - reserve \<and> reserve = system_reserve s"
proof -
  define cap where "cap = max 0 (min (int (ms_total s) - system_reserve s) (int (ms_available s) + used_bytes s - system_reserve s))"
  define want where "want = min (requested_bytes op s) cap"
  have t: "target = max 0 (want div (16 * MIB) * (16 * MIB))" "reserve = system_reserve s"
    using assms(1) unfolding working_target_def Let_def cap_def want_def by auto
  have m: "0 < 16 * MIB" by (simp add: MIB_def)
  have "0 < want div (16 * MIB) * (16 * MIB)" using assms(2) t(1) by linarith
  then have "0 < want div (16 * MIB)" using m by (metis zero_less_mult_iff not_less_iff_gr_or_eq)
  then have "0 < want" using m by (metis div_pos_neg_trivial not_less pos_imp_zdiv_pos_iff order_less_le_trans)
  then have "target \<le> want" "0 < want" using round_down[of want "16 * MIB"] m t(1) by linarith+
  then show ?thesis using t(2) unfolding want_def cap_def by linarith
qed

text \<open>The service's own growth does not shrink its target: bytes it takes are added back.\<close>

theorem target_ignores_own_growth:
  assumes "n \<le> ms_available s"
  shows "working_target op (s\<lparr>ms_available := ms_available s - n, ms_engine := ms_engine s + n\<rparr>) = working_target op s"
proof -
  let ?s = "s\<lparr>ms_available := ms_available s - n, ms_engine := ms_engine s + n\<rparr>"
  have "int (ms_available ?s) = int (ms_available s) - int n" "used_bytes ?s = used_bytes s + int n"
    using assms by (simp_all add: used_bytes_def of_nat_diff)
  then have "int (ms_available ?s) + used_bytes ?s = int (ms_available s) + used_bytes s" by linarith
  moreover have "system_reserve ?s = system_reserve s" "requested_bytes op ?s = requested_bytes op s" "ms_total ?s = ms_total s"
    by (simp_all add: system_reserve_def requested_bytes_def split: option.split)
  ultimately show ?thesis unfolding working_target_def by (simp only: Let_def)
qed

section \<open>Admission\<close>

text \<open>The sample that an operation decided on, and what it leaves.\<close>

definition fits_now :: "emodel \<Rightarrow> budget \<Rightarrow> memory_sample \<Rightarrow> bool" where
  "fits_now m b s \<longleftrightarrow> \<not> mb_policy_error b \<and> ms_complete s
     \<and> used_bytes s + additional_bytes b m \<le> requested_bytes (mb_options b) s
     \<and> used_bytes s + additional_bytes b m \<le> int (ms_total s) - system_reserve s
     \<and> system_reserve s + additional_bytes b m \<le> int (ms_available s)
     \<and> fst (model_requirements m) + int (ms_desktop s) \<le> requested_bytes (mb_options b) s"

lemma measurement_keeps:
  "measurement refresh b = (s, b') \<Longrightarrow> mb_cached b' = Some s \<and> mb_options b' = mb_options b \<and> mb_policy_error b' = mb_policy_error b
     \<and> mb_loaded b' = mb_loaded b \<and> mb_registry b' = mb_registry b \<and> mb_evictions b' = mb_evictions b \<and> mb_rejected b' = mb_rejected b"
  by (auto simp: measurement_def Let_def split: prod.splits option.splits if_splits)

lemma additional_positive: "0 < additional_bytes b m"
  by (simp add: additional_bytes_def model_requirements_def MIB_def)

lemma can_infer_result:
  assumes "can_infer m b = (ok, b')"
  obtains s where "measurement False b = (s, b')" "ok \<Longrightarrow> fits_now m b' s"
proof -
  obtain s where s: "measurement False b = (s, b')" using assms by (auto simp: can_infer_def snapshot_def split: prod.splits)
  let ?v = "view_of b' s"
  have v: "ok \<longleftrightarrow> \<not> vw_background_paused ?v \<and> vw_target ?v \<ge> fst (model_requirements m) + int (ms_desktop (vw_sample ?v))
      \<and> vw_used ?v + additional_bytes b' m \<le> vw_target ?v"
    using assms s by (auto simp: can_infer_def snapshot_def)
  have "fits_now m b' s" if ok
  proof -
    obtain target reserve where t: "working_target (mb_options b') s = (target, reserve)" by fastforce
    have f: "\<not> mb_policy_error b'" "ms_complete s" "target - used_bytes s \<ge> 48 * MIB" "used_bytes s + additional_bytes b' m \<le> target"
        "fst (model_requirements m) + int (ms_desktop s) \<le> target"
      using v that t by (auto simp: view_of_def Let_def MIB_def split: if_splits)
    have "0 < target"
    proof (rule ccontr)
      assume "\<not> 0 < target"
      then have "target = 0" using t by (auto simp: working_target_def Let_def max_def split: if_splits)
      then show False using t f v that unfolding view_of_def by (auto simp: Let_def MIB_def max_def model_requirements_def split: if_splits)
    qed
    from target_within[OF t this] f show ?thesis by (auto simp: fits_now_def)
  qed
  then show thesis using that s by blast
qed

lemma can_infer_keeps:
  "can_infer m b = (ok, b') \<Longrightarrow> mb_options b' = mb_options b \<and> mb_policy_error b' = mb_policy_error b \<and> mb_loaded b' = mb_loaded b
     \<and> mb_registry b' = mb_registry b \<and> mb_evictions b' = mb_evictions b \<and> mb_rejected b' = mb_rejected b"
  using measurement_keeps by (auto simp: can_infer_def snapshot_def split: prod.splits)

definition others :: "emodel \<Rightarrow> budget \<Rightarrow> emodel list" where
  "others m b = filter (\<lambda>x. em_id x \<noteq> em_id m) (registered b)"

definition sessions :: "budget \<Rightarrow> emodel list \<Rightarrow> emodel list" where
  "sessions b ms = filter (\<lambda>x. em_local x \<and> loaded b x) ms"

lemma release_sessions:
  "release ms b = (if sessions b ms = [] then b
     else b\<lparr>mb_loaded := filter (\<lambda>i. i \<notin> em_id ` set (sessions b ms)) (mb_loaded b),
            mb_evictions := mb_evictions b + length (sessions b ms), mb_sample_at := 0\<rparr>)"
  unfolding release_def sessions_def Let_def by (rule refl)

lemma release_result:
  "mb_loaded (release ms b) = filter (\<lambda>i. i \<notin> em_id ` set (sessions b ms)) (mb_loaded b)"
  "mb_evictions (release ms b) = mb_evictions b + length (sessions b ms)"
  "mb_rejected (release ms b) = mb_rejected b" "mb_options (release ms b) = mb_options b"
  "mb_policy_error (release ms b) = mb_policy_error b" "mb_registry (release ms b) = mb_registry b"
  by (cases "sessions b ms = []"; simp add: release_sessions)+

lemma release_others_keeps: "loaded (release (others m b) c) m = loaded c m"
  by (auto simp: loaded_def release_result others_def sessions_def)

text \<open>The three ways an admission ends.\<close>

lemma admit_cases:
  assumes "admit m b = (result, b')"
  obtains b1 where "can_infer m b = (True, b1)" "result = Inr ()" "b' = b1"
  | b1 where "can_infer m b = (False, b1)" "can_infer m (release (others m b1) b1) = (True, b')" "result = Inr ()"
  | b1 b2 where "can_infer m b = (False, b1)" "can_infer m (release (others m b1) b1) = (False, b2)"
      "result = Inl over_memory_budget" "b' = b2\<lparr>mb_rejected := mb_rejected b2 + 1\<rparr>"
  using assms by (auto simp: admit_def others_def split: prod.splits bool.splits)

text \<open>C38. What admission lets through fits at that moment: the policy is valid and the sample complete, the
  working set with what the model adds stays within the requested limit, and the system keeps its reserve.\<close>

theorem admission_leaves_headroom:
  assumes "admit m b = (Inr (), b')"
  shows "\<exists>s. mb_cached b' = Some s \<and> fits_now m b' s"
  using assms
proof (cases rule: admit_cases)
  case (1 b1)
  from can_infer_result[OF 1(1)] measurement_keeps show ?thesis using 1(3) by metis
next
  case (2 b1)
  from can_infer_result[OF 2(2)] measurement_keeps show ?thesis by metis
qed (auto simp: over_memory_budget_def)

text \<open>A refusal is a 503 after every other local session was released; the model itself stays as it was.\<close>

theorem refusal_after_release:
  assumes "admit m b = (Inl e, b')"
  shows "e = ServiceError 503 ''inference_memory_budget'' \<and> mb_rejected b' = mb_rejected b + 1
    \<and> mb_evictions b' = mb_evictions b + length (sessions b (others m b))
    \<and> mb_loaded b' = filter (\<lambda>i. i \<notin> em_id ` set (sessions b (others m b))) (mb_loaded b)
    \<and> (loaded b' m \<longleftrightarrow> loaded b m)"
  using assms
proof (cases rule: admit_cases)
  case (3 b1 b2)
  note k = can_infer_keeps[OF 3(1)] can_infer_keeps[OF 3(2)]
  have o: "others m b1 = others m b" "sessions b1 = sessions b"
    using k(1) by (auto simp: others_def registered_def sessions_def loaded_def fun_eq_iff)
  have e: "mb_loaded b' = filter (\<lambda>i. i \<notin> em_id ` set (sessions b (others m b))) (mb_loaded b)"
    using 3(4) k by (simp add: release_result o)
  have "loaded b' m \<longleftrightarrow> loaded b m" by (auto simp: loaded_def e others_def sessions_def)
  then show ?thesis using 3(3,4) k e by (simp add: release_result o over_memory_budget_def)
qed auto

lemma admitted_keeps_loaded:
  assumes "admit m b = (Inr (), b')"
  shows "loaded b' m = loaded b m"
  using assms
proof (cases rule: admit_cases)
  case (1 b1)
  then show ?thesis using can_infer_keeps[OF 1(1)] by (simp add: loaded_def)
next
  case (2 b1)
  then show ?thesis using can_infer_keeps[OF 2(1)] can_infer_keeps[OF 2(2)] release_others_keeps[of m b1 b1] by (simp add: loaded_def)
qed (auto simp: over_memory_budget_def)

section \<open>A session is loaded when it is used\<close>

lemma prepare_loads: "prepare e b = (Inr (), b') \<Longrightarrow> loaded b' (ee_model e)"
  by (auto simp: prepare_def load_model_def loaded_def split: prod.splits sum.splits if_splits)

lemma capacity_keeps_loaded: "capacity e b = (Inr n, b') \<Longrightarrow> loaded b (ee_model e) \<Longrightarrow> loaded b' (ee_model e)"
  using admitted_keeps_loaded[of "ee_model e" b]
  by (auto simp: capacity_def batch_size_def snapshot_def loaded_def dest: measurement_keeps split: prod.splits sum.splits if_splits)

text \<open>The parameters that do not fail by the missing session themselves.\<close>

definition own_errors :: "embedder \<Rightarrow> bool" where
  "own_errors e \<longleftrightarrow> (\<forall>b. ee_load e b \<noteq> Inl AttributeError) \<and> (\<forall>xs. ee_embed e xs \<noteq> Inl AttributeError)
     \<and> (\<forall>n st. fst (ee_yield e n st) \<noteq> Inl AttributeError)"

lemma admit_errors: "admit m b = (Inl x, b') \<Longrightarrow> x \<noteq> AttributeError"
  using refusal_after_release[of m b x b'] by auto

lemma prepare_errors: "own_errors e \<Longrightarrow> prepare e b = (Inl x, b') \<Longrightarrow> x \<noteq> AttributeError"
  by (auto simp: prepare_def load_model_def own_errors_def dest: admit_errors split: prod.splits sum.splits if_splits)

lemma capacity_errors: "capacity e b = (Inl x, b') \<Longrightarrow> x \<noteq> AttributeError"
  by (auto simp: capacity_def batch_size_def dest: admit_errors split: prod.splits sum.splits if_splits)

lemma embed_round_errors:
  assumes "own_errors e" "embed_round e s rest offset st = (Inl x, st')"
  shows "x \<noteq> AttributeError"
proof -
  obtain st1 :: embed_state and y where y: "(if offset \<noteq> 0 then ee_yield e offset st else (Inr (), st)) = (y, st1)" by (metis surj_pair)
  obtain z and b2 :: budget where z: "prepare e (es_budget st1) = (z, b2)" by (metis surj_pair)
  obtain c and b3 :: budget where c: "capacity e b2 = (c, b3)" by (metis surj_pair)
  show ?thesis
  proof (cases y)
    case (Inl e1)
    then have "fst (ee_yield e offset st) = Inl x" using assms(2) y by (auto simp: embed_round_def split: if_splits)
    then show ?thesis using assms(1) by (auto simp: own_errors_def)
  next
    case y1: (Inr u)
    show ?thesis
    proof (cases z)
      case (Inl e2)
      then show ?thesis using assms y y1 z prepare_errors[OF assms(1)] by (auto simp: embed_round_def)
    next
      case z1: (Inr u2)
      show ?thesis
      proof (cases c)
        case (Inl e3)
        then show ?thesis using assms(2) y y1 z z1 c capacity_errors by (auto simp: embed_round_def)
      next
        case c1: (Inr cap)
        have "loaded b3 (ee_model e)" using capacity_keeps_loaded prepare_loads z z1 c c1 by simp
        then show ?thesis using assms y y1 z z1 c c1
          by (auto simp: embed_round_def embed_batch_def native_def own_errors_def Let_def split: sum.splits if_splits)
      qed
    qed
  qed
qed

lemma embed_rounds_errors:
  "own_errors e \<Longrightarrow> embed_rounds e s rest st out = (Inl x, st') \<Longrightarrow> x \<noteq> AttributeError"
proof (induction e s rest st out rule: embed_rounds.induct)
  case (1 e s rest st out)
  show ?case
  proof (cases "rest = []")
    case True
    then show ?thesis using 1(3) by (simp add: embed_rounds.simps)
  next
    case False
    obtain r and st1 :: embed_state where r: "embed_round e s rest (length out) st = (r, st1)" by (metis surj_pair)
    show ?thesis
    proof (cases r)
      case (Inl y)
      then show ?thesis using 1(3) False r embed_round_errors[OF 1(2)] by (simp add: embed_rounds.simps)
    next
      case (Inr chunks)
      then show ?thesis using 1(1)[OF False r[symmetric] Inr 1(2)] 1(3) False r by (simp add: embed_rounds.simps)
    qed
  qed
qed

text \<open>The native session is never called without being loaded, although others may release it in between.\<close>

theorem session_is_loaded_when_used:
  assumes "own_errors e"
  shows "fst (document e s st) \<noteq> Inl AttributeError \<and> fst (query e s b) \<noteq> Inl AttributeError"
proof
  show "fst (document e s st) \<noteq> Inl AttributeError"
  proof
    assume a: "fst (document e s st) = Inl AttributeError"
    obtain z and b1 :: budget where z: "prepare e (es_budget st) = (z, b1)" by (metis surj_pair)
    have "z \<noteq> Inl AttributeError" using prepare_errors[OF assms] z by auto
    then obtain u spans where zs: "z = Inr u"
        "local_spans (ee_offsets e s) (length s) (ee_chunk_tokens e) (ee_overlap_tokens e) = Inr spans"
      using a z by (cases z) (auto simp: document_def local_spans_def Let_def split: if_splits)
    then have "fst (embed_rounds e s spans (st\<lparr>es_budget := b1\<rparr>) []) = Inl AttributeError"
      using a z by (simp add: document_def)
    then show False using embed_rounds_errors[OF assms] by (metis prod.collapse)
  qed
  show "fst (query e s b) \<noteq> Inl AttributeError"
    using prepare_errors[OF assms] prepare_loads[of e b] assms
    by (auto simp: query_def native_def own_errors_def split: prod.splits sum.splits if_splits list.splits)
qed

section \<open>What a document is made of\<close>

definition chunk_spans :: "chunk_vector list \<Rightarrow> span list" where
  "chunk_spans chunks = map (\<lambda>(x, y, v). (x, y)) chunks"

lemma embed_rounds_spans:
  "embed_rounds e s rest st out = (Inr chunks, st') \<Longrightarrow>
     \<exists>more. chunks = out @ more \<and> chunk_spans more = rest \<and> (\<forall>(x, y, v)\<in>set more. vector_ok (ee_dimensions e) v)"
proof (induction e s rest st out rule: embed_rounds.induct)
  case (1 e s rest st out)
  show ?case
  proof (cases "rest = []")
    case True
    then show ?thesis using 1(2) by (auto simp: embed_rounds.simps chunk_spans_def)
  next
    case False
    obtain r and st1 :: embed_state where r: "embed_round e s rest (length out) st = (r, st1)" by (metis surj_pair)
    obtain first where f: "r = Inr first" using 1(2) False r by (cases r) (auto simp: embed_rounds.simps)
    have "embed_rounds e s (drop (length first) rest) st1 (out @ first) = (Inr chunks, st')"
      using 1(2) False r f by (simp add: embed_rounds.simps)
    from 1(1)[OF False r[symmetric] f this] obtain more where m: "chunks = (out @ first) @ more"
        "chunk_spans more = drop (length first) rest" "\<forall>(x, y, v)\<in>set more. vector_ok (ee_dimensions e) v" by blast
    have "chunk_spans first = take (length first) rest" "\<forall>(x, y, v)\<in>set first. vector_ok (ee_dimensions e) v"
      using embed_round_spans[of e s rest "length out" st first st1] r f False by (auto simp: chunk_spans_def)
    then show ?thesis using m by (intro exI[of _ "first @ more"]) (auto simp: chunk_spans_def)
  qed
qed

lemma document_spans:
  assumes "document e s st = (Inr chunks, st')"
  shows "local_spans (ee_offsets e s) (length s) (ee_chunk_tokens e) (ee_overlap_tokens e) = Inr (chunk_spans chunks)
    \<and> (\<forall>(x, y, v)\<in>set chunks. vector_ok (ee_dimensions e) v)"
proof -
  obtain spans and st1 :: embed_state where r: "embed_rounds e s spans st1 [] = (Inr chunks, st')"
      "local_spans (ee_offsets e s) (length s) (ee_chunk_tokens e) (ee_overlap_tokens e) = Inr spans"
    using assms by (auto simp: document_def split: prod.splits sum.splits)
  from embed_rounds_spans[OF r(1)] r(2) show ?thesis by auto
qed

text \<open>
  One call of the native model gave these chunks their vectors: the inputs are the prefix and the texts
  of the spans, the answer has one vector for each, in order. The vectors of a text may depend on what
  else is in its batch: quantized models do depend on it (\<open>docs/releases/4.0.3.md\<close>).
\<close>

definition embedded :: "embedder \<Rightarrow> string \<Rightarrow> span list \<Rightarrow> chunk_vector list \<Rightarrow> bool" where
  "embedded e s batch part \<longleftrightarrow> batch \<noteq> [] \<and> length batch \<le> 16
     \<and> (\<exists>vectors. ee_embed e (map (\<lambda>(x, y). ee_document_prefix e @ take (y - x) (drop x s)) batch) = Inr vectors
          \<and> length vectors = length batch \<and> part = map (\<lambda>((x, y), v). (x, y, v)) (zip batch vectors))"

lemma embedded_length: "embedded e s batch part \<Longrightarrow> length part = length batch"
  by (auto simp: embedded_def)

lemma embed_round_embedded:
  assumes "embed_round e s rest offset st = (Inr chunks, st')" "rest \<noteq> []"
  shows "embedded e s (take (length chunks) rest) chunks \<and> (offset = 0 \<longrightarrow> es_cost st = None \<longrightarrow> length chunks = 1)"
proof -
  obtain st1 :: embed_state and b2 b3 :: budget and cap where c: "capacity e b2 = (Inr cap, b3)"
      and k: "embed_batch e s (take (batch_length (es_cost st1) cap) rest) b3 = Inr chunks"
      and cost: "offset = 0 \<longrightarrow> es_cost st1 = es_cost st"
    using assms(1) unfolding embed_round_def by (auto simp: Let_def split: prod.splits sum.splits if_splits)
  let ?batch = "take (batch_length (es_cost st1) cap) rest"
  have size: "0 < batch_length (es_cost st1) cap" "batch_length (es_cost st1) cap \<le> 16"
    using capacity_positive[OF c] batch_length_positive[of cap] by (auto simp: batch_length_def split: option.splits)
  obtain vectors where v: "native e b3 (map (chunk_input e s) ?batch) = Inr vectors" "length vectors = length ?batch"
      "chunks = map2 (\<lambda>p v. (fst p, snd p, v)) ?batch vectors"
    using k by (auto simp: embed_batch_def split: sum.splits if_splits)
  have inputs: "map (chunk_input e s) ?batch = map (\<lambda>(x, y). ee_document_prefix e @ take (y - x) (drop x s)) ?batch"
    by (simp add: chunk_input_def case_prod_beta)
  have "ee_embed e (map (chunk_input e s) ?batch) = Inr vectors" using v(1) by (auto simp: native_def split: if_splits)
  then have "embedded e s ?batch chunks"
    using v(2,3) size assms(2) unfolding embedded_def inputs by (auto simp: case_prod_beta)
  moreover have "take (length chunks) rest = ?batch" using embedded_length[OF calculation] by (simp add: min_def)
  moreover have "length chunks = 1" if "offset = 0" "es_cost st = None"
    using embedded_length[OF calculation(1)] cost that assms(2) by (cases rest) (simp_all add: batch_length_def)
  ultimately show ?thesis by simp
qed

lemma embed_rounds_embedded:
  "embed_rounds e s rest st out = (Inr chunks, st') \<Longrightarrow>
     \<exists>batches parts. concat batches = rest \<and> list_all2 (embedded e s) batches parts \<and> chunks = out @ concat parts
       \<and> (out = [] \<longrightarrow> es_cost st = None \<longrightarrow> batches \<noteq> [] \<longrightarrow> length (hd batches) = 1)"
proof (induction e s rest st out rule: embed_rounds.induct)
  case (1 e s rest st out)
  show ?case
  proof (cases "rest = []")
    case True
    then show ?thesis using 1(2) by (intro exI[of _ "[]"]) (simp add: embed_rounds.simps)
  next
    case False
    obtain r and st1 :: embed_state where r: "embed_round e s rest (length out) st = (r, st1)" by (metis surj_pair)
    obtain first where f: "r = Inr first" using 1(2) False r by (cases r) (auto simp: embed_rounds.simps)
    have "embed_rounds e s (drop (length first) rest) st1 (out @ first) = (Inr chunks, st')"
      using 1(2) False r f by (simp add: embed_rounds.simps)
    from 1(1)[OF False r[symmetric] f this] obtain batches parts where b: "concat batches = drop (length first) rest"
        "list_all2 (embedded e s) batches parts" "chunks = (out @ first) @ concat parts" by blast
    note e = embed_round_embedded[OF r[unfolded f] False]
    show ?thesis
      using b e embedded_length[OF conjunct1[OF e]]
      by (intro exI[of _ "take (length first) rest # batches"] exI[of _ "first # parts"]) auto
  qed
qed

text \<open>C40. Embedding a document sends every chunk to the native model exactly once, in the order of the text and in
  batches of one to sixteen chunks, the first of a new embedder of a single one; the chunk gets the vector that the
  answer of its own batch has at its place, whatever the memory budget, the measured speed and other operations in
  between made of the batches. Nothing is assumed of the vectors.\<close>

theorem document_embeds_each_chunk_once:
  assumes "document e s st = (Inr chunks, st')"
  shows "\<exists>spans batches parts. local_spans (ee_offsets e s) (length s) (ee_chunk_tokens e) (ee_overlap_tokens e) = Inr spans
    \<and> concat batches = spans \<and> list_all2 (embedded e s) batches parts \<and> chunks = concat parts
    \<and> (es_cost st = None \<longrightarrow> batches \<noteq> [] \<longrightarrow> length (hd batches) = 1)"
proof -
  obtain spans and b1 :: budget where r: "embed_rounds e s spans (st\<lparr>es_budget := b1\<rparr>) [] = (Inr chunks, st')"
      "local_spans (ee_offsets e s) (length s) (ee_chunk_tokens e) (ee_overlap_tokens e) = Inr spans"
    using assms by (auto simp: document_def split: prod.splits sum.splits)
  from embed_rounds_embedded[OF r(1)] r(2) show ?thesis by simp
qed

text \<open>C39. An indexed document is indexed whole: together its chunks are exactly the positions of the text, each
  chunk is nonempty and inside the text with a vector the index accepts, and there are at most 512.\<close>

theorem document_covers_the_text:
  assumes "offsets_ok (length s) (ee_offsets e s)" "1 \<le> ee_overlap_tokens e" "ee_overlap_tokens e < ee_chunk_tokens e"
    and "document e s st = (Inr chunks, st')"
  shows "{i. i < length s} = (\<Union>(x, y, v)\<in>set chunks. {x..<y}) \<and> length chunks \<le> MAX_CHUNKS
    \<and> (\<forall>(x, y, v)\<in>set chunks. x < y \<and> y \<le> length s \<and> vector_ok (ee_dimensions e) v)"
proof -
  note d = document_spans[OF assms(4)]
  have total: "length (chunk_spans chunks) \<le> MAX_CHUNKS \<and> (\<forall>(x, y)\<in>set (chunk_spans chunks). x < y \<and> y \<le> length s)
      \<and> {i. i < length s} = (\<Union>(x, y)\<in>set (chunk_spans chunks). {x..<y})"
    using local_chunker.chunker_total[of "(ee_offsets e s, length s, ee_chunk_tokens e, ee_overlap_tokens e)" "chunk_spans chunks"]
      d assms(1-3) by simp
  have u: "(\<Union>(x, y)\<in>set (chunk_spans chunks). {x..<y}) = (\<Union>(x, y, v)\<in>set chunks. {x..<y})"
    by (auto simp: chunk_spans_def)
  show ?thesis using total d unfolding u by (auto simp: chunk_spans_def)
qed

section \<open>Providers and pressure\<close>

text \<open>Chunks for a provider cover the document as well, and a byte budget holds for every chunk.\<close>

theorem byte_chunks_fit:
  assumes "byte_spans cs wide overlap = Inr spans"
  shows "{i. i < length cs} = (\<Union>(x, y)\<in>set spans. {x..<y})
    \<and> (\<forall>(x, y)\<in>set spans. sum_list (map utf8_width (take (y - x) (drop x cs))) \<le> wide)"
proof -
  have at: "k \<le> length cs \<Longrightarrow> byte_positions p cs ! k = p + sum_list (map utf8_width (take k cs))" for p k and cs :: "nat list"
    by (induction cs arbitrary: p k) (auto simp: nth_Cons' take_Cons' gr0_conv_Suc)
  have "inside_text (length cs) spans \<and> (\<forall>(x, y)\<in>set spans. byte_positions 0 cs ! y \<le> byte_positions 0 cs ! x + wide)"
    using assms byte_windows_reach[of "byte_positions 0 cs" "length cs" 0 "[]" wide overlap spans]
    by (auto simp: byte_spans_def split: if_splits)
  note within = this
  have fit: "sum_list (map utf8_width (take (y - x) (drop x cs))) \<le> wide"
    if "x < y" "y \<le> length cs" "byte_positions 0 cs ! y \<le> byte_positions 0 cs ! x + wide" for x y
  proof -
    have "take y cs = take x cs @ take (y - x) (drop x cs)" using that(1) by (metis le_add_diff_inverse less_imp_le take_add)
    then show ?thesis using that(2,3) at[of y cs 0] at[of x cs 0] that(1) by simp
  qed
  have "\<forall>(x, y)\<in>set spans. sum_list (map utf8_width (take (y - x) (drop x cs))) \<le> wide"
    using within fit by (fastforce simp: inside_text_def)
  then show ?thesis using byte_chunker.chunks_are_the_text[of "(cs, wide, overlap)" spans] assms by simp
qed

theorem trim_releases_everything:
  assumes "trim acquired b = (True, b')" "m \<in> set (registered b)" "em_local m"
  shows "\<not> loaded b' m"
proof -
  obtain r where r: "mb_registry b = Some r" using assms(1) by (auto simp: trim_def split: option.splits)
  obtain b2 :: budget where b2: "b' = release (rm_models r) b2"
    using assms(1) r by (auto simp: trim_def split: prod.splits if_splits)
  show ?thesis using assms(2,3) r by (auto simp: b2 loaded_def release_result registered_def sessions_def)
qed

end
