(* ===== verification/Embedder_Examples.thy ===== *)
theory Embedder_Examples
  imports Embedder_Properties "HOL-Library.Code_Target_Nat" "HOL-Library.Code_Target_Int"
begin

text \<open>The properties of admission and embedding on a small host with two models, computed.\<close>

definition demo_small :: emodel where
  "demo_small = \<lparr>em_id = ''s'', em_name = ''bge-small'', em_local = True\<rparr>"

definition demo_large :: emodel where
  "demo_large = \<lparr>em_id = ''l'', em_name = ''multilingual-e5-small'', em_local = True\<rparr>"

text \<open>4 GiB of memory; the first sample shows the larger model's working set, the next ones do not.\<close>

definition demo_sample :: "nat \<Rightarrow> memory_sample" where
  "demo_sample engine = \<lparr>ms_total = 4294967296, ms_available = 2147483648, ms_engine = engine, ms_database = 0,
     ms_desktop = 0, ms_os_limit = None, ms_complete = True\<rparr>"

definition demo_host :: budget where
  "demo_host = (attach \<lparr>rm_default = demo_small, rm_models = [demo_small, demo_large]\<rparr>
     (make_budget \<lparr>mo_mode = Auto, mo_limit = None\<rparr> ''r''
       (\<lambda>n. (int n + 5000000, Some (demo_sample (if n = 0 then 900000000 else 100000000)), int n + 5000001))))
     \<lparr>mb_loaded := [''l'']\<rparr>"

definition demo_full :: budget where
  "demo_full = demo_host\<lparr>mb_probe := (\<lambda>n. (int n + 5000000, Some (demo_sample 1000000000), int n + 5000001))\<rparr>"

definition demo_embedder :: embedder where
  "demo_embedder = \<lparr>ee_model = demo_small, ee_budgeted = True, ee_dimensions = 1, ee_chunk_tokens = 2, ee_overlap_tokens = 1,
     ee_max_query_tokens = 4, ee_query_prefix = ''q'', ee_document_prefix = ''d'', ee_offsets = (\<lambda>s. [(0, 1), (2, 3), (3, 5)]),
     ee_load = (\<lambda>_. Inr ()), ee_embed = (\<lambda>xs. Inr (map (\<lambda>x. [1]) xs)),
     ee_yield = (\<lambda>n st. (Inr (), st)), ee_seconds = (\<lambda>_. 1 / 8)\<rparr>"

definition demo_state :: embed_state where
  "demo_state = \<lparr>es_budget = demo_host, es_cost = None\<rparr>"

lemma demo_admitted: "fst (admit demo_small demo_host) = Inr () \<and> mb_loaded (snd (admit demo_small demo_host)) = []
    \<and> mb_evictions (snd (admit demo_small demo_host)) = 1"
  by code_simp

lemma demo_refused: "fst (admit demo_small demo_full) = Inl over_memory_budget \<and> mb_loaded (snd (admit demo_small demo_full)) = []"
  by code_simp

lemma demo_document: "fst (document demo_embedder ''ab cd'' demo_state) = Inr [(0, 3, [1]), (2, 5, [1])]"
  by code_simp

theorem admission_leaves_headroom_witness:
  "\<exists>b s. admit demo_small demo_host = (Inr (), b) \<and> mb_cached b = Some s \<and> fits_now demo_small b s"
proof -
  obtain b where b: "admit demo_small demo_host = (Inr (), b)" using demo_admitted by (metis prod.collapse)
  from admission_leaves_headroom[OF b] b show ?thesis by blast
qed

theorem refusal_after_release_witness:
  "\<exists>b. admit demo_small demo_full = (Inl over_memory_budget, b) \<and> mb_rejected b = mb_rejected demo_full + 1 \<and> mb_loaded b = []"
proof -
  obtain b where b: "admit demo_small demo_full = (Inl over_memory_budget, b)" "mb_loaded b = []"
    using demo_refused by (metis prod.collapse)
  from refusal_after_release[OF b(1)] b show ?thesis by blast
qed

lemma demo_documented:
  obtains st where "document demo_embedder ''ab cd'' demo_state = (Inr [(0, 3, [1]), (2, 5, [1])], st)"
  using demo_document by (metis prod.collapse)

theorem document_embeds_each_chunk_once_witness:
  "\<exists>batches parts. concat batches = [(0, 3), (2, 5)] \<and> list_all2 (embedded demo_embedder ''ab cd'') batches parts
     \<and> concat parts = [(0, 3, [1]), (2, 5, [1])]"
proof -
  obtain st where d: "document demo_embedder ''ab cd'' demo_state = (Inr [(0, 3, [1]), (2, 5, [1])], st)" by (rule demo_documented)
  obtain spans batches parts where
      s: "local_spans (ee_offsets demo_embedder ''ab cd'') (length ''ab cd'') (ee_chunk_tokens demo_embedder) (ee_overlap_tokens demo_embedder) = Inr spans"
      "concat batches = spans" "list_all2 (embedded demo_embedder ''ab cd'') batches parts" "[(0, 3, [1]), (2, 5, [1])] = concat parts"
    using document_embeds_each_chunk_once[OF d] by (elim exE conjE)
  have "local_spans (ee_offsets demo_embedder ''ab cd'') (length ''ab cd'') (ee_chunk_tokens demo_embedder) (ee_overlap_tokens demo_embedder)
      = Inr [(0, 3), (2, 5)]"
    by code_simp
  with s(1) have "spans = [(0, 3), (2, 5)]" by (simp only: sum.inject)
  with s show ?thesis by (intro exI[of _ batches] exI[of _ parts]) simp
qed

theorem document_covers_the_text_witness:
  "{i. i < length ''ab cd''} = (\<Union>(x, y, v)\<in>set [(0, 3, [1::real]), (2, 5, [1])]. {x..<y})"
proof -
  obtain st where d: "document demo_embedder ''ab cd'' demo_state = (Inr [(0, 3, [1]), (2, 5, [1])], st)" by (rule demo_documented)
  have "offsets_ok (length ''ab cd'') (ee_offsets demo_embedder ''ab cd'')" "1 \<le> ee_overlap_tokens demo_embedder"
      "ee_overlap_tokens demo_embedder < ee_chunk_tokens demo_embedder"
    by (simp_all add: offsets_ok_def demo_embedder_def)
  from document_covers_the_text[OF this d] show ?thesis by blast
qed

theorem session_is_loaded_when_used_witness:
  "fst (query demo_embedder ''ab cd'' demo_full) \<noteq> Inl AttributeError"
proof -
  have "own_errors demo_embedder" by (simp add: own_errors_def demo_embedder_def)
  from session_is_loaded_when_used[OF this] show ?thesis by blast
qed

theorem byte_chunks_fit_witness:
  "\<exists>spans. byte_spans [97, 233, 8364, 98] 4 1 = Inr spans \<and> {i. i < length [97, 233, 8364, 98::nat]} = (\<Union>(x, y)\<in>set spans. {x..<y})"
proof -
  have "case byte_spans [97, 233, 8364, 98] 4 1 of Inl _ \<Rightarrow> False | Inr _ \<Rightarrow> True" by code_simp
  then obtain spans where s: "byte_spans [97, 233, 8364, 98] 4 1 = Inr spans" by (auto split: sum.splits)
  from byte_chunks_fit[OF s] s show ?thesis by (intro exI[of _ spans]) (elim conjE, intro conjI)
qed

end
