(* ===== verification/Spec2Isabelle.thy ===== *)
theory Spec2Isabelle
  imports Journal_Rollover Inference_Gate Trust_Search Memory_Authority Worker_Examples Tenant_Properties Memory_Pages Backup_Examples Folding_Examples Embedder_Examples
begin

text \<open>
  A verification development for mnemion, a memory store for assistants. Paths are relative to
  \<open>src/mnemion/\<close>; a migration is a file of \<open>service/migrations/\<close>.

  The program. A service keeps, in one PostgreSQL database per deployment, the memories of its
  tenants: rows with numbered revisions, evidence, claims and reviews, written and read by
  authenticated principals through \<open>service/memory.py\<close>. Every write queues a job in the same
  transaction; workers (\<open>service/worker.py\<close>) lease the jobs, compute embeddings outside any
  transaction and publish them, or erase a withdrawn memory. A space moves to another embedding
  model by a backfill and a cut-over (\<open>service/reindex.py\<close>). Inferences of one process share one
  gate (\<open>service/inference_limits.py\<close>). A write also records an outbox event, from which the memory
  is appended to an append-only journal of daily files in Git (\<open>journal/\<close>). Apart from the service,
  a local profile keeps a trust record per stored document (\<open>trust_lifecycle.py\<close>), which its search
  (\<open>hybrid_searcher.py\<close>) obeys. The installation keeps encrypted backups in a folder and removes older
  ones under a retention policy (\<open>backup_catalog.py\<close>, \<open>backup_retention.py\<close>).

  Theories and code.
  \<^item> \<open>Prelude\<close>: errors, the type \<open>tx\<close> of a transaction (a function of the state that raises, and
    then leaves nothing, or returns a value and the new state), the locale \<open>kept_relation\<close> of a
    reflexive and transitive relation that a transaction keeps if its parts do, the locale
    \<open>event_machine\<close> of an invariant kept by every event.
  \<^item> \<open>Journal_Format\<close>, \<open>Journal_Entry\<close>: \<open>journal/format.py\<close>. Day arithmetic, paths, entries, line
    framing. Lemmas: the parser of paths accepts exactly the canonical names; parsing the lines of
    entries gives them back; a partial last line is an error.
  \<^item> \<open>Journal_Index\<close>: \<open>journal/index.py\<close>. The four tables as association lists, one list operation per
    SQL statement. Lemmas: what the tables hold after any run of records, independence of order and
    repetition, permanence of denials.
  \<^item> \<open>Journal_Rollover\<close>: \<open>journal/rollover.py\<close>. Inventory of segments, delivery index, append. Lemmas:
    the inventory is complete, every record is selected exactly once, nothing is lost or rewritten.
  \<^item> \<open>Journal_Folding\<close>, \<open>Folding_Properties\<close>, \<open>Folding_Examples\<close>: \<open>journal/folding.py\<close> with the
    paths of \<open>journal/notes.py\<close>. The inventory of the tree, the complete reading, the notes, the move of
    old day files into the archive, the attempts of a run. Lemmas: with Git's index updates applied, no
    record line is lost or invented; no file moves before the notes it calls for; a run stays in its batch.
  \<^item> \<open>Store\<close>, \<open>Repository\<close>: the tables of the migrations as the record \<open>db\<close>, authorisation
    (\<open>mnemion.authorized\<close> and the row policies), \<open>service/db.py\<close>, \<open>service/fences.py\<close>,
    \<open>service/repository.py\<close>.
  \<^item> \<open>Writeback\<close>: the part of \<open>service/writeback.py\<close> that runs inside a memory transaction.
  \<^item> \<open>Memory_Service\<close>, \<open>Memory_Forget\<close>, \<open>Memory_Reads\<close>: \<open>service/memory.py\<close>, with the commands of
    \<open>service/models.py\<close>, \<open>service/withdrawal.py\<close> and \<open>service/capture_withdrawal.py\<close>.
  \<^item> \<open>Memory_Effects\<close>, \<open>Memory_Invariant\<close>, \<open>Memory_Theorems\<close>: what each committed step replaces; the
    well-formedness \<open>sound\<close> of a database and what persists for ever; that every write keeps both.
  \<^item> \<open>Memory_Examples\<close>, \<open>Memory_Commands\<close>, \<open>Memory_Properties\<close>, \<open>Memory_Authority\<close>,
    \<open>Memory_Pages\<close>: a small tenant for the witnesses; retries under keys; conflicts, revisions and
    deletion; who may do what; pagination (the locale \<open>keyset\<close>, interpreted on the listing).
  \<^item> \<open>Worker\<close>, \<open>Worker_Theorems\<close>, \<open>Worker_Properties\<close>, \<open>Worker_Examples\<close>: \<open>service/worker.py\<close> with
    \<open>service/lifecycle.py\<close>, the job policy of \<open>service/model_state.py\<close>, and the SQL functions they
    call. A turn takes as an argument what the clock and other transactions do between its own. Lemmas:
    leases exclude each other, a turn ends without its lease, a lost claim changes nothing,
    publication is exact, an erasure is complete and touches nothing else.
  \<^item> \<open>Memory_Budget\<close>, \<open>Document_Chunks\<close>, \<open>Embedder\<close>, \<open>Embedder_Properties\<close>, \<open>Embedder_Examples\<close>:
    \<open>service/memory_budget.py\<close>, the chunks of \<open>service/embeddings.py\<close> and \<open>service/embedding_tokens.py\<close>
    (the locale \<open>chunker\<close>, interpreted on the three ways of cutting), and the local embedder over both.
    Lemmas: what is admitted leaves the system its reserve, the session is loaded whenever it is used,
    chunks cover the document, each is embedded exactly once. The window loops end because the
    index grows; the loop over batches because each batch has at least one chunk.
  \<^item> \<open>Reindex\<close>, \<open>Reindex_Theorems\<close>, \<open>Reindex_Properties\<close>: \<open>service/reindex.py\<close>,
    \<open>service/model_registry.py\<close>, \<open>service/model_state.py\<close>. Lemmas: the backfill skips nothing and
    progresses, activation needs a complete index.
  \<^item> \<open>Inference_Gate\<close>: \<open>service/inference_limits.py\<close> as an interleaving of its locked sections over
    any number of threads. Lemmas: mutual exclusion, permits and operations add up to the capacity,
    turns are first in, first out.
  \<^item> \<open>Trust_Lifecycle\<close>, \<open>Trust_Properties\<close>, \<open>Trust_Search\<close>: \<open>trust_lifecycle.py\<close>, the trust tools of
    \<open>mcp_server.py\<close>, the verdicts of \<open>contradiction_detector.py\<close>, the quarantine of
    \<open>memory_guard.py\<close>, what \<open>ingestion.py\<close>, \<open>librarian.py\<close>, \<open>legacy_rollback.py\<close> and
    \<open>legacy_archive.py\<close> write to the same tables, and \<open>hybrid_searcher.py\<close>. Lemmas: a faithful history, bounded confidences,
    what a contest resolves, what a search hides.
  \<^item> \<open>Backup_Catalog\<close>, \<open>Backup_Retention\<close>, \<open>Backup_Cleanup\<close>: the private inventory of backup copies,
    the plan that protects the newest recovery points, and the cleanup as a program with exceptions
    over files that others may change before each of its accesses. \<open>Backup_Properties\<close> and
    \<open>Backup_Recovery\<close> state what programs keep (the locale \<open>world_relation\<close>) and what a plan protects;
    \<open>Backup_Theorems\<close> and \<open>Backup_Examples\<close> hold the properties: what a cleanup never removes, what
    stands after it, what its report tells. The read loop ends because the interferences are finitely
    many and, once they are over, each block moves on in an unchanging file.
  \<^item> \<open>Tenant\<close>, \<open>Tenant_Ledger\<close>, \<open>Tenant_Properties\<close>: the composition. One event is one transaction of
    a request, a worker, the reindexing or the fences, or time passing; workers keep their claims
    between events, so late and lost claims occur. Every reachable state is sound; the machine
    refines an abstract ledger (\<open>Absent\<close>, a version, \<open>Gone\<close>); an erasure is final. These theories
    compose the models above and translate no further code.
\<close>

text \<open>
  Abstractions.
  \<^item> A UUID is a natural number and \<open>uuid4\<close> a counter of fresh ones. A time is an integer number of
    microseconds. Numbers the Python code computes as floats (confidences, scores) are reals.
  \<^item> JSON texts, SHA-256 and SHA-1 digests, the privacy scan, the text-change chronology, the embedder,
    the operator's model profiles, the two rankings behind the search and the content of Git objects
    are parameters (\<open>codec\<close>, \<open>fold_env\<close>, \<open>embedder\<close>, \<open>svc\<close>, \<open>wb_config\<close>, \<open>worker\<close>, \<open>registry\<close>, and plain arguments).
    Where a property needs a law of one of them, such as the injectivity of a digest, the law is a
    hypothesis of the property.
  \<^item> Row-level security confines a session to one tenant; the model holds one tenant and checks the
    remaining policies. A transaction is atomic, so advisory locks and row locks have no counterpart.
    Deliveries registered to run after a commit are recorded in the state and not run.
  \<^item> A cursor of a listing is given decoded, or as text that does not decode. \<open>summary_pages\<close> follows
    cursors for a number of requests given as fuel; the property of pagination shows that the number
    of rows is enough.
  \<^item> The loop of the worker, the waits of the gate and the tools of the trust layer are sequences of
    the modelled transactions or locked sections; the machines above interleave them.
  \<^item> The constraints of the tables that the code relies on (keys and the foreign keys among memories,
    revisions, operations, jobs, deletions and embeddings) are part of \<open>sound\<close>, and are proved to be kept.

  Not modelled.
  \<^item> Git, ssh, files and processes of the journal, its spool, delivery and recovery, and the text of its
    notes: input and output around the modelled index, rollover and folding.
  \<^item> Recall, ranking and passages: PostgreSQL full-text search, vector distances and floating point.
    Native inference, model files and brokers. The librarian's proposals by a language model.
  \<^item> Connectors and the custody of captured conversations; the authorisation they need of the memory
    service is modelled, but not the trigger of migration 030 by which a deletion also denies the
    captured source (\<open>capture_denials\<close>), which no modelled operation reads. Vault, passwords, sign-in and OAuth: cryptography of libraries and protocols;
    an authenticated identity is an input.
  \<^item> HTTP, MCP transport, command line, administration, export, updates, the sealing of backups, telemetry, the
    desktop application, mining and graphs of the local profile, deployment probes and benchmarks.
\<close>

end
